(* ===== verification/Go_Prelude.thy ===== *)
theory Go_Prelude
  imports Main "HOL-Library.Sublist" "HOL-Library.Word"
begin

text \<open>
  What the Go code uses of the language and its standard library, shared by every component:
  the outcome of a call (a value, an error or a panic), strings as byte lists with Go's UTF-8
  decoding, and the functions of the packages \<^verbatim>\<open>strings\<close>, \<^verbatim>\<open>unicode\<close> and
  \<^verbatim>\<open>strconv\<close> that the repository calls.

  A Go string is a sequence of bytes: \<^typ>\<open>string\<close>, a list of 8-bit characters. A rune is
  Go's \<^verbatim>\<open>int32\<close> code point, here an \<^typ>\<open>int\<close>. \<open>runes s\<close> is what
  \<^verbatim>\<open>for _, r := range s\<close> visits, each rune with the bytes it was decoded from.
\<close>

named_theorems go_simps "simplification of outcomes"
named_theorems go_str "facts about Go's string functions"

section \<open>Outcomes of a call\<close>

text \<open>\<open>Ok\<close> is a result with a nil error, \<open>Err\<close> a non-nil error, \<open>Panic\<close> a run-time panic.\<close>

datatype ('e, 'a) outcome = Ok 'a | Err 'e | Panic

type_synonym rune = int

primrec and_then :: "('e, 'a) outcome \<Rightarrow> ('a \<Rightarrow> ('e, 'b) outcome) \<Rightarrow> ('e, 'b) outcome" where
  "and_then (Ok x) k = k x"
| "and_then (Err e) k = Err e"
| "and_then Panic k = Panic"

primrec map_err :: "('e \<Rightarrow> 'f) \<Rightarrow> ('e, 'a) outcome \<Rightarrow> ('f, 'a) outcome" where
  "map_err f (Ok x) = Ok x"
| "map_err f (Err e) = Err (f e)"
| "map_err f Panic = Panic"

fun map_out :: "('a \<Rightarrow> ('e, 'b) outcome) \<Rightarrow> 'a list \<Rightarrow> ('e, 'b list) outcome" where
  "map_out f [] = Ok []"
| "map_out f (x # xs) = and_then (f x) (\<lambda>y. and_then (map_out f xs) (\<lambda>ys. Ok (y # ys)))"

definition assert_that :: "bool \<Rightarrow> 'e \<Rightarrow> ('e, unit) outcome" where
  "assert_that b e = (if b then Ok () else Err e)"

fun is_ok :: "('e, 'a) outcome \<Rightarrow> bool" where
  "is_ok (Ok x) = True"
| "is_ok _ = False"

lemma and_then_assoc [simp]:
  "and_then (and_then m f) g = and_then m (\<lambda>x. and_then (f x) g)"
  by (cases m) auto

lemma and_then_Ok_right [simp]: "and_then m Ok = m"
  by (cases m) auto

lemma and_then_Ok_iff [go_simps]: "and_then m k = Ok y \<longleftrightarrow> (\<exists>x. m = Ok x \<and> k x = Ok y)"
  by (cases m) auto

lemma and_then_Err_iff [go_simps]:
  "and_then m k = Err e \<longleftrightarrow> m = Err e \<or> (\<exists>x. m = Ok x \<and> k x = Err e)"
  by (cases m) auto

lemma and_then_Panic_iff [go_simps]:
  "and_then m k = Panic \<longleftrightarrow> m = Panic \<or> (\<exists>x. m = Ok x \<and> k x = Panic)"
  by (cases m) auto

lemma map_err_Ok_iff [go_simps]: "map_err f m = Ok x \<longleftrightarrow> m = Ok x"
  by (cases m) auto

lemma map_err_Err_iff [go_simps]: "map_err f m = Err e \<longleftrightarrow> (\<exists>e'. m = Err e' \<and> e = f e')"
  by (cases m) auto

lemma map_err_Panic_iff [go_simps]: "map_err f m = Panic \<longleftrightarrow> m = Panic"
  by (cases m) auto

lemma assert_that_Ok_iff [go_simps]: "assert_that b e = Ok u \<longleftrightarrow> b"
  by (simp add: assert_that_def)

lemma assert_that_Err_iff [go_simps]: "assert_that b e = Err e' \<longleftrightarrow> \<not> b \<and> e' = e"
  by (auto simp: assert_that_def)

lemma assert_that_Panic [go_simps, simp]: "assert_that b e \<noteq> Panic"
  by (simp add: assert_that_def)

lemma is_ok_iff: "is_ok m \<longleftrightarrow> (\<exists>x. m = Ok x)"
  by (cases m) auto

lemma map_out_Ok_iff:
  "map_out f xs = Ok ys \<longleftrightarrow> list_all2 (\<lambda>x y. f x = Ok y) xs ys"
proof (induction xs arbitrary: ys)
  case Nil
  show ?case by auto
next
  case (Cons x xs)
  show ?case by (cases ys) (auto simp: go_simps Cons.IH list_all2_Cons1)
qed

lemma map_out_Err_iff:
  "map_out f xs = Err e \<longleftrightarrow>
     (\<exists>us v vs. xs = us @ v # vs \<and> f v = Err e \<and> (\<forall>u \<in> set us. is_ok (f u)))"
proof (induction xs)
  case Nil
  show ?case by simp
next
  case (Cons x xs)
  show ?case
  proof
    assume "map_out f (x # xs) = Err e"
    then consider "f x = Err e" | "is_ok (f x)" "map_out f xs = Err e"
      by (auto simp: go_simps is_ok_iff)
    then show "\<exists>us v vs. x # xs = us @ v # vs \<and> f v = Err e \<and> (\<forall>u \<in> set us. is_ok (f u))"
    proof cases
      case 1
      then show ?thesis by (intro exI [of _ "[]"]) simp
    next
      case 2
      then obtain us v vs where "xs = us @ v # vs" "f v = Err e" "\<forall>u \<in> set us. is_ok (f u)"
        using Cons.IH by blast
      with 2 show ?thesis by (intro exI [of _ "x # us"]) simp
    qed
  next
    assume "\<exists>us v vs. x # xs = us @ v # vs \<and> f v = Err e \<and> (\<forall>u \<in> set us. is_ok (f u))"
    then obtain us v vs where *: "x # xs = us @ v # vs" "f v = Err e"
        "\<forall>u \<in> set us. is_ok (f u)"
      by blast
    then show "map_out f (x # xs) = Err e"
      using Cons.IH by (cases us) (auto simp: go_simps is_ok_iff)
  qed
qed

lemma map_out_image: "map_out f xs = Ok ys \<Longrightarrow> \<forall>y \<in> set ys. \<exists>x. f x = Ok y"
  by (induction xs arbitrary: ys) (auto simp: go_simps)

lemma map_out_map: "(\<And>x. x \<in> set xs \<Longrightarrow> f x = Ok (g x)) \<Longrightarrow> map_out f xs = Ok (map g xs)"
  by (induction xs) auto

lemma map_out_Err_ex:
  "x \<in> set xs \<Longrightarrow> f x = Err e \<Longrightarrow> (\<And>y. y \<in> set xs \<Longrightarrow> f y \<noteq> Panic) \<Longrightarrow> \<exists>e. map_out f xs = Err e"
proof (induction xs)
  case (Cons a xs)
  then show ?case by (cases "f a") auto
qed simp

lemma map_out_not_Panic: "(\<And>x. x \<in> set xs \<Longrightarrow> f x \<noteq> Panic) \<Longrightarrow> map_out f xs \<noteq> Panic"
  by (induction xs) (auto simp: go_simps)

section \<open>Runes: UTF-8 decoding as \<^verbatim>\<open>utf8.DecodeRuneInString\<close> does it\<close>

definition rune_error :: rune where
  "rune_error = 65533"

abbreviation byte :: "char \<Rightarrow> int" where
  "byte c \<equiv> of_char c"

definition cont :: "int \<Rightarrow> bool" where
  "cont b \<longleftrightarrow> 128 \<le> b \<and> b \<le> 191"

definition second_ok :: "int \<Rightarrow> int \<Rightarrow> bool" where
  "second_ok a b =
     (if a = 224 then 160 \<le> b \<and> b \<le> 191
      else if a = 237 then 128 \<le> b \<and> b \<le> 159
      else if a = 240 then 144 \<le> b \<and> b \<le> 191
      else if a = 244 then 128 \<le> b \<and> b \<le> 143
      else cont b)"

text \<open>The rune and its width in bytes; invalid input is \<open>rune_error\<close> of width 1.\<close>

fun decode_rune :: "string \<Rightarrow> rune \<times> nat" where
  "decode_rune [] = (rune_error, 0)"
| "decode_rune (c # s) =
     (let a = byte c in
      if a < 128 then (a, 1)
      else if 194 \<le> a \<and> a \<le> 223 then
        (case s of
           d # _ \<Rightarrow> if cont (byte d) then ((a - 192) * 64 + (byte d - 128), 2)
                    else (rune_error, 1)
         | _ \<Rightarrow> (rune_error, 1))
      else if 224 \<le> a \<and> a \<le> 239 then
        (case s of
           d # e # _ \<Rightarrow>
             if second_ok a (byte d) \<and> cont (byte e)
             then ((a - 224) * 4096 + (byte d - 128) * 64 + (byte e - 128), 3)
             else (rune_error, 1)
         | _ \<Rightarrow> (rune_error, 1))
      else if 240 \<le> a \<and> a \<le> 244 then
        (case s of
           d # e # f # _ \<Rightarrow>
             if second_ok a (byte d) \<and> cont (byte e) \<and> cont (byte f)
             then ((a - 240) * 262144 + (byte d - 128) * 4096 + (byte e - 128) * 64
                   + (byte f - 128), 4)
             else (rune_error, 1)
         | _ \<Rightarrow> (rune_error, 1))
      else (rune_error, 1))"

lemma decode_rune_width: "s \<noteq> [] \<Longrightarrow> 0 < snd (decode_rune s)"
  by (cases s) (auto simp: Let_def decode_rune.simps(2) split: list.splits if_splits)

function runes :: "string \<Rightarrow> (rune \<times> string) list" where
  "runes [] = []"
| "runes (c # s) =
     (let (r, w) = decode_rune (c # s) in (r, take w (c # s)) # runes (drop w (c # s)))"
  by pat_completeness auto
termination
proof (relation "measure length")
  fix c s x r w
  assume *: "x = decode_rune (c # s)" "(r, w) = x"
  then have "0 < w"
    using decode_rune_width [of "c # s"] by (metis list.distinct(1) snd_conv)
  then show "(drop w (c # s), c # s) \<in> measure length" by (cases w) auto
qed simp

declare runes.simps(2) [simp del] decode_rune.simps(2) [simp del]

abbreviation unrunes :: "(rune \<times> string) list \<Rightarrow> string" where
  "unrunes rs \<equiv> concat (map snd rs)"

lemma unrunes_runes [simp]: "unrunes (runes s) = s"
proof (induction s rule: runes.induct)
  case 1
  show ?case by simp
next
  case (2 c s)
  obtain r w where d: "decode_rune (c # s) = (r, w)" by fastforce
  have "unrunes (runes (drop w (c # s))) = drop w (c # s)"
    using 2 [of "(r, w)" r w] d by simp
  then show ?case
    by (simp add: runes.simps(2) d)
qed

definition ascii :: "string \<Rightarrow> bool" where
  "ascii s \<longleftrightarrow> (\<forall>c \<in> set s. byte c < 128)"

lemma ascii_simps [simp]:
  "ascii []" "ascii (c # s) \<longleftrightarrow> byte c < 128 \<and> ascii s" "ascii (s @ t) \<longleftrightarrow> ascii s \<and> ascii t"
  by (auto simp: ascii_def)

lemma ascii_subset: "ascii s \<Longrightarrow> set t \<subseteq> set s \<Longrightarrow> ascii t"
  by (auto simp: ascii_def)

lemma runes_Cons_ascii: "byte c < 128 \<Longrightarrow> runes (c # s) = (byte c, [c]) # runes s"
  by (simp add: runes.simps(2) decode_rune.simps(2))

lemma runes_ascii: "ascii s \<Longrightarrow> runes s = map (\<lambda>c. (byte c, [c])) s"
  by (induction s) (auto simp: runes_Cons_ascii)

lemma runes_ascii_append: "ascii s \<Longrightarrow> runes (s @ t) = map (\<lambda>c. (byte c, [c])) s @ runes t"
  by (induction s) (auto simp: runes_Cons_ascii)

lemma byte_nonneg [simp]: "0 \<le> byte c"
  by (simp add: of_char_def)

lemma byte_char_of_nat: "byte (char_of (n :: nat)) = int (n mod 256)"
proof -
  have "byte (char_of n) = int (of_char (char_of n))" by (simp only: of_nat_of_char)
  then show ?thesis by (simp only: of_char_of)
qed

lemma byte_char_of_int: "byte (char_of (i :: int)) = i mod 256"
  by (simp only: of_char_of)

end
