(* ===== verification/Go_Strings.thy ===== *)
theory Go_Strings
  imports Go_Prelude "HOL-Library.Char_ord" "HOL-Library.List_Lexorder"
begin

text \<open>
  The functions of Go's packages \<^verbatim>\<open>strings\<close>, \<^verbatim>\<open>unicode\<close> and
  \<^verbatim>\<open>strconv\<close> the repository calls, each at the generality it is called with
  (separators are single bytes), and the facts the components use about them.
  \<^verbatim>\<open>strings.HasPrefix\<close>, \<^verbatim>\<open>HasSuffix\<close> and \<^verbatim>\<open>Contains\<close> are
  the library's \<^const>\<open>prefix\<close>, \<^const>\<open>suffix\<close> and \<^const>\<open>sublist\<close>.
\<close>

section \<open>White space\<close>

text \<open>\<^verbatim>\<open>unicode.IsSpace\<close>: the Latin-1 cases and the White\_Space property.\<close>

definition is_space :: "rune \<Rightarrow> bool" where
  "is_space r \<longleftrightarrow>
     r \<in> {9, 10, 11, 12, 13, 32, 133, 160, 5760, 8232, 8233, 8239, 8287, 12288}
     \<or> (8192 \<le> r \<and> r \<le> 8202)"

abbreviation space_chunk :: "rune \<times> string \<Rightarrow> bool" where
  "space_chunk c \<equiv> is_space (fst c)"

definition trim_end :: "('a \<Rightarrow> bool) \<Rightarrow> 'a list \<Rightarrow> 'a list" where
  "trim_end P xs = rev (dropWhile P (rev xs))"

definition trim_space :: "string \<Rightarrow> string" where
  "trim_space s = unrunes (trim_end space_chunk (dropWhile space_chunk (runes s)))"

fun split_chunks :: "(rune \<times> string) list \<Rightarrow> string \<Rightarrow> string list" where
  "split_chunks [] w = (if w = [] then [] else [w])"
| "split_chunks (c # cs) w =
     (if space_chunk c then (if w = [] then split_chunks cs [] else w # split_chunks cs [])
      else split_chunks cs (w @ snd c))"

text \<open>\<^verbatim>\<open>strings.Fields\<close>: the maximal runs of runes that are not white space.\<close>

definition str_fields :: "string \<Rightarrow> string list" where
  "str_fields s = split_chunks (runes s) []"

abbreviation space_byte :: "char \<Rightarrow> bool" where
  "space_byte c \<equiv> is_space (byte c)"

lemma trim_space_Nil [simp]: "trim_space [] = []"
  by (simp add: trim_space_def trim_end_def)

lemma trim_space_ascii:
  assumes "ascii s"
  shows "trim_space s = trim_end space_byte (dropWhile space_byte s)"
proof -
  have u: "unrunes (map (\<lambda>c. (byte c, [c])) t) = t" for t :: string
    by (induction t) auto
  show ?thesis
    by (simp add: trim_space_def runes_ascii [OF assms] trim_end_def dropWhile_map comp_def
        rev_map u flip: map_map)
qed

lemma dropWhile_id: "(xs \<noteq> [] \<Longrightarrow> \<not> P (hd xs)) \<Longrightarrow> dropWhile P xs = xs"
  by (cases xs) auto

lemma trim_end_id: "(xs \<noteq> [] \<Longrightarrow> \<not> P (last xs)) \<Longrightarrow> trim_end P xs = xs"
  by (cases "xs = []") (simp_all add: trim_end_def dropWhile_id hd_rev)

lemma trim_space_id:
  assumes "ascii s" "s \<noteq> [] \<Longrightarrow> \<not> space_byte (hd s) \<and> \<not> space_byte (last s)"
  shows "trim_space s = s"
  using assms by (simp add: trim_space_ascii dropWhile_id trim_end_id)

lemma trim_end_split: "\<exists>ys. xs = trim_end P xs @ ys \<and> (\<forall>y \<in> set ys. P y)"
proof (intro exI conjI)
  show "xs = trim_end P xs @ rev (takeWhile P (rev xs))"
    unfolding trim_end_def by (metis rev_append rev_rev_ident takeWhile_dropWhile_id)
  show "\<forall>y \<in> set (rev (takeWhile P (rev xs))). P y"
    by (auto dest: set_takeWhileD)
qed

lemma set_trim_end: "set (trim_end P xs) \<subseteq> set xs"
  using set_dropWhileD [of _ P "rev xs"] by (auto simp: trim_end_def)

lemma set_trim_space: "set (trim_space s) \<subseteq> set s"
proof
  fix x assume "x \<in> set (trim_space s)"
  then obtain c where c: "c \<in> set (trim_end space_chunk (dropWhile space_chunk (runes s)))"
      "x \<in> set (snd c)"
    by (auto simp: trim_space_def)
  then have "c \<in> set (runes s)"
    using set_trim_end [of space_chunk] set_dropWhileD [of c space_chunk] by blast
  with c(2) have "x \<in> set (unrunes (runes s))"
    by (auto simp del: unrunes_runes)
  then show "x \<in> set s" by simp
qed

section \<open>Splitting and joining at one byte\<close>

fun split_on :: "char \<Rightarrow> string \<Rightarrow> string list" where
  "split_on c [] = [[]]"
| "split_on c (x # xs) =
     (if x = c then [] # split_on c xs
      else (case split_on c xs of [] \<Rightarrow> [[x]] | w # ws \<Rightarrow> (x # w) # ws))"

fun join :: "string \<Rightarrow> string list \<Rightarrow> string" where
  "join sep [] = []"
| "join sep [s] = s"
| "join sep (s # t # ts) = s @ sep @ join sep (t # ts)"

lemma split_on_not_Nil [simp]: "split_on c s \<noteq> []"
  by (cases s) (auto split: list.splits)

lemma split_on_free: "w \<in> set (split_on c s) \<Longrightarrow> c \<notin> set w"
proof (induction s arbitrary: w)
  case (Cons x xs)
  then show ?case by (cases "split_on c xs") (auto split: if_splits)
qed simp

lemma join_split_on [simp]: "join [c] (split_on c s) = s"
proof (induction s)
  case (Cons x xs)
  obtain w ws where w: "split_on c xs = w # ws" by (cases "split_on c xs") auto
  with Cons.IH show ?case by (cases ws) auto
qed simp

lemma split_on_word: "c \<notin> set w \<Longrightarrow> split_on c w = [w]"
  by (induction w) auto

lemma split_on_append: "c \<notin> set w \<Longrightarrow> split_on c (w @ c # s) = w # split_on c s"
  by (induction w) auto

lemma split_on_join:
  "ws \<noteq> [] \<Longrightarrow> \<forall>w \<in> set ws. c \<notin> set w \<Longrightarrow> split_on c (join [c] ws) = ws"
proof (induction "[c]" ws rule: join.induct)
  case (3 s t ts)
  then show ?case by (simp add: split_on_append)
qed (simp_all add: split_on_word)

lemma split_on_set: "w \<in> set (split_on c s) \<Longrightarrow> set w \<subseteq> set s"
proof (induction s arbitrary: w)
  case (Cons x xs)
  then show ?case
    by (cases "split_on c xs") (auto split: if_splits, blast+)
qed simp

lemma set_join: "set (join sep ws) \<subseteq> set sep \<union> (\<Union>w \<in> set ws. set w)"
  by (induction sep ws rule: join.induct) auto

section \<open>Fields of an ASCII string\<close>

lemma split_chunks_word:
  "\<forall>c \<in> set s. \<not> space_byte c \<Longrightarrow>
   split_chunks (map (\<lambda>c. (byte c, [c])) s @ cs) w = split_chunks cs (w @ s)"
  by (induction s arbitrary: w) auto

definition word :: "string \<Rightarrow> bool" where
  "word s \<longleftrightarrow> s \<noteq> [] \<and> ascii s \<and> (\<forall>c \<in> set s. \<not> space_byte c)"

lemma str_fields_word: "word s \<Longrightarrow> str_fields s = [s]"
  using split_chunks_word [of s "[]" "[]"] by (simp add: str_fields_def word_def runes_ascii)

lemma is_space_32 [simp]: "is_space 32"
  by (simp add: is_space_def)

lemma str_fields_two_words: "word s \<Longrightarrow> word t \<Longrightarrow> str_fields (s @ '' '' @ t) = [s, t]"
  using split_chunks_word [of s "(32, '' '') # map (\<lambda>c. (byte c, [c])) t" "[]"]
    split_chunks_word [of t "[]" "[]"]
  by (simp add: str_fields_def word_def runes_ascii is_space_def)

lemma split_chunks_nonempty:
  "\<forall>c \<in> set cs. snd c \<noteq> [] \<Longrightarrow> [] \<notin> set (split_chunks cs w)"
  by (induction cs w rule: split_chunks.induct) auto

lemma decode_take_nonempty: "c \<in> set (runes s) \<Longrightarrow> snd c \<noteq> []"
proof (induction s rule: runes.induct)
  case (2 x s)
  obtain r w where d: "decode_rune (x # s) = (r, w)" by fastforce
  then have "0 < w" using decode_rune_width [of "x # s"] by simp
  with 2 d show ?case by (cases w) (auto simp: runes.simps(2))
qed simp

lemma str_fields_nonempty: "[] \<notin> set (str_fields s)"
  unfolding str_fields_def by (rule split_chunks_nonempty) (auto dest: decode_take_nonempty)

lemma split_chunks_set:
  "x \<in> set (split_chunks cs w) \<Longrightarrow> set x \<subseteq> set w \<union> set (unrunes cs)"
  by (induction cs w rule: split_chunks.induct) (auto split: if_splits)

lemma str_fields_set: "w \<in> set (str_fields s) \<Longrightarrow> set w \<subseteq> set s"
  using split_chunks_set [of w "runes s" "[]"] by (simp add: str_fields_def)

lemma split_chunks_space:
  "split_chunks cs w = [] \<longleftrightarrow> w = [] \<and> (\<forall>c \<in> set cs. space_chunk c)"
  if "\<forall>c \<in> set cs. snd c \<noteq> []"
  using that by (induction cs w rule: split_chunks.induct) auto

lemma trim_end_Nil_iff: "trim_end P xs = [] \<longleftrightarrow> (\<forall>x \<in> set xs. P x)"
  by (simp add: trim_end_def)

lemma dropWhile_all: "(\<forall>x \<in> set (dropWhile P xs). P x) \<longleftrightarrow> (\<forall>x \<in> set xs. P x)"
  by (induction xs) auto

lemma trim_space_Nil_iff: "trim_space s = [] \<longleftrightarrow> (\<forall>c \<in> set (runes s). space_chunk c)"
proof -
  let ?cs = "trim_end space_chunk (dropWhile space_chunk (runes s))"
  have "set ?cs \<subseteq> set (runes s)"
    using set_trim_end [of space_chunk] set_dropWhileD [of _ space_chunk "runes s"] by blast
  then have "unrunes ?cs = [] \<longleftrightarrow> ?cs = []"
    using decode_take_nonempty [of _ s] by (cases ?cs) auto
  then show ?thesis
    by (simp add: trim_space_def trim_end_Nil_iff dropWhile_all)
qed

lemma str_fields_Nil_iff: "str_fields s = [] \<longleftrightarrow> trim_space s = []"
  using split_chunks_space [of "runes s" "[]"] decode_take_nonempty [of _ s]
  by (auto simp: str_fields_def trim_space_Nil_iff)

text \<open>A byte below 128 is a chunk of its own: no multi-byte encoding contains one.\<close>

lemma second_ok_high: "second_ok a b \<Longrightarrow> 128 \<le> b"
  by (auto simp: second_ok_def cont_def split: if_splits)

lemma decode_rune_multi:
  assumes "128 \<le> byte c" "d \<in> set (take (snd (decode_rune (c # s))) (c # s))"
  shows "128 \<le> byte d"
proof (cases s)
  case Nil
  with assms show ?thesis by (auto simp: decode_rune.simps(2) Let_def split: if_splits)
next
  case s1: (Cons x s')
  show ?thesis
  proof (cases s')
    case Nil
    with s1 assms show ?thesis
      by (auto simp: decode_rune.simps(2) Let_def cont_def split: if_splits)
  next
    case s2: (Cons y s'')
    show ?thesis
      using s1 s2 assms
      by (cases s'')
        (auto simp: decode_rune.simps(2) Let_def cont_def dest!: second_ok_high split: if_splits)
  qed
qed

lemma decode_rune_high:
  assumes "d \<in> set (take (snd (decode_rune (c # s))) (c # s))" "byte d < 128"
  shows "decode_rune (c # s) = (byte d, 1) \<and> d = c"
proof (cases "byte c < 128")
  case True
  with assms show ?thesis by (simp add: decode_rune.simps(2))
next
  case False
  with assms decode_rune_multi [of c d s] show ?thesis by simp
qed

lemma chunk_ascii:
  "ch \<in> set (runes s) \<Longrightarrow> c \<in> set (snd ch) \<Longrightarrow> byte c < 128 \<Longrightarrow> ch = (byte c, [c])"
proof (induction s rule: runes.induct)
  case (2 x s)
  obtain r w where d: "decode_rune (x # s) = (r, w)" by fastforce
  show ?case
  proof (cases "ch = (r, take w (x # s))")
    case True
    with 2(3,4) have c: "c \<in> set (take (snd (decode_rune (x # s))) (x # s))"
      by (simp add: d)
    have "(r, w) = (byte c, 1)" and "c = x"
      using decode_rune_high [OF c 2(4)] by (auto simp only: d)
    with True show ?thesis by simp
  next
    case False
    with 2 d show ?thesis by (auto simp: runes.simps(2))
  qed
qed simp

lemma split_chunks_no_space:
  "x \<in> set (split_chunks cs w) \<Longrightarrow> c \<in> set x \<Longrightarrow> c \<notin> set w \<Longrightarrow>
   \<exists>ch \<in> set cs. \<not> space_chunk ch \<and> c \<in> set (snd ch)"
proof (induction cs w rule: split_chunks.induct)
  case (2 ch cs w)
  then show ?case
    by (cases "c \<in> set (snd ch)") (auto split: if_splits)
qed (auto split: if_splits)

lemma str_fields_no_space:
  assumes "w \<in> set (str_fields s)" "c \<in> set w" "byte c < 128"
  shows "\<not> space_byte c"
proof -
  obtain ch where "ch \<in> set (runes s)" "\<not> space_chunk ch" "c \<in> set (snd ch)"
    using split_chunks_no_space [of w "runes s" "[]" c] assms by (auto simp: str_fields_def)
  with assms(3) show ?thesis using chunk_ascii [of ch s c] by auto
qed

section \<open>Case mapping\<close>

definition lower_byte :: "char \<Rightarrow> char" where
  "lower_byte c = (if 65 \<le> byte c \<and> byte c \<le> 90 then char_of (byte c + 32) else c)"

definition upper_byte :: "char \<Rightarrow> char" where
  "upper_byte c = (if 97 \<le> byte c \<and> byte c \<le> 122 then char_of (byte c - 32) else c)"

text \<open>
  \<open>lower_ascii\<close> is \<^verbatim>\<open>strings.ToLower\<close> on ASCII. It is also exact in a comparison
  with an ASCII word that has neither \<open>i\<close> nor \<open>k\<close>: the only runes above 127 whose
  lower case is ASCII are U+0130 and U+212A, which map to these two letters.
\<close>

definition lower_ascii :: "string \<Rightarrow> string" where
  "lower_ascii s = map lower_byte s"

lemma lower_ascii_Nil [simp]: "lower_ascii [] = []"
  by (simp add: lower_ascii_def)

section \<open>Single-byte search\<close>

text \<open>\<^verbatim>\<open>strings.ContainsAny\<close> with an ASCII set: some byte of it occurs.\<close>

definition contains_any :: "string \<Rightarrow> string \<Rightarrow> bool" where
  "contains_any s chars \<longleftrightarrow> (\<exists>c \<in> set s. c \<in> set chars)"

text \<open>\<^verbatim>\<open>strings.ReplaceAll\<close> of one byte by a string.\<close>

definition replace_byte :: "char \<Rightarrow> string \<Rightarrow> string \<Rightarrow> string" where
  "replace_byte c t s = concat (map (\<lambda>x. if x = c then t else [x]) s)"

lemma replace_byte_simps [simp]:
  "replace_byte c t [] = []"
  "replace_byte c t (x # s) = (if x = c then t else [x]) @ replace_byte c t s"
  by (simp_all add: replace_byte_def)

lemma replace_byte_append [simp]:
  "replace_byte c t (a @ b) = replace_byte c t a @ replace_byte c t b"
  by (simp add: replace_byte_def)

text \<open>\<^verbatim>\<open>strings.TrimPrefix\<close> and \<^verbatim>\<open>strings.TrimSuffix\<close>.\<close>

definition trim_prefix :: "string \<Rightarrow> string \<Rightarrow> string" where
  "trim_prefix p s = (if prefix p s then drop (length p) s else s)"

definition trim_suffix :: "string \<Rightarrow> string \<Rightarrow> string" where
  "trim_suffix p s = (if suffix p s then take (length s - length p) s else s)"

lemma trim_prefix_append [simp]: "trim_prefix p (p @ s) = s"
  by (simp add: trim_prefix_def)

lemma trim_suffix_append [simp]: "trim_suffix p (s @ p) = s"
  by (simp add: trim_suffix_def suffix_def)

section \<open>A trimmed string is trimmed\<close>

lemma decode_rune_take:
  assumes "decode_rune (c # s) = (r, w)" "w \<le> Suc n"
  shows "decode_rune (c # take n s) = (r, w)"
proof (cases s)
  case (Cons d s')
  show ?thesis
  proof (cases s')
    case Nil
    with Cons assms show ?thesis
      by (cases n) (auto simp: decode_rune.simps(2) Let_def split: if_splits)
  next
    case 2: (Cons e s'')
    show ?thesis
    proof (cases n)
      case 0
      with Cons 2 assms show ?thesis
        by (auto simp: decode_rune.simps(2) Let_def split: if_splits list.splits)
    next
      case 3: (Suc m)
      show ?thesis
      proof (cases m)
        case 0
        with Cons 2 3 assms show ?thesis
          by (auto simp: decode_rune.simps(2) Let_def split: if_splits list.splits)
      next
        case (Suc k)
        with Cons 2 3 assms show ?thesis
          by (cases k; cases s'') (auto simp: decode_rune.simps(2) Let_def split: if_splits)
      qed
    qed
  qed
qed (use assms in simp)

lemma decode_rune_width_le: "s \<noteq> [] \<Longrightarrow> snd (decode_rune s) \<le> length s"
  by (cases s) (auto simp: Let_def decode_rune.simps(2) split: list.splits if_splits)

lemma runes_split: "runes s = pre @ post \<Longrightarrow> runes (unrunes pre) = pre \<and> runes (unrunes post) = post"
proof (induction s arbitrary: pre rule: runes.induct)
  case (2 c s)
  obtain r w where d: "decode_rune (c # s) = (r, w)" by fastforce
  have 0: "0 < w" using decode_rune_width [of "c # s"] d by simp
  have R: "runes (c # s) = (r, take w (c # s)) # runes (drop w (c # s))"
    by (simp add: runes.simps(2) d)
  show ?case
  proof (cases pre)
    case Nil
    then show ?thesis using 2(2) unrunes_runes [of "c # s"] by simp
  next
    case (Cons p pre')
    then have p: "p = (r, take w (c # s))" and t: "runes (drop w (c # s)) = pre' @ post"
      using 2(2) R by auto
    have IH: "runes (unrunes pre') = pre'" "runes (unrunes post) = post"
      using 2(1) [of "(r, w)" r w pre'] d t by simp_all
    have "c # s = take w (c # s) @ unrunes pre' @ unrunes post"
      using arg_cong [OF t, of unrunes] by (metis append_take_drop_id concat_append map_append unrunes_runes)
    then obtain v where v: "take w (c # s) = c # v" "s = v @ unrunes pre' @ unrunes post"
      using 0 that [of "take (w - 1) s"] by (cases w) auto
    have lw: "length (take w (c # s)) = w" using decode_rune_width_le [of "c # s"] d by simp
    then have "w = Suc (length v)" using v(1) by (simp only: list.size)
    then have "decode_rune (c # v @ unrunes pre') = (r, w)"
      using decode_rune_take [of c s r w "length (v @ unrunes pre')"] d v by simp
    then have "runes (c # v @ unrunes pre') = (r, c # v) # runes (unrunes pre')"
      using \<open>w = Suc (length v)\<close> by (simp add: runes.simps(2))
    then show ?thesis using Cons p v IH by simp
  qed
qed simp

lemma runes_trim_space: "runes (trim_space s) = trim_end space_chunk (dropWhile space_chunk (runes s))"
proof -
  let ?d = "dropWhile space_chunk (runes s)"
  have "runes s = takeWhile space_chunk (runes s) @ ?d" by simp
  then have d: "runes (unrunes ?d) = ?d" using runes_split by blast
  have "?d = trim_end space_chunk ?d @ rev (takeWhile space_chunk (rev ?d))"
    unfolding trim_end_def by (metis rev_append rev_rev_ident takeWhile_dropWhile_id)
  then show ?thesis unfolding trim_space_def using runes_split d by metis
qed

lemma trim_space_idem: "trim_space (trim_space s) = trim_space s"
proof -
  have h: "dropWhile P (trim_end P (dropWhile P xs)) = trim_end P (dropWhile P xs)" for P and xs :: "'a list"
  proof (rule dropWhile_id)
    assume ne: "trim_end P (dropWhile P xs) \<noteq> []"
    obtain zs where z: "dropWhile P xs = trim_end P (dropWhile P xs) @ zs"
      unfolding trim_end_def by (metis rev_append rev_rev_ident takeWhile_dropWhile_id)
    with ne have "hd (trim_end P (dropWhile P xs)) = hd (dropWhile P xs)" by (metis hd_append2)
    moreover have "dropWhile P xs \<noteq> []"
    proof
      assume "dropWhile P xs = []"
      with ne show False by (simp add: trim_end_def)
    qed
    ultimately show "\<not> P (hd (trim_end P (dropWhile P xs)))" using hd_dropWhile by metis
  qed
  have t: "trim_end P (trim_end P xs) = trim_end P xs" for P and xs :: "'a list"
    by (simp add: trim_end_def dropWhile_id dropWhile_eq_Cons_conv)
  show ?thesis unfolding trim_space_def [of "trim_space s"] runes_trim_space h t
    by (simp add: trim_space_def)
qed

end
