(* ===== verification/Aip_Errors.thy ===== *)
theory Aip_Errors
  imports Go_Strings
begin

text \<open>
  Errors of the packages \<^verbatim>\<open>pkg/aip\<close> and \<^verbatim>\<open>pkg/aip/jet\<close>: the sentinels of
  \<^verbatim>\<open>errors.go\<close> and \<^verbatim>\<open>jet/filter.go\<close>, and the errors built around them with
  \<^verbatim>\<open>fmt.Errorf\<close> and \<^verbatim>\<open>errors.New\<close>. An \<^verbatim>\<open>Errorf\<close> keeps which call site
  made it (with the values it prints that a caller could look at) and the errors its
  \<^verbatim>\<open>%w\<close> verbs wrap, which is all \<^verbatim>\<open>errors.Is\<close> looks at.
\<close>

datatype sentinel =
    ErrInvalidOrderBy | ErrInvalidPageToken | ErrFilterMismatch
  | errTokenExpired | errTokenWrongResource | ErrTokenOrderChanged
  | ErrUnsupportedFilter

text \<open>The call sites of \<^verbatim>\<open>order.go\<close>.\<close>

datatype order_reason =
    InvalidCharacter rune | EmptyFieldSpec | BadFieldSpec string | DuplicateField string
  | InvalidDirection string | FieldNotAllowed string string "string list"

text \<open>\<^verbatim>\<open>codec.go\<close>, with strconv's two error causes.\<close>

datatype codec_reason = UnexpectedType | NaNCursor | BadSyntax string | OutOfRange string

text \<open>\<^verbatim>\<open>page.go\<close> and the name filter of \<^verbatim>\<open>filter.go\<close>.\<close>

datatype token_reason =
    CursorCountMismatch nat nat | NoCodecRegistered string | EncodeCursorFailed nat
  | MarshalFailed | MalformedBase64 | MalformedEncoding
  | UnsupportedNameFilter string | UnescapedQuote string

text \<open>\<^verbatim>\<open>jet/schema.go\<close>, \<^verbatim>\<open>jet/plan.go\<close> and \<^verbatim>\<open>jet/execute.go\<close>.\<close>

datatype query_reason =
    CursorFieldNotInSchema string | CursorDecodeFailed string | SentinelWrap
  | NoOrderFields | CursorValueLengthMismatch | KeysetField string
  | LiteralNotImplemented | ColumnTypeMismatch | ComparisonNotImplemented
  | QueryFailed | ExtractFailed

text \<open>\<^verbatim>\<open>jet/filter.go\<close>: literals, then the shapes around them.\<close>

datatype literal_reason =
    NotAStringLiteral | NotABoolLiteral | NotATimestamp | TimestampArity nat
  | BadTimestamp string | NotAnIntLiteral | DurationArity nat | BadDuration string | NotANumber

datatype filter_reason =
    FilterTooLong | FilterParse | NotBoolean | NotArity nat | UnsupportedFunction string
  | ComparisonArity string nat | BadLeftHandSide string | UnknownField string "string list"
  | NullComparison | ExpressionType | OperatorNotValid string | Literal literal_reason

datatype reason =
    InOrder order_reason | InCodec codec_reason | InToken token_reason | InQuery query_reason
  | InFilter filter_reason

datatype go_error = Sentinel sentinel | Errorf reason "go_error list"

fun errors_is :: "go_error \<Rightarrow> sentinel \<Rightarrow> bool" where
  "errors_is (Sentinel t) s \<longleftrightarrow> t = s"
| "errors_is (Errorf r es) s \<longleftrightarrow> (\<exists>e \<in> set es. errors_is e s)"

text \<open>\<^verbatim>\<open>wrapAIPError\<close> of \<^verbatim>\<open>jet/plan.go\<close>.\<close>

definition wrapAIPError :: "go_error \<Rightarrow> sentinel \<Rightarrow> go_error" where
  "wrapAIPError err s =
     (if errors_is err s then err else Errorf (InQuery SentinelWrap) [Sentinel s, err])"

lemma errors_is_wrap [simp]: "errors_is (wrapAIPError e s) s"
  by (simp add: wrapAIPError_def)

lemma errors_is_wrap_keeps: "errors_is e t \<Longrightarrow> errors_is (wrapAIPError e s) t"
  by (simp add: wrapAIPError_def)

lemma errors_is_wrap_iff: "errors_is (wrapAIPError e s) t \<longleftrightarrow> t = s \<or> errors_is e t"
  by (auto simp: wrapAIPError_def)

end
