(* ===== verification/Name_Filter.thy ===== *)
theory Name_Filter
  imports Aip_Errors
begin

text \<open>
  \<^verbatim>\<open>pkg/aip/filter.go\<close>: the one-field filter string that services build and in-memory
  repositories parse. Slicing \<^verbatim>\<open>filter[a:b]\<close> with \<open>a > b\<close> is a run-time panic.
\<close>

definition go_slice :: "string \<Rightarrow> nat \<Rightarrow> nat \<Rightarrow> (go_error, string) outcome" where
  "go_slice s a b = (if a \<le> b \<and> b \<le> length s then Ok (drop a (take b s)) else Panic)"

definition name_prefix :: string where
  "name_prefix = ''name:'' @ [CHR 0x22]"

definition MakeNameFilter :: "string \<Rightarrow> string" where
  "MakeNameFilter nameContains =
     (if nameContains = [] \<or> contains_any nameContains [CHR 0x22, CHR 0x5C] then []
      else name_prefix @ nameContains @ [CHR 0x22])"

definition ParseNameFilter :: "string \<Rightarrow> (go_error, string) outcome" where
  "ParseNameFilter flt =
     (if flt = [] then Ok []
      else if \<not> prefix name_prefix flt \<or> \<not> suffix [CHR 0x22] flt
        then Err (Errorf (InToken (UnsupportedNameFilter flt)) [])
      else and_then (go_slice flt (length name_prefix) (length flt - 1)) (\<lambda>body.
           if CHR 0x22 \<in> set body then Err (Errorf (InToken (UnescapedQuote flt)) [])
           else Ok body))"

lemma length_name_prefix [simp]: "length name_prefix = 6"
  by (simp add: name_prefix_def)

lemma name_prefix_not_Nil [simp]: "name_prefix \<noteq> []"
  by (simp add: name_prefix_def)

lemma slice_body: "go_slice (p @ b @ [q]) (length p) (length (p @ b @ [q]) - 1) = Ok b"
  by (simp add: go_slice_def)

lemma ParseNameFilter_wrap:
  "CHR 0x22 \<notin> set b \<Longrightarrow> ParseNameFilter (name_prefix @ b @ [CHR 0x22]) = Ok b"
  using slice_body [of name_prefix b "CHR 0x22"]
  by (simp add: ParseNameFilter_def suffix_def)

text \<open>A filter that starts and ends right is \<open>name:"\<close> itself or holds a body.\<close>

lemma name_filter_shape:
  assumes "prefix name_prefix s" "suffix [CHR 0x22] s"
  shows "s = name_prefix \<or> (\<exists>b. s = name_prefix @ b @ [CHR 0x22])"
proof -
  obtain t where t: "s = name_prefix @ t" using assms(1) by (auto simp: prefix_def)
  show ?thesis
  proof (cases t rule: rev_cases)
    case Nil
    with t show ?thesis by simp
  next
    case (snoc b q)
    with t assms(2) show ?thesis by (auto simp: suffix_def)
  qed
qed

lemma ParseNameFilter_panic: "ParseNameFilter name_prefix = Panic"
  by (simp add: ParseNameFilter_def go_slice_def suffix_def name_prefix_def)

lemma ParseNameFilter_Ok_iff:
  "ParseNameFilter s = Ok b \<longleftrightarrow>
     s = [] \<and> b = [] \<or> s = name_prefix @ b @ [CHR 0x22] \<and> CHR 0x22 \<notin> set b"
proof
  assume ok: "ParseNameFilter s = Ok b"
  show "s = [] \<and> b = [] \<or> s = name_prefix @ b @ [CHR 0x22] \<and> CHR 0x22 \<notin> set b"
  proof (cases "s = []")
    case True
    with ok show ?thesis by (simp add: ParseNameFilter_def)
  next
    case False
    with ok have "prefix name_prefix s" "suffix [CHR 0x22] s"
      by (auto simp: ParseNameFilter_def split: if_splits)
    then consider "s = name_prefix" | b' where "s = name_prefix @ b' @ [CHR 0x22]"
      using name_filter_shape by blast
    then show ?thesis
    proof cases
      case 1
      with ok show ?thesis by (simp add: ParseNameFilter_panic)
    next
      case 2
      with ok slice_body [of name_prefix b' "CHR 0x22"] show ?thesis
        by (auto simp: ParseNameFilter_def suffix_def go_simps split: if_splits)
    qed
  qed
qed (auto simp: ParseNameFilter_wrap, simp add: ParseNameFilter_def)

section \<open>Properties\<close>

text \<open>
  \<open>MakeNameFilter\<close> and \<open>ParseNameFilter\<close> are round-trip inverses: a needle without a
  quote or backslash comes back from the filter built for it, any other needle builds the empty
  filter, and conversely a filter that parses to a non-empty needle without backslash is the one
  \<open>MakeNameFilter\<close> builds.
\<close>

theorem name_filter_roundtrip:
  "ParseNameFilter (MakeNameFilter n)
     = Ok (if contains_any n [CHR 0x22, CHR 0x5C] then [] else n)
   \<and> (ParseNameFilter s = Ok n \<and> n \<noteq> [] \<and> CHR 0x5C \<notin> set n \<longrightarrow> MakeNameFilter n = s)"
proof (intro conjI impI)
  show "ParseNameFilter (MakeNameFilter n)
      = Ok (if contains_any n [CHR 0x22, CHR 0x5C] then [] else n)"
    using ParseNameFilter_wrap [of n]
    by (auto simp: MakeNameFilter_def contains_any_def) (simp_all add: ParseNameFilter_def)
  assume "ParseNameFilter s = Ok n \<and> n \<noteq> [] \<and> CHR 0x5C \<notin> set n"
  then show "MakeNameFilter n = s"
    by (auto simp: ParseNameFilter_Ok_iff MakeNameFilter_def contains_any_def)
qed

theorem name_filter_roundtrip_witness:
  "ParseNameFilter (MakeNameFilter ''openai'') = Ok ''openai''
   \<and> MakeNameFilter ''openai'' = ''name:'' @ [CHR 0x22] @ ''openai'' @ [CHR 0x22]"
proof -
  have c: "\<not> contains_any ''openai'' [CHR 0x22, CHR 0x5C]"
    by (simp add: contains_any_def)
  then have "ParseNameFilter (MakeNameFilter ''openai'') = Ok ''openai''"
    using name_filter_roundtrip [of "''openai''" "[]"] by simp
  with c show ?thesis by (simp add: MakeNameFilter_def name_prefix_def)
qed

text \<open>
  \<open>ParseNameFilter\<close> panics on exactly one input, the six bytes \<open>name:"\<close>, whose only
  quote is taken both for the opening and for the closing one; every other input gives a value
  or an error.
\<close>

theorem ParseNameFilter_panics_iff:
  "ParseNameFilter s = Panic \<longleftrightarrow> s = ''name:'' @ [CHR 0x22]"
proof
  assume p: "ParseNameFilter s = Panic"
  then have "prefix name_prefix s" "suffix [CHR 0x22] s"
    by (auto simp: ParseNameFilter_def split: if_splits)
  then consider "s = name_prefix" | b where "s = name_prefix @ b @ [CHR 0x22]"
    using name_filter_shape by blast
  then show "s = ''name:'' @ [CHR 0x22]"
  proof cases
    case 1
    then show ?thesis by (simp add: name_prefix_def)
  next
    case 2
    with p slice_body [of name_prefix b "CHR 0x22"] show ?thesis
      by (auto simp: ParseNameFilter_def suffix_def split: if_splits)
  qed
qed (use ParseNameFilter_panic in \<open>simp add: name_prefix_def\<close>)

end
