(* ===== verification/Cursor_Codec.thy ===== *)
theory Cursor_Codec
  imports Aip_Errors
begin

text \<open>
  \<^verbatim>\<open>pkg/aip/codec.go\<close>: the codecs that turn a cursor value into a string of the page
  token and back, and what they use of \<^verbatim>\<open>strconv\<close>. A Go value of type \<^verbatim>\<open>any\<close> is a
  \<open>gval\<close>: floats are their IEEE-754 bit patterns, a \<^verbatim>\<open>time.Time\<close> is its instant in
  nanoseconds since the epoch (the codecs use it only after \<^verbatim>\<open>UTC()\<close>). Float and time
  formatting are fields of the parameter \<open>go_std\<close>; what is relied on about them is stated
  where it is used.
\<close>

section \<open>Values\<close>

type_synonym int32 = "32 word"
type_synonym int64 = "64 word"

datatype gval =
    VString string | VBool bool | VInt32 int32 | VInt64 int64
  | VFloat32 "32 word" | VFloat64 "64 word" | VTime int | VOther nat

record go_std =
  widen32 :: "32 word \<Rightarrow> 64 word"
  FormatFloat :: "64 word \<Rightarrow> string"
  ParseFloat :: "string \<Rightarrow> 64 word option"
  FormatRFC3339Nano :: "int \<Rightarrow> string"
  ParseRFC3339Nano :: "string \<Rightarrow> int option"

text \<open>The interface \<^verbatim>\<open>CursorCodec\<close>: its two methods.\<close>

record cursor_codec =
  Encode :: "gval \<Rightarrow> (go_error, string) outcome"
  Decode :: "string \<Rightarrow> (go_error, gval) outcome"

definition codec_error :: "codec_reason \<Rightarrow> go_error" where
  "codec_error r = Errorf (InCodec r) []"

section \<open>strconv\<close>

definition FormatBool :: "bool \<Rightarrow> string" where
  "FormatBool b = (if b then ''true'' else ''false'')"

definition ParseBool :: "string \<Rightarrow> (go_error, bool) outcome" where
  "ParseBool s =
     (if s \<in> {''1'', ''t'', ''T'', ''true'', ''TRUE'', ''True''} then Ok True
      else if s \<in> {''0'', ''f'', ''F'', ''false'', ''FALSE'', ''False''} then Ok False
      else Err (codec_error (BadSyntax s)))"

fun digits :: "nat \<Rightarrow> string" where
  "digits n = (if n < 10 then [char_of (48 + n)] else digits (n div 10) @ [char_of (48 + n mod 10)])"

declare digits.simps [simp del]

text \<open>\<^verbatim>\<open>strconv.FormatInt(i, 10)\<close>.\<close>

definition FormatInt :: "int \<Rightarrow> string" where
  "FormatInt i = (if i < 0 then CHR ''-'' # digits (nat (- i)) else digits (nat i))"

text \<open>
  \<^verbatim>\<open>strconv.ParseInt(s, 10, 64)\<close>: digits are read from the left, a value past
  \<open>2 ^ 64 - 1\<close> is a range error on the spot, and the sign's bound is checked at the end.
\<close>

definition digit_step :: "string \<Rightarrow> int \<Rightarrow> char \<Rightarrow> (go_error, int) outcome" where
  "digit_step orig acc c =
     (if 48 \<le> byte c \<and> byte c \<le> 57
      then (let v = acc * 10 + (byte c - 48)
            in if v \<ge> 2 ^ 64 then Err (codec_error (OutOfRange orig)) else Ok v)
      else Err (codec_error (BadSyntax orig)))"

fun parse_digits :: "string \<Rightarrow> int \<Rightarrow> string \<Rightarrow> (go_error, int) outcome" where
  "parse_digits orig acc [] = Ok acc"
| "parse_digits orig acc (c # s) = and_then (digit_step orig acc c) (\<lambda>v. parse_digits orig v s)"

definition parse_uint :: "string \<Rightarrow> string \<Rightarrow> (go_error, int) outcome" where
  "parse_uint orig s =
     (if s = [] then Err (codec_error (BadSyntax orig)) else parse_digits orig 0 s)"

definition ParseInt64 :: "string \<Rightarrow> (go_error, int) outcome" where
  "ParseInt64 s =
     (case s of
        [] \<Rightarrow> Err (codec_error (BadSyntax s))
      | c # rest \<Rightarrow>
          if c = CHR ''-'' then
            and_then (parse_uint s rest) (\<lambda>v.
            if v > 2 ^ 63 then Err (codec_error (OutOfRange s)) else Ok (- v))
          else
            and_then (parse_uint s (if c = CHR ''+'' then rest else s)) (\<lambda>v.
            if v \<ge> 2 ^ 63 then Err (codec_error (OutOfRange s)) else Ok v))"

section \<open>The codecs\<close>

definition StringCodec :: cursor_codec where
  "StringCodec = \<lparr>
     Encode = (\<lambda>v. case v of VString s \<Rightarrow> Ok s | _ \<Rightarrow> Err (codec_error UnexpectedType)),
     Decode = (\<lambda>s. Ok (VString s))\<rparr>"

definition BoolCodec :: cursor_codec where
  "BoolCodec = \<lparr>
     Encode = (\<lambda>v. case v of VBool b \<Rightarrow> Ok (FormatBool b) | _ \<Rightarrow> Err (codec_error UnexpectedType)),
     Decode = (\<lambda>s. and_then (ParseBool s) (\<lambda>b. Ok (VBool b)))\<rparr>"

definition Int64Codec :: cursor_codec where
  "Int64Codec = \<lparr>
     Encode = (\<lambda>v. case v of
         VInt64 i \<Rightarrow> Ok (FormatInt (sint i))
       | VInt32 i \<Rightarrow> Ok (FormatInt (sint (scast i :: int64)))
       | _ \<Rightarrow> Err (codec_error UnexpectedType)),
     Decode = (\<lambda>s. and_then (ParseInt64 s) (\<lambda>i. Ok (VInt64 (word_of_int i))))\<rparr>"

text \<open>\<^verbatim>\<open>math.IsNaN\<close> on a bit pattern: exponent all ones, mantissa not zero.\<close>

definition is_nan :: "64 word \<Rightarrow> bool" where
  "is_nan f \<longleftrightarrow>
     (let e = uint f div 2 ^ 52 mod 2 ^ 11; m = uint f mod 2 ^ 52 in e = 2047 \<and> m \<noteq> 0)"

definition Float64Codec :: "go_std \<Rightarrow> cursor_codec" where
  "Float64Codec std = \<lparr>
     Encode = (\<lambda>v. and_then
         (case v of VFloat64 x \<Rightarrow> Ok x | VFloat32 x \<Rightarrow> Ok (widen32 std x)
          | _ \<Rightarrow> Err (codec_error UnexpectedType))
         (\<lambda>f. if is_nan f then Err (codec_error NaNCursor) else Ok (FormatFloat std f))),
     Decode = (\<lambda>s. case ParseFloat std s of
         Some f \<Rightarrow> Ok (VFloat64 f) | None \<Rightarrow> Err (codec_error (BadSyntax s)))\<rparr>"

definition TimestampCodec :: "go_std \<Rightarrow> cursor_codec" where
  "TimestampCodec std = \<lparr>
     Encode = (\<lambda>v. case v of
         VTime t \<Rightarrow> Ok (FormatRFC3339Nano std t) | _ \<Rightarrow> Err (codec_error UnexpectedType)),
     Decode = (\<lambda>s. case ParseRFC3339Nano std s of
         Some t \<Rightarrow> Ok (VTime t) | None \<Rightarrow> Err (codec_error (BadSyntax s)))\<rparr>"

section \<open>The contract of a codec\<close>

text \<open>
  What the page token relies on: exactly the supported values encode, and decoding gives
  back the value up to a canonical type (\<open>int32\<close> comes back as \<open>int64\<close>, \<open>float32\<close> as
  \<open>float64\<close>), which encodes to the same string.
\<close>

locale lawful_codec =
  fixes c :: cursor_codec
    and supp :: "gval \<Rightarrow> bool"
    and canon :: "gval \<Rightarrow> gval"
  assumes enc_supported: "supp v \<Longrightarrow> \<exists>s. Encode c v = Ok s"
    and enc_rejected: "\<not> supp v \<Longrightarrow> \<exists>e. Encode c v = Err e"
    and dec_enc: "Encode c v = Ok s \<Longrightarrow> Decode c s = Ok (canon v)"
    and enc_canon: "supp v \<Longrightarrow> Encode c (canon v) = Encode c v"
    and dec_not_panic: "Decode c s \<noteq> Panic"
begin

lemma enc_Ok_iff: "(\<exists>s. Encode c v = Ok s) \<longleftrightarrow> supp v"
  using enc_supported enc_rejected by fastforce

lemma enc_not_panic: "Encode c v \<noteq> Panic"
  using enc_supported enc_rejected by (metis outcome.distinct(3) outcome.distinct(5))

lemma supp_canon: "supp v \<Longrightarrow> supp (canon v)"
  using enc_canon enc_Ok_iff by metis

lemma canon_idem: "supp v \<Longrightarrow> canon (canon v) = canon v"
  using enc_canon dec_enc enc_supported by (metis outcome.inject(1))

lemma enc_inj: "Encode c v = Ok s \<Longrightarrow> Encode c w = Ok s \<Longrightarrow> canon v = canon w"
  using dec_enc by (metis outcome.inject(1))

lemma reencode: "Encode c v = Ok s \<Longrightarrow> Decode c s = Ok w \<Longrightarrow> Encode c w = Ok s"
  using dec_enc enc_canon enc_Ok_iff by (metis outcome.inject(1))

end

section \<open>Decimal integers round-trip\<close>

lemma parse_digits_snoc:
  "parse_digits orig acc (s @ [c]) = and_then (parse_digits orig acc s) (\<lambda>v. digit_step orig v c)"
  by (induction s arbitrary: acc) auto

lemma byte_digit: "n < 10 \<Longrightarrow> byte (char_of (48 + n :: nat)) = 48 + int n"
  by (simp only: byte_char_of_nat) simp

lemma digit_step_ok:
  "d < 10 \<Longrightarrow> 10 * int m + int d < 2 ^ 64 \<Longrightarrow>
   digit_step orig (int m) (char_of (48 + d :: nat)) = Ok (int m * 10 + int d)"
  by (simp add: digit_step_def byte_digit)

lemma parse_digits_digits: "int n < 2 ^ 64 \<Longrightarrow> parse_digits orig 0 (digits n) = Ok (int n)"
proof (induction n rule: digits.induct)
  case (1 n)
  show ?case
  proof (cases "n < 10")
    case True
    then show ?thesis
      using digit_step_ok [of n 0 orig] by (simp add: digits.simps [of n])
  next
    case False
    have e: "int (n div 10) * 10 + int (n mod 10) = int n" by presburger
    with 1 False have "parse_digits orig 0 (digits (n div 10)) = Ok (int (n div 10))" by simp
    moreover have "digit_step orig (int (n div 10)) (char_of (48 + n mod 10)) = Ok (int n)"
      using digit_step_ok [of "n mod 10" "n div 10" orig] e 1(2) by (simp add: mult.commute)
    ultimately show ?thesis
      using False by (simp add: digits.simps [of n] parse_digits_snoc)
  qed
qed

lemma digits_not_Nil [simp]: "digits n \<noteq> []"
  by (subst digits.simps) simp

lemma digits_range: "c \<in> set (digits n) \<Longrightarrow> 48 \<le> byte c \<and> byte c \<le> 57"
proof (induction n rule: digits.induct)
  case (1 n)
  have "n mod 10 < 10" by simp
  with 1 byte_digit [of "n mod 10"] byte_digit [of n] show ?case
    by (subst (asm) digits.simps) (auto split: if_splits)
qed

lemma digits_head: "\<exists>c s. digits n = c # s \<and> c \<noteq> CHR ''-'' \<and> c \<noteq> CHR ''+''"
proof (cases "digits n")
  case (Cons c s)
  then have "48 \<le> byte c" using digits_range [of c n] by simp
  with Cons show ?thesis by auto
qed simp

lemma ParseInt64_FormatInt:
  assumes "- (2 ^ 63) \<le> i" "i < 2 ^ 63"
  shows "ParseInt64 (FormatInt i) = Ok i"
proof (cases "i < 0")
  case True
  with assms show ?thesis
    by (simp add: FormatInt_def ParseInt64_def parse_uint_def parse_digits_digits)
next
  case False
  obtain c s where "digits (nat i) = c # s" "c \<noteq> CHR ''-''" "c \<noteq> CHR ''+''"
    using digits_head by blast
  moreover from this have "parse_uint (c # s) (c # s) = Ok i"
    using parse_digits_digits [of "nat i" "c # s"] assms False by (simp add: parse_uint_def)
  ultimately show ?thesis
    using False assms by (simp add: FormatInt_def ParseInt64_def)
qed

lemma ParseInt64_range:
  "ParseInt64 s = Ok i \<Longrightarrow> - (2 ^ 63) \<le> i \<and> i < 2 ^ 63"
proof -
  have nonneg: "parse_digits orig acc t = Ok v \<Longrightarrow> 0 \<le> acc \<Longrightarrow> 0 \<le> v" for orig acc t v
    by (induction t arbitrary: acc)
      (auto simp: go_simps digit_step_def Let_def split: if_splits)
  then have u: "parse_uint orig t = Ok v \<Longrightarrow> 0 \<le> v" for orig t v
    by (fastforce simp: parse_uint_def split: if_splits)
  assume "ParseInt64 s = Ok i"
  then show ?thesis
    by (auto simp: ParseInt64_def go_simps split: list.splits if_splits dest!: u)
qed

lemma sint64_bounds: "- (2 ^ 63) \<le> sint (w :: int64)" "sint (w :: int64) < 2 ^ 63"
  using sint_greater_eq [of w] sint_less [of w] by simp_all

section \<open>The codecs are lawful\<close>

definition supp_string :: "gval \<Rightarrow> bool" where
  "supp_string v \<longleftrightarrow> (case v of VString _ \<Rightarrow> True | _ \<Rightarrow> False)"

definition supp_bool :: "gval \<Rightarrow> bool" where
  "supp_bool v \<longleftrightarrow> (case v of VBool _ \<Rightarrow> True | _ \<Rightarrow> False)"

definition supp_int :: "gval \<Rightarrow> bool" where
  "supp_int v \<longleftrightarrow> (case v of VInt32 _ \<Rightarrow> True | VInt64 _ \<Rightarrow> True | _ \<Rightarrow> False)"

definition canon_int :: "gval \<Rightarrow> gval" where
  "canon_int v = (case v of VInt32 i \<Rightarrow> VInt64 (scast i) | _ \<Rightarrow> v)"

definition supp_float :: "go_std \<Rightarrow> gval \<Rightarrow> bool" where
  "supp_float std v \<longleftrightarrow> (case v of VFloat64 f \<Rightarrow> \<not> is_nan f
     | VFloat32 f \<Rightarrow> \<not> is_nan (widen32 std f) | _ \<Rightarrow> False)"

definition canon_float :: "go_std \<Rightarrow> gval \<Rightarrow> gval" where
  "canon_float std v = (case v of VFloat32 f \<Rightarrow> VFloat64 (widen32 std f) | _ \<Rightarrow> v)"

definition supp_time :: "gval \<Rightarrow> bool" where
  "supp_time v \<longleftrightarrow> (case v of VTime _ \<Rightarrow> True | _ \<Rightarrow> False)"

interpretation string_codec: lawful_codec StringCodec supp_string "\<lambda>v. v"
  by unfold_locales (auto simp: StringCodec_def supp_string_def split: gval.splits)

interpretation bool_codec: lawful_codec BoolCodec supp_bool "\<lambda>v. v"
  by unfold_locales
    (auto simp: BoolCodec_def supp_bool_def FormatBool_def ParseBool_def go_simps
      split: gval.splits if_splits)

interpretation int64_codec: lawful_codec Int64Codec supp_int canon_int
proof
  show "Encode Int64Codec v = Ok s \<Longrightarrow> Decode Int64Codec s = Ok (canon_int v)" for v s
    using sint64_bounds
    by (auto simp: Int64Codec_def canon_int_def ParseInt64_FormatInt split: gval.splits)
  show "Decode Int64Codec s \<noteq> Panic" for s
  proof -
    have "parse_digits orig acc t \<noteq> Panic" for orig acc t
      by (induction t arbitrary: acc) (auto simp: go_simps digit_step_def Let_def)
    then show ?thesis
      by (auto simp: Int64Codec_def ParseInt64_def parse_uint_def go_simps
          split: list.splits if_splits)
  qed
qed (auto simp: Int64Codec_def supp_int_def canon_int_def split: gval.splits)

text \<open>Float and time codecs, given the documented round trip of Go's formatting.\<close>

lemma float_codec_lawful:
  assumes "\<And>f. \<not> is_nan f \<Longrightarrow> ParseFloat std (FormatFloat std f) = Some f"
  shows "lawful_codec (Float64Codec std) (supp_float std) (canon_float std)"
  using assms
  by unfold_locales
    (auto simp: Float64Codec_def supp_float_def canon_float_def go_simps
      split: gval.splits if_splits option.splits)

lemma timestamp_codec_lawful:
  assumes "\<And>t. ParseRFC3339Nano std (FormatRFC3339Nano std t) = Some t"
  shows "lawful_codec (TimestampCodec std) supp_time (\<lambda>v. v)"
  using assms
  by unfold_locales
    (auto simp: TimestampCodec_def supp_time_def split: gval.splits option.splits)

section \<open>Properties\<close>

text \<open>
  an integer cursor survives the page token: what \<open>Int64Codec\<close> encodes for an
  \<open>int32\<close> or \<open>int64\<close> value, it decodes to the \<open>int64\<close> of the same signed value, and it
  encodes every such value and nothing else.
\<close>

theorem Int64Codec_roundtrip:
  "(\<exists>s. Encode Int64Codec v = Ok s) = supp_int v
   \<and> (Encode Int64Codec v = Ok s \<longrightarrow> Decode Int64Codec s = Ok (canon_int v))"
  using int64_codec.enc_Ok_iff int64_codec.dec_enc by blast

theorem Int64Codec_roundtrip_witness:
  "Encode Int64Codec (VInt32 (- 7)) = Ok ''-7'' \<and> Decode Int64Codec ''-7'' = Ok (VInt64 (- 7))"
proof -
  have e: "Encode Int64Codec (VInt32 (- 7)) = Ok ''-7''"
    by (simp add: Int64Codec_def FormatInt_def digits.simps) code_simp
  with Int64Codec_roundtrip [of "VInt32 (- 7)" "''-7''"] show ?thesis
    by (simp add: canon_int_def)
qed

text \<open>
  \<open>Int64Codec\<close> never decodes outside the 64-bit range: a token string whose number does
  not fit \<open>int64\<close>, or is not a decimal integer, is an error, and the value it does return
  is the number written.
\<close>

theorem Int64Codec_decode_range:
  assumes "Decode Int64Codec s = Ok v"
  shows "\<exists>i. ParseInt64 s = Ok i \<and> v = VInt64 (word_of_int i) \<and> sint (word_of_int i :: int64) = i"
proof -
  obtain i where i: "ParseInt64 s = Ok i" "v = VInt64 (word_of_int i)"
    using assms by (auto simp: Int64Codec_def go_simps)
  then have "sint (word_of_int i :: int64) = i"
    using ParseInt64_range [of s i] by (simp add: sint_sbintrunc' signed_take_bit_int_eq_self)
  with i show ?thesis by blast
qed

theorem Int64Codec_decode_range_witness:
  "\<exists>i. ParseInt64 ''12'' = Ok i \<and> VInt64 12 = VInt64 (word_of_int i)
       \<and> sint (word_of_int i :: int64) = i"
proof -
  have "Decode Int64Codec ''12'' = Ok (VInt64 12)"
    by (simp add: Int64Codec_def ParseInt64_def parse_uint_def digit_step_def)
  then show ?thesis by (rule Int64Codec_decode_range)
qed

end
