(* ===== verification/Sql_Exp.thy ===== *)
theory Sql_Exp
  imports Cursor_Codec
begin

text \<open>
  The go-jet expressions that \<^verbatim>\<open>pkg/aip/jet\<close> builds, as syntax trees, and their meaning
  in SQL's three-valued logic. An expression the schema author registers carries the go-jet
  interface it satisfies (what the Go code's type switches and assertions look at) and the text
  it renders to. go-jet itself is not modelled: a constructor stands for each call.
\<close>

datatype expr_type =
  TyStringArray | TyString | TyBool | TyInteger | TyFloat | TyTimestampz | TyTimestamp | TyOther

record sql_expr =
  ExprType :: expr_type
  IsColumn :: bool
  Ident :: string

datatype sql_lit =
  LString string | LBool bool | LInt64 int64 | LFloat "64 word" | LTimestampz int | LTimestamp int

datatype cmp_op = EQ | NOT_EQ | LT | LT_EQ | GT | GT_EQ

text \<open>\<open>NilExp\<close> is the nil interface value; \<open>RawCond\<close> a condition the caller wrote.\<close>

datatype bexp =
    NilExp
  | RawCond string
  | Cmp cmp_op sql_expr sql_lit
  | RowCmp cmp_op "sql_expr option list" "sql_lit list"
  | LowerLike sql_expr string
  | EqAny string sql_expr
  | IsNull sql_expr
  | IsNotNull sql_expr
  | NotE bexp
  | AndE bexp bexp
  | OrE bexp bexp
  | AndL "bexp list"
  | OrL "bexp list"

section \<open>Three-valued logic\<close>

type_synonym truth = "bool option"

fun not3 :: "truth \<Rightarrow> truth" where
  "not3 None = None"
| "not3 (Some b) = Some (\<not> b)"

fun and3 :: "truth \<Rightarrow> truth \<Rightarrow> truth" where
  "and3 (Some False) _ = Some False"
| "and3 _ (Some False) = Some False"
| "and3 (Some True) (Some True) = Some True"
| "and3 _ _ = None"

definition or3 :: "truth \<Rightarrow> truth \<Rightarrow> truth" where
  "or3 a b = not3 (and3 (not3 a) (not3 b))"

lemma and3_True_iff [simp]: "and3 a b = Some True \<longleftrightarrow> a = Some True \<and> b = Some True"
  by (cases "(a, b)" rule: and3.cases) auto

lemma and3_False_iff [simp]: "and3 a b = Some False \<longleftrightarrow> a = Some False \<or> b = Some False"
  by (cases "(a, b)" rule: and3.cases) auto

lemma not3_iff [simp]: "not3 a = Some b \<longleftrightarrow> a = Some (\<not> b)"
  by (cases a) auto

lemma or3_True_iff [simp]: "or3 a b = Some True \<longleftrightarrow> a = Some True \<or> b = Some True"
  by (simp add: or3_def)

lemma or3_False_iff [simp]: "or3 a b = Some False \<longleftrightarrow> a = Some False \<and> b = Some False"
  by (simp add: or3_def)

section \<open>Meaning\<close>

text \<open>
  A database row: the value of each scalar expression (\<open>None\<close> is NULL), its text, the elements
  of an array column and the truth of raw conditions. The values of all comparable types form
  one linear order, the collation's on text.
\<close>

record 'v sql_row =
  Cell :: "sql_expr \<Rightarrow> 'v option"
  LowerText :: "sql_expr \<Rightarrow> string option"
  Elems :: "sql_expr \<Rightarrow> string option list option"
  Raw :: "string \<Rightarrow> truth"

fun cmp_holds :: "cmp_op \<Rightarrow> 'v::linorder \<Rightarrow> 'v \<Rightarrow> bool" where
  "cmp_holds EQ a b \<longleftrightarrow> a = b"
| "cmp_holds NOT_EQ a b \<longleftrightarrow> a \<noteq> b"
| "cmp_holds LT a b \<longleftrightarrow> a < b"
| "cmp_holds LT_EQ a b \<longleftrightarrow> a \<le> b"
| "cmp_holds GT a b \<longleftrightarrow> a > b"
| "cmp_holds GT_EQ a b \<longleftrightarrow> a \<ge> b"

text \<open>
  Row comparison with an ordering operator as PostgreSQL does it: the first pair that is unequal
  or has a NULL decides.
\<close>

fun row_cmp :: "cmp_op \<Rightarrow> 'v::linorder option list \<Rightarrow> 'v list \<Rightarrow> truth" where
  "row_cmp op (Some a # as) (b # bs) =
     (if a = b then row_cmp op as bs else Some (cmp_holds op a b))"
| "row_cmp op (None # as) (b # bs) = None"
| "row_cmp op _ _ = Some (op \<in> {EQ, LT_EQ, GT_EQ})"

text \<open>\<open>LIKE\<close>: \<open>%\<close> any string, \<open>_\<close> one character, backslash escapes the next byte.\<close>

function like :: "string \<Rightarrow> string \<Rightarrow> bool" where
  "like [] t \<longleftrightarrow> t = []"
| "like (c # p) t \<longleftrightarrow>
     (if c = CHR ''%'' then like p t \<or> (case t of [] \<Rightarrow> False | _ # t' \<Rightarrow> like (c # p) t')
      else if c = CHR ''_'' then t \<noteq> [] \<and> like p (drop (snd (decode_rune t)) t)
      else if c = CHR 0x5C \<and> p \<noteq> []
        then (case t of [] \<Rightarrow> False | x # t' \<Rightarrow> x = hd p \<and> like (tl p) t')
      else (case t of [] \<Rightarrow> False | x # t' \<Rightarrow> x = c \<and> like p t'))"
  by pat_completeness auto
termination by (relation "measure (\<lambda>(p, t). length p + length t)") auto

declare like.simps(2) [simp del]

definition any_eq :: "string \<Rightarrow> string option list \<Rightarrow> truth" where
  "any_eq s xs =
     (if Some s \<in> set xs then Some True else if None \<in> set xs then None else Some False)"

fun eval3 :: "(sql_lit \<Rightarrow> 'v::linorder) \<Rightarrow> 'v sql_row \<Rightarrow> bexp \<Rightarrow> truth" where
  "eval3 lit row NilExp = None"
| "eval3 lit row (RawCond s) = Raw row s"
| "eval3 lit row (Cmp op e l) = map_option (\<lambda>v. cmp_holds op v (lit l)) (Cell row e)"
| "eval3 lit row (RowCmp op es ls) =
     row_cmp op (map (\<lambda>e. Option.bind e (Cell row)) es) (map lit ls)"
| "eval3 lit row (LowerLike e p) = map_option (like p) (LowerText row e)"
| "eval3 lit row (EqAny s e) = Option.bind (Elems row e) (any_eq s)"
| "eval3 lit row (IsNull e) =
     Some (if ExprType e = TyStringArray then Elems row e = None else Cell row e = None)"
| "eval3 lit row (IsNotNull e) =
     Some (\<not> (if ExprType e = TyStringArray then Elems row e = None else Cell row e = None))"
| "eval3 lit row (NotE b) = not3 (eval3 lit row b)"
| "eval3 lit row (AndE a b) = and3 (eval3 lit row a) (eval3 lit row b)"
| "eval3 lit row (OrE a b) = or3 (eval3 lit row a) (eval3 lit row b)"
| "eval3 lit row (AndL bs) = fold and3 (map (eval3 lit row) bs) (Some True)"
| "eval3 lit row (OrL bs) = fold or3 (map (eval3 lit row) bs) (Some False)"

text \<open>A \<^verbatim>\<open>WHERE\<close> clause keeps a row when the condition is true.\<close>

definition selects :: "(sql_lit \<Rightarrow> 'v::linorder) \<Rightarrow> 'v sql_row \<Rightarrow> bexp \<Rightarrow> bool" where
  "selects lit row b \<longleftrightarrow> b = NilExp \<or> eval3 lit row b = Some True"

lemma fold_and3_True:
  "fold and3 ts a = Some True \<longleftrightarrow> a = Some True \<and> (\<forall>t \<in> set ts. t = Some True)"
  by (induction ts arbitrary: a) auto

lemma fold_or3_True:
  "fold or3 ts a = Some True \<longleftrightarrow> a = Some True \<or> (\<exists>t \<in> set ts. t = Some True)"
  by (induction ts arbitrary: a) auto

lemma eval3_AndL [simp]:
  "eval3 lit row (AndL bs) = Some True \<longleftrightarrow> (\<forall>b \<in> set bs. eval3 lit row b = Some True)"
  by (auto simp: fold_and3_True)

lemma eval3_OrL [simp]:
  "eval3 lit row (OrL bs) = Some True \<longleftrightarrow> (\<exists>b \<in> set bs. eval3 lit row b = Some True)"
  by (auto simp: fold_or3_True) (metis image_eqI)

declare eval3.simps(12,13) [simp del]

end
