(* ===== verification/Order_By.thy ===== *)
theory Order_By
  imports Aip_Errors
begin

text \<open>
  \<^verbatim>\<open>pkg/aip/order.go\<close>: the AIP-132 \<open>order_by\<close> syntax. The non-ASCII part of
  \<^verbatim>\<open>unicode.IsLetter\<close> and \<^verbatim>\<open>unicode.IsNumber\<close> is a table of the Go
  distribution; it is the parameter \<open>uni\<close> of the definitions that use it.
\<close>

section \<open>Data\<close>

datatype sort_direction = Asc | Desc

lemma not_Asc [simp]: "d \<noteq> Asc \<longleftrightarrow> d = Desc"
  by (cases d) auto

record order_field =
  Path :: string
  Direction :: sort_direction

record order_by =
  Fields :: "order_field list"

section \<open>ParseOrderBy\<close>

definition is_letter_or_number :: "(rune \<Rightarrow> bool) \<Rightarrow> rune \<Rightarrow> bool" where
  "is_letter_or_number uni r \<longleftrightarrow>
     (if r < 128 then (65 \<le> r \<and> r \<le> 90) \<or> (97 \<le> r \<and> r \<le> 122) \<or> (48 \<le> r \<and> r \<le> 57)
      else uni r)"

definition order_rune :: "(rune \<Rightarrow> bool) \<Rightarrow> rune \<Rightarrow> bool" where
  "order_rune uni r \<longleftrightarrow> is_letter_or_number uni r \<or> r \<in> {95, 32, 44, 46}"

definition invalid_order_by :: "order_reason \<Rightarrow> go_error" where
  "invalid_order_by r = Errorf (InOrder r) [Sentinel ErrInvalidOrderBy]"

fun parse_direction :: "string \<Rightarrow> string list \<Rightarrow> (go_error, sort_direction) outcome" where
  "parse_direction spec [] = Ok Asc"
| "parse_direction spec [d] =
     (if lower_ascii d = ''asc'' then Ok Asc
      else if lower_ascii d = ''desc'' then Ok Desc
      else Err (invalid_order_by (InvalidDirection d)))"
| "parse_direction spec _ = Err (invalid_order_by (BadFieldSpec spec))"

fun parse_specs :: "string list \<Rightarrow> string set \<Rightarrow> (go_error, order_field list) outcome" where
  "parse_specs [] seen = Ok []"
| "parse_specs (spec0 # specs) seen =
     (let spec = trim_space spec0 in
      if spec = [] then Err (invalid_order_by EmptyFieldSpec)
      else case str_fields spec of
        [] \<Rightarrow> Err (invalid_order_by (BadFieldSpec spec))
      | fieldPath # rest \<Rightarrow>
          if fieldPath \<in> seen then Err (invalid_order_by (DuplicateField fieldPath))
          else and_then (parse_direction spec rest) (\<lambda>dir.
               and_then (parse_specs specs (insert fieldPath seen)) (\<lambda>fs.
               Ok (\<lparr>Path = fieldPath, Direction = dir\<rparr> # fs))))"

definition ParseOrderBy :: "(rune \<Rightarrow> bool) \<Rightarrow> string \<Rightarrow> (go_error, order_by) outcome" where
  "ParseOrderBy uni orderByStr =
     (let s = trim_space orderByStr in
      if s = [] then Ok \<lparr>Fields = []\<rparr>
      else case filter (\<lambda>r. \<not> order_rune uni r) (map fst (runes s)) of
        r # _ \<Rightarrow> Err (invalid_order_by (InvalidCharacter r))
      | [] \<Rightarrow> and_then (parse_specs (split_on CHR '','' s) {}) (\<lambda>fs. Ok \<lparr>Fields = fs\<rparr>))"

section \<open>The other operations\<close>

fun AppendUniqueFields :: "order_field list \<Rightarrow> order_field list \<Rightarrow> order_field list" where
  "AppendUniqueFields dst [] = dst"
| "AppendUniqueFields dst (a # add) =
     AppendUniqueFields (if \<exists>d \<in> set dst. Path d = Path a then dst else dst @ [a]) add"

definition NewFieldError :: "string \<Rightarrow> string \<Rightarrow> string list \<Rightarrow> go_error" where
  "NewFieldError ctxt path allowed = invalid_order_by (FieldNotAllowed ctxt path allowed)"

definition IsUniformDirection :: "order_by \<Rightarrow> bool" where
  "IsUniformDirection order =
     (if length (Fields order) \<le> 1 then True
      else (let dir = Direction (Fields order ! 0)
            in \<forall>f \<in> set (drop 1 (Fields order)). Direction f = dir))"

section \<open>Facts\<close>

lemma errors_is_invalid_order_by [simp]:
  "errors_is (invalid_order_by r) s \<longleftrightarrow> s = ErrInvalidOrderBy"
  by (auto simp: invalid_order_by_def)

lemma parse_direction_Err:
  "parse_direction spec ws = Err e \<Longrightarrow> \<exists>r. e = invalid_order_by r"
  by (cases "(spec, ws)" rule: parse_direction.cases) (auto split: if_splits)

lemma parse_direction_not_Panic [simp]: "parse_direction spec ws \<noteq> Panic"
  by (cases "(spec, ws)" rule: parse_direction.cases) auto

lemma parse_specs_Err:
  "parse_specs specs seen = Err e \<Longrightarrow> \<exists>r. e = invalid_order_by r"
  by (induction specs seen rule: parse_specs.induct)
    (auto simp: go_simps Let_def dest: parse_direction_Err split: if_splits list.splits)

lemma parse_specs_not_Panic [simp]: "parse_specs specs seen \<noteq> Panic"
  by (induction specs seen rule: parse_specs.induct)
    (auto simp: go_simps Let_def split: list.splits)

definition good_path :: "string \<Rightarrow> bool" where
  "good_path p \<longleftrightarrow> p \<noteq> [] \<and> CHR '','' \<notin> set p \<and> CHR '' '' \<notin> set p"

lemma parse_specs_Ok:
  "parse_specs specs seen = Ok fs \<Longrightarrow> \<forall>w \<in> set specs. CHR '','' \<notin> set w \<Longrightarrow>
   distinct (map Path fs) \<and> seen \<inter> set (map Path fs) = {} \<and> length fs = length specs
   \<and> (\<forall>f \<in> set fs. good_path (Path f))"
proof (induction specs seen arbitrary: fs rule: parse_specs.induct)
  case (2 spec0 specs seen)
  from 2(2) obtain p rest dir fs' where
      f: "str_fields (trim_space spec0) = p # rest" "p \<notin> seen"
        "parse_specs specs (insert p seen) = Ok fs'"
        "fs = \<lparr>Path = p, Direction = dir\<rparr> # fs'"
    by (auto simp: go_simps Let_def split: if_splits list.splits)
  have "good_path p"
    using str_fields_nonempty [of "trim_space spec0"] str_fields_set [of p "trim_space spec0"]
      set_trim_space [of spec0] str_fields_no_space [of p "trim_space spec0" "CHR '' ''"] 2(3) f(1)
    by (auto simp: good_path_def)
  with f 2 show ?case
    by (auto simp: Let_def split: if_splits)
qed auto

lemma ParseOrderBy_not_Panic [simp]: "ParseOrderBy uni s \<noteq> Panic"
  by (simp add: ParseOrderBy_def Let_def go_simps split: list.splits)

lemma ParseOrderBy_Err: "ParseOrderBy uni s = Err e \<Longrightarrow> \<exists>r. e = invalid_order_by r"
  by (auto simp: ParseOrderBy_def Let_def go_simps dest: parse_specs_Err
      split: list.splits if_splits)

lemma ParseOrderBy_Ok:
  assumes "ParseOrderBy uni s = Ok ob"
  shows "distinct (map Path (Fields ob))" "\<forall>f \<in> set (Fields ob). good_path (Path f)"
    "Fields ob = [] \<longleftrightarrow> trim_space s = []"
    "trim_space s \<noteq> [] \<Longrightarrow>
       length (Fields ob) = length (split_on CHR '','' (trim_space s))"
proof -
  let ?ws = "split_on CHR '','' (trim_space s)"
  have free: "\<forall>w \<in> set ?ws. CHR '','' \<notin> set w" using split_on_free by blast
  have "trim_space s = [] \<and> Fields ob = []
      \<or> trim_space s \<noteq> [] \<and> parse_specs ?ws {} = Ok (Fields ob)"
    using assms by (auto simp: ParseOrderBy_def Let_def go_simps split: if_splits list.splits)
  then show "distinct (map Path (Fields ob))" "\<forall>f \<in> set (Fields ob). good_path (Path f)"
    "Fields ob = [] \<longleftrightarrow> trim_space s = []"
    "trim_space s \<noteq> [] \<Longrightarrow> length (Fields ob) = length ?ws"
    using parse_specs_Ok [OF _ free, of "{}" "Fields ob"] by auto
qed

subsection \<open>AppendUniqueFields\<close>

lemma AppendUniqueFields_prefix: "prefix dst (AppendUniqueFields dst add)"
proof (induction dst add rule: AppendUniqueFields.induct)
  case (2 dst a add)
  show ?case
  proof (cases "\<exists>d \<in> set dst. Path d = Path a")
    case True
    with 2 show ?thesis by simp
  next
    case False
    with 2 have "prefix (dst @ [a]) (AppendUniqueFields (dst @ [a]) add)" by simp
    with False show ?thesis by (auto dest: append_prefixD)
  qed
qed simp

lemma AppendUniqueFields_paths:
  "Path ` set (AppendUniqueFields dst add) = Path ` set dst \<union> Path ` set add"
  by (induction dst add rule: AppendUniqueFields.induct) (auto, metis imageI)

lemma AppendUniqueFields_distinct:
  "distinct (map Path dst) \<Longrightarrow> distinct (map Path (AppendUniqueFields dst add))"
proof (induction dst add rule: AppendUniqueFields.induct)
  case (2 dst a add)
  show ?case
  proof (cases "\<exists>d \<in> set dst. Path d = Path a")
    case True
    with 2 show ?thesis by simp
  next
    case False
    then have "Path a \<notin> Path ` set dst" by (metis imageE)
    with 2 False show ?thesis by simp
  qed
qed simp

lemma AppendUniqueFields_subset: "set (AppendUniqueFields dst add) \<subseteq> set dst \<union> set add"
  by (induction dst add rule: AppendUniqueFields.induct) (auto split: if_splits)

lemma AppendUniqueFields_nonempty: "dst \<noteq> [] \<or> add \<noteq> [] \<Longrightarrow> AppendUniqueFields dst add \<noteq> []"
  using AppendUniqueFields_paths [of dst add] by (metis empty_is_image set_empty sup_eq_bot_iff)

lemma IsUniformDirection_iff:
  "IsUniformDirection ob \<longleftrightarrow> (\<exists>d. \<forall>f \<in> set (Fields ob). Direction f = d)"
proof (cases "Fields ob")
  case Nil
  then show ?thesis by (simp add: IsUniformDirection_def)
next
  case (Cons f fs)
  then show ?thesis
    by (cases fs; simp add: IsUniformDirection_def Let_def; metis)
qed

subsection \<open>Printing a directive\<close>

text \<open>The canonical text of an ordering, in the syntax the doc comment lists.\<close>

definition show_order_field :: "order_field \<Rightarrow> string" where
  "show_order_field f = Path f @ (case Direction f of Asc \<Rightarrow> '' asc'' | Desc \<Rightarrow> '' desc'')"

definition show_order_by :: "order_by \<Rightarrow> string" where
  "show_order_by ob = join '','' (map show_order_field (Fields ob))"

definition plain_path :: "string \<Rightarrow> bool" where
  "plain_path p \<longleftrightarrow>
     p \<noteq> [] \<and> (\<forall>c \<in> set p. let r = byte c in
        (65 \<le> r \<and> r \<le> 90) \<or> (97 \<le> r \<and> r \<le> 122) \<or> (48 \<le> r \<and> r \<le> 57) \<or> r = 95 \<or> r = 46)"

lemma plain_path_word: "plain_path p \<Longrightarrow> Go_Strings.word p"
  by (auto simp: plain_path_def word_def ascii_def is_space_def Let_def)

lemma plain_path_no_comma: "plain_path p \<Longrightarrow> CHR '','' \<notin> set p"
  by (auto simp: plain_path_def Let_def)

lemma word_asc: "Go_Strings.word ''asc''" "Go_Strings.word ''desc''"
  by (auto simp: word_def is_space_def)

lemma str_fields_show_order_field:
  "plain_path (Path f) \<Longrightarrow>
   str_fields (show_order_field f)
     = [Path f, (case Direction f of Asc \<Rightarrow> ''asc'' | Desc \<Rightarrow> ''desc'')]"
  using str_fields_two_words [OF plain_path_word word_asc(1)]
    str_fields_two_words [OF plain_path_word word_asc(2)]
  by (cases "Direction f") (auto simp: show_order_field_def)

lemma show_order_field_ascii: "plain_path (Path f) \<Longrightarrow> ascii (show_order_field f)"
  using plain_path_word [of "Path f"]
  by (auto simp: show_order_field_def word_def split: sort_direction.splits)

lemma trim_show_order_field:
  assumes "plain_path (Path f)"
  shows "trim_space (show_order_field f) = show_order_field f"
proof (rule trim_space_id)
  show "ascii (show_order_field f)" using assms by (rule show_order_field_ascii)
  show "\<not> space_byte (hd (show_order_field f)) \<and> \<not> space_byte (last (show_order_field f))"
    using plain_path_word [OF assms] hd_in_set [of "Path f"]
    by (auto simp: show_order_field_def word_def is_space_def split: sort_direction.splits)
qed

lemma show_order_field_not_Nil [simp]: "show_order_field f \<noteq> []" "[] \<noteq> show_order_field f"
  by (auto simp: show_order_field_def split: sort_direction.splits)

lemma lower_asc [simp]: "lower_ascii ''asc'' = ''asc''" "lower_ascii ''desc'' = ''desc''"
  by (simp_all add: lower_ascii_def lower_byte_def)

lemma parse_specs_show:
  "\<forall>f \<in> set fs. plain_path (Path f) \<Longrightarrow> distinct (map Path fs) \<Longrightarrow>
   seen \<inter> set (map Path fs) = {} \<Longrightarrow> parse_specs (map show_order_field fs) seen = Ok fs"
proof (induction fs arbitrary: seen)
  case (Cons f fs)
  then show ?case
    by (cases "Direction f")
      (auto simp: trim_show_order_field str_fields_show_order_field Let_def)
qed simp

lemma show_order_by_plain:
  assumes "\<forall>f \<in> set fs. plain_path (Path f)" "c \<in> set (join '','' (map show_order_field fs))"
  shows "byte c < 128 \<and> order_rune uni (byte c)"
proof -
  have "c \<in> set '','' \<or> (\<exists>f \<in> set fs. c \<in> set (show_order_field f))"
    using set_join [of "'',''" "map show_order_field fs"] assms(2) by auto
  then consider "c \<in> set '', ascde''" | f where "f \<in> set fs" "c \<in> set (Path f)"
    by (auto simp: show_order_field_def split: sort_direction.splits)
  then show ?thesis
  proof cases
    case 1
    then show ?thesis by (auto simp: order_rune_def is_letter_or_number_def)
  next
    case 2
    with assms(1) have "plain_path (Path f)" by blast
    with 2(2) show ?thesis
      by (auto simp: plain_path_def Let_def order_rune_def is_letter_or_number_def)
  qed
qed

lemma join_not_Nil: "ws \<noteq> [] \<Longrightarrow> [] \<notin> set ws \<Longrightarrow> join sep ws \<noteq> []"
  by (induction sep ws rule: join.induct) auto

lemma hd_join: "ws \<noteq> [] \<Longrightarrow> [] \<notin> set ws \<Longrightarrow> hd (join sep ws) = hd (hd ws)"
  by (induction sep ws rule: join.induct) auto

lemma last_join: "ws \<noteq> [] \<Longrightarrow> [] \<notin> set ws \<Longrightarrow> last (join sep ws) = last (last ws)"
  by (induction sep ws rule: join.induct) (auto simp: join_not_Nil)

lemma show_order_by_trim:
  assumes "\<forall>f \<in> set fs. plain_path (Path f)" "fs \<noteq> []"
  shows "trim_space (join '','' (map show_order_field fs)) = join '','' (map show_order_field fs)"
proof (rule trim_space_id)
  let ?ws = "map show_order_field fs"
  show "ascii (join '','' ?ws)"
    using show_order_by_plain [OF assms(1)] by (auto simp: ascii_def)
  have ne: "?ws \<noteq> []" "[] \<notin> set ?ws" using assms(2) by (auto simp: image_iff)
  have "plain_path (Path (hd fs))" using assms by simp
  then have "\<not> space_byte (hd (show_order_field (hd fs)))"
    using plain_path_word [of "Path (hd fs)"] hd_in_set [of "Path (hd fs)"]
    by (auto simp: show_order_field_def word_def)
  moreover have "\<not> space_byte (last (show_order_field (last fs)))"
    by (auto simp: show_order_field_def is_space_def split: sort_direction.splits)
  ultimately show "\<not> space_byte (hd (join '','' ?ws)) \<and> \<not> space_byte (last (join '','' ?ws))"
    using ne assms(2) by (simp add: hd_join last_join hd_map last_map)
qed

lemma show_order_field_no_comma:
  "plain_path (Path f) \<Longrightarrow> CHR '','' \<notin> set (show_order_field f)"
  by (auto simp: show_order_field_def dest: plain_path_no_comma split: sort_direction.splits)

lemma ParseOrderBy_show:
  assumes "\<forall>f \<in> set (Fields ob). plain_path (Path f)" "distinct (map Path (Fields ob))"
  shows "ParseOrderBy uni (show_order_by ob) = Ok ob"
proof (cases "Fields ob = []")
  case True
  then show ?thesis by (simp add: ParseOrderBy_def show_order_by_def)
next
  case False
  let ?s = "join '','' (map show_order_field (Fields ob))"
  have ascii: "ascii ?s"
    using show_order_by_plain [OF assms(1)] by (auto simp: ascii_def)
  have runes: "\<forall>r \<in> set (map fst (runes ?s)). order_rune uni r"
    using show_order_by_plain [OF assms(1)] by (auto simp: runes_ascii [OF ascii])
  have split: "split_on CHR '','' ?s = map show_order_field (Fields ob)"
    using False assms(1) by (intro split_on_join) (auto simp: show_order_field_no_comma)
  have "?s \<noteq> []"
    using False by (intro join_not_Nil) (auto simp: image_iff)
  with False assms runes split show ?thesis
    by (simp add: ParseOrderBy_def show_order_by_def show_order_by_trim Let_def parse_specs_show
        filter_empty_conv)
qed

section \<open>Properties\<close>

text \<open>
  a successful \<open>ParseOrderBy\<close> yields one field per comma-separated term, in order, with
  distinct paths that are non-empty and hold neither a comma nor a blank; it yields no field
  exactly for a blank directive.
\<close>

theorem ParseOrderBy_result:
  assumes "ParseOrderBy uni s = Ok ob"
  shows "distinct (map Path (Fields ob))
    \<and> (\<forall>f \<in> set (Fields ob). good_path (Path f))
    \<and> (Fields ob = [] \<longleftrightarrow> trim_space s = [])
    \<and> (trim_space s \<noteq> [] \<longrightarrow>
         length (Fields ob) = length (split_on CHR '','' (trim_space s)))"
  using ParseOrderBy_Ok [OF assms] by blast

theorem ParseOrderBy_result_witness:
  "let ob = \<lparr>Fields = [\<lparr>Path = ''name'', Direction = Asc\<rparr>, \<lparr>Path = ''ct'', Direction = Desc\<rparr>]\<rparr>
   in ParseOrderBy (\<lambda>_. False) ''name asc,ct desc'' = Ok ob \<and> distinct (map Path (Fields ob))"
proof -
  let ?ob = "\<lparr>Fields = [\<lparr>Path = ''name'', Direction = Asc\<rparr>, \<lparr>Path = ''ct'', Direction = Desc\<rparr>]\<rparr>"
  have "ParseOrderBy (\<lambda>_. False) ''name asc,ct desc'' = Ok ?ob"
    using ParseOrderBy_show [of ?ob "\<lambda>_. False"]
    by (simp add: show_order_by_def show_order_field_def plain_path_def)
  from this ParseOrderBy_result [OF this] show ?thesis by (simp add: Let_def)
qed

text \<open>
  \<open>ParseOrderBy\<close> never panics, and every error it returns wraps \<open>ErrInvalidOrderBy\<close> and
  no other sentinel.
\<close>

theorem ParseOrderBy_errors:
  "ParseOrderBy uni s \<noteq> Panic
   \<and> (\<forall>e t. ParseOrderBy uni s = Err e \<longrightarrow> (errors_is e t \<longleftrightarrow> t = ErrInvalidOrderBy))"
  using ParseOrderBy_Err [of uni s] by auto

theorem ParseOrderBy_errors_witness:
  "ParseOrderBy (\<lambda>_. False) ''a;b'' = Err (invalid_order_by (InvalidCharacter 59))
   \<and> errors_is (invalid_order_by (InvalidCharacter 59)) ErrInvalidOrderBy"
proof -
  have "trim_space ''a;b'' = ''a;b''"
    by (rule trim_space_id) (auto simp: is_space_def)
  then have "ParseOrderBy (\<lambda>_. False) ''a;b'' = Err (invalid_order_by (InvalidCharacter 59))"
    by (simp add: ParseOrderBy_def runes_Cons_ascii order_rune_def is_letter_or_number_def)
  from this ParseOrderBy_errors [of "\<lambda>_. False" "''a;b''"] show ?thesis by blast
qed

text \<open>
  parsing inverts printing: an ordering with distinct paths of letters, digits, \<open>_\<close> and
  \<open>.\<close> is what \<open>ParseOrderBy\<close> reads back from its canonical text.
\<close>

theorem ParseOrderBy_roundtrip:
  assumes "\<forall>f \<in> set (Fields ob). plain_path (Path f)" "distinct (map Path (Fields ob))"
  shows "ParseOrderBy uni (show_order_by ob) = Ok ob"
  using assms by (rule ParseOrderBy_show)

theorem ParseOrderBy_roundtrip_witness:
  "ParseOrderBy (\<lambda>_. False) ''labels.env desc''
     = Ok \<lparr>Fields = [\<lparr>Path = ''labels.env'', Direction = Desc\<rparr>]\<rparr>"
  using ParseOrderBy_roundtrip
    [of "\<lparr>Fields = [\<lparr>Path = ''labels.env'', Direction = Desc\<rparr>]\<rparr>" "\<lambda>_. False"]
  by (simp add: show_order_by_def show_order_field_def plain_path_def)

end
