(* ===== verification/Page_Token.thy ===== *)
theory Page_Token
  imports Order_By Cursor_Codec
begin

text \<open>
  \<^verbatim>\<open>pkg/aip/page.go\<close>: the opaque page token. \<^verbatim>\<open>base64.RawURLEncoding\<close> is modelled
  byte for byte; \<^verbatim>\<open>encoding/json\<close> on the token struct and \<^verbatim>\<open>sha256\<close> are fields of the
  parameter \<open>token_env\<close>.
\<close>

section \<open>base64.RawURLEncoding\<close>

definition enc6 :: "int \<Rightarrow> char" where
  "enc6 n = char_of (if n < 26 then 65 + n else if n < 52 then 71 + n
                     else if n < 62 then n - 4 else if n = 62 then 45 else 95)"

definition dec6 :: "char \<Rightarrow> int option" where
  "dec6 c = (let b = byte c in
     if 65 \<le> b \<and> b \<le> 90 then Some (b - 65)
     else if 97 \<le> b \<and> b \<le> 122 then Some (b - 71)
     else if 48 \<le> b \<and> b \<le> 57 then Some (b + 4)
     else if b = 45 then Some 62 else if b = 95 then Some 63 else None)"

fun b64_encode :: "string \<Rightarrow> string" where
  "b64_encode (a # b # c # s) =
     (let v = byte a * 65536 + byte b * 256 + byte c in
      enc6 (v div 262144) # enc6 (v div 4096 mod 64) # enc6 (v div 64 mod 64) # enc6 (v mod 64)
        # b64_encode s)"
| "b64_encode [a, b] =
     (let v = byte a * 65536 + byte b * 256 in
      [enc6 (v div 262144), enc6 (v div 4096 mod 64), enc6 (v div 64 mod 64)])"
| "b64_encode [a] =
     (let v = byte a * 65536 in [enc6 (v div 262144), enc6 (v div 4096 mod 64)])"
| "b64_encode [] = []"

text \<open>Decoding skips CR and LF, takes four characters at a time, and ignores trailing bits.\<close>

fun b64_groups :: "int list \<Rightarrow> string option" where
  "b64_groups (p # q # r # s # ds) =
     (let v = p * 262144 + q * 4096 + r * 64 + s in
      map_option (\<lambda>t. char_of (v div 65536) # char_of (v div 256 mod 256) # char_of (v mod 256) # t)
        (b64_groups ds))"
| "b64_groups [p, q, r] =
     (let v = p * 262144 + q * 4096 + r * 64 in
      Some [char_of (v div 65536), char_of (v div 256 mod 256)])"
| "b64_groups [p, q] = Some [char_of ((p * 262144 + q * 4096) div 65536)]"
| "b64_groups [p] = None"
| "b64_groups [] = Some []"

definition b64_decode :: "string \<Rightarrow> string option" where
  "b64_decode s =
     (let t = filter (\<lambda>c. byte c \<noteq> 10 \<and> byte c \<noteq> 13) s in
      if \<exists>c \<in> set t. dec6 c = None then None
      else b64_groups (map (\<lambda>c. the (dec6 c)) t))"

lemma dec6_enc6: "0 \<le> n \<Longrightarrow> n < 64 \<Longrightarrow> dec6 (enc6 n) = Some n"
  by (simp add: dec6_def enc6_def byte_char_of_int Let_def)

lemma enc6_not_newline: "0 \<le> n \<Longrightarrow> n < 64 \<Longrightarrow> byte (enc6 n) \<noteq> 10 \<and> byte (enc6 n) \<noteq> 13"
  by (simp add: enc6_def byte_char_of_int)

lemma byte_less [simp]: "byte c < 256"
  using nat_of_char_less_256 [of c] by (metis of_nat_less_iff of_nat_numeral of_nat_of_char)

text \<open>Each group of up to three bytes comes back from its sextets.\<close>

lemma sextet_sum_aux:
  "64 * q + r = v \<Longrightarrow> 64 * q' + r' = q \<Longrightarrow> 64 * q'' + r'' = q' \<Longrightarrow>
   q'' * 262144 + r'' * 4096 + r' * 64 + r = (v :: int)"
  by linarith

lemma sextet_sum:
  "v div 262144 * 262144 + v div 4096 mod 64 * 4096 + v div 64 mod 64 * 64 + v mod 64 = (v :: int)"
proof -
  have "v div 4096 = v div 64 div 64" "v div 262144 = v div 64 div 64 div 64"
    by (simp_all flip: zdiv_zmult2_eq)
  then show ?thesis by (metis sextet_sum_aux mult_div_mod_eq)
qed

lemma sextets:
  fixes a b c :: int
  assumes "0 \<le> a" "a < 256" "0 \<le> b" "b < 256" "0 \<le> c" "c < 256"
  defines "v \<equiv> a * 65536 + b * 256 + c"
  shows "0 \<le> v div 262144" "v div 262144 < 64"
    "v div 262144 * 262144 + v div 4096 mod 64 * 4096 + v div 64 mod 64 * 64 + v mod 64 = v"
    "v div 65536 = a" "v div 256 mod 256 = b" "v mod 256 = c"
proof -
  have "0 \<le> v" "v < 64 * 262144" using assms by (simp_all add: v_def)
  then show "0 \<le> v div 262144" "v div 262144 < 64"
    by (simp_all add: div_less_iff_less_mult)
  show "v div 262144 * 262144 + v div 4096 mod 64 * 4096 + v div 64 mod 64 * 64 + v mod 64 = v"
    by (rule sextet_sum)
  show "v div 65536 = a"
    using assms by (intro int_div_pos_eq [of _ _ _ "b * 256 + c"]) (simp_all add: v_def)
  have "v div 256 = a * 256 + b"
    using assms by (intro int_div_pos_eq [of _ _ _ c]) (simp_all add: v_def)
  then show "v div 256 mod 256 = b" using assms by simp
  show "v mod 256 = c"
    using assms by (intro int_mod_pos_eq [of _ _ "a * 256 + b"]) (simp_all add: v_def)
qed

lemma sextets_two:
  fixes v :: int
  assumes "v = w * 64"
  shows "v div 262144 * 262144 + v div 4096 mod 64 * 4096 + v div 64 mod 64 * 64 = v"
proof -
  have "v mod 64 = 0" by (simp only: assms mod_mult_self2_is_0)
  then show ?thesis by (metis sextet_sum add.right_neutral)
qed

lemma sextets_one:
  fixes v :: int
  assumes "v = w * 64 * 64"
  shows "v div 262144 * 262144 + v div 4096 mod 64 * 4096 = v"
proof -
  have "v div 64 = w * 64" using assms by simp
  then have "v div 64 mod 64 = 0" by (simp only: mod_mult_self2_is_0)
  then show ?thesis by (metis sextets_two [OF assms] mult_zero_left add.right_neutral)
qed

definition b64_sextets :: "string \<Rightarrow> int list" where
  "b64_sextets s = map (\<lambda>c. the (dec6 c)) s"

lemma b64_sextets_simps [simp]:
  "b64_sextets [] = []" "b64_sextets (c # s) = the (dec6 c) # b64_sextets s"
  by (simp_all add: b64_sextets_def)

lemma dec6_enc6_mod [simp]: "the (dec6 (enc6 (v mod 64))) = v mod 64"
  by (simp add: dec6_enc6)

lemma b64_groups_encode: "b64_groups (b64_sextets (b64_encode s)) = Some s"
proof (induction s rule: b64_encode.induct)
  case (1 a b c s)
  obtain v where v: "v = byte a * 65536 + byte b * 256 + byte c" by simp
  note sx = sextets [OF byte_nonneg byte_less byte_nonneg byte_less byte_nonneg byte_less,
      of a b c, folded v]
  have enc: "b64_encode (a # b # c # s) =
      enc6 (v div 262144) # enc6 (v div 4096 mod 64) # enc6 (v div 64 mod 64) # enc6 (v mod 64)
        # b64_encode s"
    by (simp only: b64_encode.simps Let_def v)
  show ?case
    using 1 [OF v] by (simp only: enc b64_sextets_simps dec6_enc6_mod dec6_enc6 [OF sx(1,2)]
        option.sel b64_groups.simps Let_def sx(3-6) char_of_char option.map)
next
  case (2 a b)
  obtain v where v: "v = byte a * 65536 + byte b * 256" by simp
  note sx = sextets [OF byte_nonneg byte_less byte_nonneg byte_less order_refl zero_less_numeral,
      of a b, unfolded add_0_right, folded v]
  have "v = (byte a * 1024 + byte b * 4) * 64" by (simp add: v)
  note sum = sextets_two [OF this]
  have enc: "b64_encode [a, b] =
      [enc6 (v div 262144), enc6 (v div 4096 mod 64), enc6 (v div 64 mod 64)]"
    by (simp only: b64_encode.simps Let_def v)
  show ?case
    by (simp only: enc b64_sextets_simps dec6_enc6_mod dec6_enc6 [OF sx(1,2)]
        option.sel b64_groups.simps Let_def sum sx(4-5) char_of_char)
next
  case (3 a)
  obtain v where v: "v = byte a * 65536" by simp
  note sx = sextets [OF byte_nonneg byte_less order_refl zero_less_numeral order_refl
      zero_less_numeral, of a, unfolded mult_zero_left add_0_right, folded v]
  have "v = byte a * 16 * 64 * 64" by (simp add: v)
  note sum = sextets_one [OF this]
  have enc: "b64_encode [a] = [enc6 (v div 262144), enc6 (v div 4096 mod 64)]"
    by (simp only: b64_encode.simps Let_def v)
  show ?case
    by (simp only: enc b64_sextets_simps dec6_enc6_mod dec6_enc6 [OF sx(1,2)]
        option.sel b64_groups.simps Let_def sum sx(4) char_of_char)
qed simp

definition b64_char :: "char \<Rightarrow> bool" where
  "b64_char c \<longleftrightarrow> dec6 c \<noteq> None \<and> byte c \<noteq> 10 \<and> byte c \<noteq> 13"

lemma b64_char_enc6: "0 \<le> n \<Longrightarrow> n < 64 \<Longrightarrow> b64_char (enc6 n)"
  by (simp add: b64_char_def dec6_enc6 enc6_not_newline)

lemma b64_encode_chars: "c \<in> set (b64_encode s) \<Longrightarrow> b64_char c"
proof (induction s rule: b64_encode.induct)
  case (1 a b d s)
  note v = sextets(1,2) [OF byte_nonneg byte_less byte_nonneg byte_less byte_nonneg byte_less, of a b d]
  show ?case using 1 v by (auto simp: Let_def b64_char_enc6)
next
  case (2 a b)
  note v = sextets(1,2) [OF byte_nonneg byte_less byte_nonneg byte_less order_refl, of a b, simplified]
  show ?case using 2 v by (auto simp: Let_def b64_char_enc6)
next
  case (3 a)
  note v = sextets(1,2) [OF byte_nonneg byte_less order_refl _ order_refl, of a, simplified]
  show ?case using 3 v by (auto simp: Let_def b64_char_enc6)
qed simp

lemma b64_roundtrip: "b64_decode (b64_encode s) = Some s"
proof -
  have c: "\<forall>c \<in> set (b64_encode s). b64_char c" using b64_encode_chars by blast
  then have "filter (\<lambda>c. byte c \<noteq> 10 \<and> byte c \<noteq> 13) (b64_encode s) = b64_encode s"
    by (simp add: filter_id_conv b64_char_def)
  with c show ?thesis
    using b64_groups_encode [of s]
    by (auto simp: b64_decode_def b64_sextets_def b64_char_def Let_def)
qed

lemma b64_encode_Nil_iff [simp]: "b64_encode s = [] \<longleftrightarrow> s = []" "[] = b64_encode s \<longleftrightarrow> s = []"
  by (cases s rule: b64_encode.cases; auto simp: Let_def)+

section \<open>Page tokens\<close>

record token_order =
  TokField :: string
  TokDesc :: bool

record page_token =
  CreateTime :: int64
  ResourceType :: string
  FilterHash :: string
  CursorValues :: "string list"
  OrderFields :: "token_order list"

text \<open>
  \<^verbatim>\<open>json.Marshal\<close> and \<^verbatim>\<open>json.Unmarshal\<close> on the struct, and \<^verbatim>\<open>sha256.Sum256\<close>.
  \<open>json_faithful\<close> is the documented round trip of the first two, at one token.
\<close>

record token_env =
  Marshal :: "page_token \<Rightarrow> string option"
  Unmarshal :: "string \<Rightarrow> page_token option"
  Sum256 :: "string \<Rightarrow> string"

definition json_faithful :: "token_env \<Rightarrow> page_token \<Rightarrow> bool" where
  "json_faithful env t \<longleftrightarrow>
     (case Marshal env t of None \<Rightarrow> False | Some b \<Rightarrow> b \<noteq> [] \<and> Unmarshal env b = Some t)"

definition token_error :: "token_reason \<Rightarrow> go_error list \<Rightarrow> go_error" where
  "token_error r es = Errorf (InToken r) es"

definition hashFilter :: "token_env \<Rightarrow> string \<Rightarrow> string" where
  "hashFilter env flt = (if flt = [] then [] else b64_encode (Sum256 env flt))"

text \<open>The loop of \<open>EncodeToken\<close> over the cursor values, \<open>i\<close> counting up.\<close>

fun encode_cursors ::
  "(string \<rightharpoonup> cursor_codec) \<Rightarrow> nat \<Rightarrow> (gval \<times> order_field) list \<Rightarrow> (go_error, string list) outcome"
where
  "encode_cursors codecs i [] = Ok []"
| "encode_cursors codecs i ((v, f) # rest) =
     (case codecs (Path f) of
        None \<Rightarrow> Err (token_error (NoCodecRegistered (Path f)) [])
      | Some c \<Rightarrow>
          and_then (map_err (\<lambda>e. token_error (EncodeCursorFailed i) [e]) (Encode c v)) (\<lambda>s.
          and_then (encode_cursors codecs (Suc i) rest) (\<lambda>ss. Ok (s # ss))))"

definition token_orders :: "order_by \<Rightarrow> token_order list" where
  "token_orders ob =
     map (\<lambda>f. \<lparr>TokField = Path f, TokDesc = (Direction f = Desc)\<rparr>) (Fields ob)"

text \<open>
  \<open>now\<close> is the wall clock in nanoseconds since the epoch; \<open>new_token\<close> is the struct literal
  of \<open>EncodeToken\<close>.
\<close>

definition new_token ::
  "token_env \<Rightarrow> int \<Rightarrow> string \<Rightarrow> string list \<Rightarrow> order_by \<Rightarrow> string \<Rightarrow> page_token" where
  "new_token env now resourceType encoded orderBy flt =
     \<lparr>CreateTime = word_of_int now, ResourceType = resourceType, FilterHash = hashFilter env flt,
      CursorValues = encoded, OrderFields = token_orders orderBy\<rparr>"

definition EncodeToken ::
  "token_env \<Rightarrow> int \<Rightarrow> string \<Rightarrow> gval list \<Rightarrow> order_by \<Rightarrow> string \<Rightarrow> (string \<rightharpoonup> cursor_codec)
     \<Rightarrow> (go_error, string) outcome" where
  "EncodeToken env now resourceType cursorValues orderBy flt codecs =
     (if length cursorValues \<noteq> length (Fields orderBy)
      then Err (token_error
             (CursorCountMismatch (length cursorValues) (length (Fields orderBy))) [])
      else and_then (encode_cursors codecs 0 (zip cursorValues (Fields orderBy))) (\<lambda>encoded.
        case Marshal env (new_token env now resourceType encoded orderBy flt) of
          None \<Rightarrow> Err (token_error MarshalFailed [])
        | Some tokenBytes \<Rightarrow> Ok (b64_encode tokenBytes)))"

definition DecodeToken :: "token_env \<Rightarrow> string \<Rightarrow> (go_error, page_token option) outcome" where
  "DecodeToken env tokenStr =
     (if tokenStr = [] then Ok None
      else case b64_decode tokenStr of
        None \<Rightarrow> Err (token_error MalformedBase64 [])
      | Some tokenBytes \<Rightarrow>
          (case Unmarshal env tokenBytes of
             None \<Rightarrow> Err (token_error MalformedEncoding [])
           | Some token \<Rightarrow> Ok (Some token)))"

definition TokenMaxAge :: int where
  "TokenMaxAge = 24 * 3600 * 1000000000"

definition ValidateToken ::
  "token_env \<Rightarrow> int \<Rightarrow> page_token option \<Rightarrow> string \<Rightarrow> string \<Rightarrow> (go_error, unit) outcome" where
  "ValidateToken env now token resourceType flt =
     (case token of
        None \<Rightarrow> Ok ()
      | Some t \<Rightarrow>
          if now - sint (CreateTime t) > TokenMaxAge then Err (Sentinel errTokenExpired)
          else if ResourceType t \<noteq> resourceType then Err (Sentinel errTokenWrongResource)
          else if FilterHash t \<noteq> hashFilter env flt then Err (Sentinel ErrFilterMismatch)
          else Ok ())"

section \<open>Lemmas\<close>

lemma errors_is_token_error [simp]:
  "errors_is (token_error r es) t \<longleftrightarrow> (\<exists>e \<in> set es. errors_is e t)"
  by (simp add: token_error_def)

lemma encode_cursors_Ok:
  "encode_cursors codecs i vfs = Ok ss \<longleftrightarrow>
   list_all2 (\<lambda>(v, f) s. \<exists>c. codecs (Path f) = Some c \<and> Encode c v = Ok s) vfs ss"
proof (induction codecs i vfs arbitrary: ss rule: encode_cursors.induct)
  case (2 codecs i v f rest)
  then show ?case
    by (cases ss) (auto simp: go_simps list_all2_Cons1 split: option.splits)
qed auto

lemma DecodeToken_not_Panic [simp]: "DecodeToken env s \<noteq> Panic"
  by (simp add: DecodeToken_def split: option.splits)

lemma DecodeToken_None_iff: "DecodeToken env s = Ok None \<longleftrightarrow> s = []"
  by (simp add: DecodeToken_def split: option.splits)

lemma ValidateToken_not_Panic [simp]: "ValidateToken env now t rt flt \<noteq> Panic"
  by (simp add: ValidateToken_def split: option.splits)

lemma ValidateToken_Some_Ok:
  "ValidateToken env now (Some t) rt flt = Ok () \<longleftrightarrow>
     now - sint (CreateTime t) \<le> TokenMaxAge \<and> ResourceType t = rt
     \<and> FilterHash t = hashFilter env flt"
  by (auto simp: ValidateToken_def)

lemma DecodeToken_EncodeToken:
  assumes "length vals = length (Fields ob)"
    and "encode_cursors codecs 0 (zip vals (Fields ob)) = Ok encoded"
    and "json_faithful env (new_token env now rt encoded ob flt)"
  obtains s where "EncodeToken env now rt vals ob flt codecs = Ok s" "s \<noteq> []"
    "DecodeToken env s = Ok (Some (new_token env now rt encoded ob flt))"
  using assms
  by (auto simp: EncodeToken_def DecodeToken_def json_faithful_def b64_roundtrip
      split: option.splits)

lemma sint_of_int64:
  "- (2 ^ 63) \<le> i \<Longrightarrow> i < 2 ^ 63 \<Longrightarrow> sint (word_of_int i :: int64) = i"
  by (simp add: sint_sbintrunc' signed_take_bit_int_eq_self)

lemma hashFilter_eq_iff:
  assumes "\<forall>s. Sum256 env s \<noteq> []"
  shows "hashFilter env f = hashFilter env g \<longleftrightarrow>
     f = g \<or> f \<noteq> [] \<and> g \<noteq> [] \<and> Sum256 env f = Sum256 env g"
  using assms b64_roundtrip [of "Sum256 env f"] b64_roundtrip [of "Sum256 env g"]
  by (auto simp: hashFilter_def)

section \<open>Properties\<close>

text \<open>
  C24: the opaque token loses nothing: when the cursor values encode, \<open>EncodeToken\<close> returns a
  non-empty string from which \<open>DecodeToken\<close> reads back the creation time, resource type,
  filter hash, encoded cursor values and ordering that were put in. JSON's round trip at that
  one token is the hypothesis.
\<close>

theorem token_roundtrip:
  assumes "length vals = length (Fields ob)"
    and "encode_cursors codecs 0 (zip vals (Fields ob)) = Ok encoded"
    and "json_faithful env (new_token env now rt encoded ob flt)"
  shows "\<exists>s. EncodeToken env now rt vals ob flt codecs = Ok s \<and> s \<noteq> []
    \<and> DecodeToken env s = Ok (Some
        \<lparr>CreateTime = word_of_int now, ResourceType = rt, FilterHash = hashFilter env flt,
         CursorValues = encoded, OrderFields = token_orders ob\<rparr>)"
  using DecodeToken_EncodeToken [OF assms] unfolding new_token_def by metis

definition sample_token :: page_token where
  "sample_token = \<lparr>CreateTime = 5, ResourceType = ''Book'', FilterHash = [],
     CursorValues = [''b7''], OrderFields = [\<lparr>TokField = ''id'', TokDesc = False\<rparr>]\<rparr>"

definition sample_env :: token_env where
  "sample_env = \<lparr>
     Marshal = (\<lambda>t. if t = sample_token then Some ''{}'' else None),
     Unmarshal = (\<lambda>b. if b = ''{}'' then Some sample_token else None),
     Sum256 = (\<lambda>s. ''#'' @ s)\<rparr>"

theorem token_roundtrip_witness:
  "\<exists>s. EncodeToken sample_env 5 ''Book'' [VString ''b7'']
         \<lparr>Fields = [\<lparr>Path = ''id'', Direction = Asc\<rparr>]\<rparr> [] [''id'' \<mapsto> StringCodec] = Ok s
     \<and> DecodeToken sample_env s = Ok (Some sample_token)"
proof -
  let ?ob = "\<lparr>Fields = [\<lparr>Path = ''id'', Direction = Asc\<rparr>]\<rparr>"
  have t: "new_token sample_env 5 ''Book'' [''b7''] ?ob [] = sample_token"
    by (simp add: new_token_def sample_token_def hashFilter_def token_orders_def)
  have j: "json_faithful sample_env sample_token"
    by (simp add: json_faithful_def sample_env_def)
  have e: "encode_cursors [''id'' \<mapsto> StringCodec] 0 (zip [VString ''b7''] (Fields ?ob)) = Ok [''b7'']"
    by (simp add: StringCodec_def)
  show ?thesis
    using token_roundtrip [OF _ e, of sample_env 5 "''Book''" "[]"] j t
    by (auto simp: new_token_def)
qed

text \<open>
  C25: a token is accepted for at most 24 hours, and only for the resource type and the filter it
  was made for: filters differ in the token as soon as they differ and one is empty or their
  SHA-256 digests differ.
\<close>

theorem token_lifetime:
  assumes "0 \<le> created" "created < 2 ^ 63" "\<forall>s. Sum256 env s \<noteq> []"
  shows "ValidateToken env now (Some (new_token env created rt encoded ob flt)) rt' flt' = Ok ()
    \<longleftrightarrow> now - created \<le> 24 * 3600 * 1000000000 \<and> rt' = rt
        \<and> (flt' = flt \<or> flt \<noteq> [] \<and> flt' \<noteq> [] \<and> Sum256 env flt = Sum256 env flt')"
proof -
  have "sint (word_of_int created :: int64) = created"
    using assms by (intro sint_of_int64) auto
  then show ?thesis
    using hashFilter_eq_iff [OF assms(3), of flt flt']
    by (auto simp: ValidateToken_Some_Ok new_token_def TokenMaxAge_def)
qed

theorem token_lifetime_witness:
  "ValidateToken sample_env 86400000000005
     (Some (new_token sample_env 5 ''Book'' [''b7''] \<lparr>Fields = []\<rparr> ''x'')) ''Book'' ''x'' = Ok ()
   \<and> ValidateToken sample_env 86400000000006
     (Some (new_token sample_env 5 ''Book'' [''b7''] \<lparr>Fields = []\<rparr> ''x'')) ''Book'' ''x'' \<noteq> Ok ()"
proof -
  have "\<forall>s. Sum256 sample_env s \<noteq> []" by (simp add: sample_env_def)
  note l = token_lifetime [OF _ _ this, of 5 _ "''Book''" "[''b7'']" "\<lparr>Fields = []\<rparr>" "''x''"]
  show ?thesis
    using l [of 86400000000005 "''Book''" "''x''"] l [of 86400000000006 "''Book''" "''x''"]
    by simp
qed

end
