(* ===== verification/Query_Schema.thy ===== *)
theory Query_Schema
  imports Sql_Exp Order_By Page_Token
begin

text \<open>
  \<^verbatim>\<open>pkg/aip/jet/schema.go\<close>: the schema of a pageable resource. The Go map of fields is an
  association list with distinct keys; its order stands for the map's iteration order, which only
  decides which of several configuration errors is reported. A nil interface or function is
  \<open>None\<close>.
\<close>

section \<open>Data\<close>

record 'm field =
  Column :: "sql_expr option"
  Codec :: "cursor_codec option"
  DisableOrdering :: bool
  GetValue :: "('m \<Rightarrow> gval) option"

type_synonym 'm flds = "(string \<times> 'm field) list"

record 'm schema =
  resourceType :: string
  schemaFields :: "'m flds"
  defaultPageSize :: int32
  maxPageSize :: int32
  defaultOrder :: "order_field list"
  tieBreakerFields :: "order_field list"
  cachedCodecs :: "string \<rightharpoonup> cursor_codec"
  cachedAllowedFields :: "string list"

record schema_builder =
  b_defaultPageSize :: int32
  b_maxPageSize :: int32
  b_defaultOrder :: "order_field list"
  b_tieBreakerFields :: "order_field list"

definition WithDefaultPageSize :: "int32 \<Rightarrow> schema_builder \<Rightarrow> schema_builder" where
  "WithDefaultPageSize n b = b\<lparr>b_defaultPageSize := n\<rparr>"

definition WithMaxPageSize :: "int32 \<Rightarrow> schema_builder \<Rightarrow> schema_builder" where
  "WithMaxPageSize n b = b\<lparr>b_maxPageSize := n\<rparr>"

definition WithDefaultOrder :: "string \<Rightarrow> sort_direction \<Rightarrow> schema_builder \<Rightarrow> schema_builder" where
  "WithDefaultOrder fieldPath dir b =
     b\<lparr>b_defaultOrder := b_defaultOrder b @ [\<lparr>Path = fieldPath, Direction = dir\<rparr>]\<rparr>"

definition WithTieBreaker :: "string \<Rightarrow> sort_direction \<Rightarrow> schema_builder \<Rightarrow> schema_builder" where
  "WithTieBreaker fieldPath dir b =
     b\<lparr>b_tieBreakerFields := b_tieBreakerFields b @ [\<lparr>Path = fieldPath, Direction = dir\<rparr>]\<rparr>"

section \<open>Construction\<close>

datatype schema_error =
    DefaultPageSizeTooSmall int32 | MaxPageSizeTooSmall int32
  | OrderFieldNotInSchema string string "string list" | OrderFieldDisabled string string
  | MissingCodec string | MissingGetValue string | MissingColumn string

definition sorted_keys :: "(string \<times> 'a) list \<Rightarrow> string list" where
  "sorted_keys m = sort (map fst m)"

fun validate_order :: "string \<Rightarrow> 'm flds \<Rightarrow> order_field list \<Rightarrow> (schema_error, unit) outcome" where
  "validate_order what fs [] = Ok ()"
| "validate_order what fs (f # ofs) =
     (case map_of fs (Path f) of
        None \<Rightarrow> Err (OrderFieldNotInSchema what (Path f) (sorted_keys fs))
      | Some fd \<Rightarrow>
          if DisableOrdering fd then Err (OrderFieldDisabled what (Path f))
          else validate_order what fs ofs)"

fun validate_fields :: "'m flds \<Rightarrow> (schema_error, unit) outcome" where
  "validate_fields [] = Ok ()"
| "validate_fields ((path, fd) # rest) =
     (if DisableOrdering fd then validate_fields rest
      else if Codec fd = None then Err (MissingCodec path)
      else if GetValue fd = None then Err (MissingGetValue path)
      else if Column fd = None then Err (MissingColumn path)
      else validate_fields rest)"

definition validate :: "'m schema \<Rightarrow> (schema_error, unit) outcome" where
  "validate s =
     (if defaultPageSize s <s 1 then Err (DefaultPageSizeTooSmall (defaultPageSize s))
      else if maxPageSize s <s 1 then Err (MaxPageSizeTooSmall (maxPageSize s))
      else and_then (validate_order ''default order'' (schemaFields s) (defaultOrder s)) (\<lambda>_.
           and_then (validate_order ''tie-breaker'' (schemaFields s) (tieBreakerFields s)) (\<lambda>_.
           validate_fields (schemaFields s))))"

definition buildCodecs :: "'m schema \<Rightarrow> string \<rightharpoonup> cursor_codec" where
  "buildCodecs s = (\<lambda>path. Option.bind (map_of (schemaFields s) path) Codec)"

definition NewSchema ::
  "string \<Rightarrow> 'm flds \<Rightarrow> (schema_builder \<Rightarrow> schema_builder) list \<Rightarrow> (unit, 'm schema) outcome"
where
  "NewSchema rt fs opts =
     (let b = fold (\<lambda>opt b. opt b) opts \<lparr>b_defaultPageSize = 50, b_maxPageSize = 1000,
                                     b_defaultOrder = [], b_tieBreakerFields = []\<rparr>;
          s = \<lparr>resourceType = rt, schemaFields = fs, defaultPageSize = b_defaultPageSize b,
               maxPageSize = b_maxPageSize b, defaultOrder = b_defaultOrder b,
               tieBreakerFields = b_tieBreakerFields b, cachedCodecs = Map.empty,
               cachedAllowedFields = []\<rparr>
      in case validate s of
           Ok _ \<Rightarrow> Ok (s\<lparr>cachedCodecs := buildCodecs s, cachedAllowedFields := sorted_keys fs\<rparr>)
         | _ \<Rightarrow> Panic)"

section \<open>Operations\<close>

definition check_client_field :: "'m schema \<Rightarrow> order_field \<Rightarrow> (go_error, unit) outcome" where
  "check_client_field s f =
     (case map_of (schemaFields s) (Path f) of
        None \<Rightarrow> Err (NewFieldError ''order_by'' (Path f) (cachedAllowedFields s))
      | Some fd \<Rightarrow>
          if DisableOrdering fd
          then Err (NewFieldError ''order_by'' (Path f) (cachedAllowedFields s)) else Ok ())"

definition effectiveOrderBy ::
  "(rune \<Rightarrow> bool) \<Rightarrow> 'm schema \<Rightarrow> string \<Rightarrow> (go_error, order_by) outcome" where
  "effectiveOrderBy uni s orderByStr =
     and_then (ParseOrderBy uni orderByStr) (\<lambda>ob.
     let effective = (if Fields ob = [] then defaultOrder s else Fields ob) in
     and_then (map_out (check_client_field s) (Fields ob)) (\<lambda>_.
     Ok \<lparr>Fields = AppendUniqueFields effective (tieBreakerFields s)\<rparr>))"

definition query_error :: "query_reason \<Rightarrow> go_error list \<Rightarrow> go_error" where
  "query_error r es = Errorf (InQuery r) es"

fun decode_cursors ::
  "'m schema \<Rightarrow> (string \<times> token_order) list \<Rightarrow> (go_error, gval list) outcome" where
  "decode_cursors s [] = Ok []"
| "decode_cursors s ((v, tf) # rest) =
     (case map_of (schemaFields s) (TokField tf) of
        None \<Rightarrow> Err (query_error (CursorFieldNotInSchema (TokField tf)) [])
      | Some fd \<Rightarrow>
          (case Codec fd of
             None \<Rightarrow> Panic
           | Some c \<Rightarrow>
               and_then (map_err (\<lambda>e. query_error (CursorDecodeFailed (TokField tf)) [e]) (Decode c v))
                 (\<lambda>goVal. and_then (decode_cursors s rest) (\<lambda>vs. Ok (goVal # vs)))))"

definition order_mismatch :: "token_order \<times> order_field \<Rightarrow> bool" where
  "order_mismatch p \<longleftrightarrow>
     TokField (fst p) \<noteq> Path (snd p) \<or> TokDesc (fst p) \<noteq> (Direction (snd p) = Desc)"

definition decodeCursorValues ::
  "'m schema \<Rightarrow> page_token option \<Rightarrow> order_by \<Rightarrow> (go_error, gval list) outcome" where
  "decodeCursorValues s token orderBy =
     (case token of
        None \<Rightarrow> Ok []
      | Some t \<Rightarrow>
          if OrderFields t = [] then Ok []
          else if length (CursorValues t) \<noteq> length (OrderFields t)
            then Err (query_error CursorValueLengthMismatch [])
          else if length (Fields orderBy) \<noteq> length (OrderFields t)
            then Err (Sentinel ErrTokenOrderChanged)
          else if \<exists>p \<in> set (zip (OrderFields t) (Fields orderBy)). order_mismatch p
            then Err (Sentinel ErrTokenOrderChanged)
          else decode_cursors s (zip (CursorValues t) (OrderFields t)))"

fun extract_values :: "'m schema \<Rightarrow> 'm \<Rightarrow> order_field list \<Rightarrow> (go_error, gval list) outcome" where
  "extract_values s row [] = Ok []"
| "extract_values s row (f # ofs) =
     (case map_of (schemaFields s) (Path f) of
        None \<Rightarrow> Err (NewFieldError ''extract cursor'' (Path f) (cachedAllowedFields s))
      | Some fd \<Rightarrow>
          (case GetValue fd of
             None \<Rightarrow> Panic
           | Some g \<Rightarrow> and_then (extract_values s row ofs) (\<lambda>vs. Ok (g row # vs))))"

definition extractCursorValues :: "'m schema \<Rightarrow> 'm \<Rightarrow> order_by \<Rightarrow> (go_error, gval list) outcome"
where
  "extractCursorValues s row orderBy = extract_values s row (Fields orderBy)"

section \<open>What a schema returned by \<open>NewSchema\<close> satisfies\<close>

definition orderable :: "'m schema \<Rightarrow> string \<Rightarrow> bool" where
  "orderable s p \<longleftrightarrow>
     (case map_of (schemaFields s) p of
        None \<Rightarrow> False
      | Some fd \<Rightarrow> \<not> DisableOrdering fd \<and> Codec fd \<noteq> None \<and> GetValue fd \<noteq> None
                   \<and> Column fd \<noteq> None)"

definition valid_schema :: "'m schema \<Rightarrow> bool" where
  "valid_schema s \<longleftrightarrow>
     1 \<le> sint (defaultPageSize s) \<and> 1 \<le> sint (maxPageSize s)
     \<and> (\<forall>f \<in> set (defaultOrder s). orderable s (Path f))
     \<and> (\<forall>f \<in> set (tieBreakerFields s). orderable s (Path f))
     \<and> (\<forall>(p, fd) \<in> set (schemaFields s).
          \<not> DisableOrdering fd \<longrightarrow> Codec fd \<noteq> None \<and> GetValue fd \<noteq> None \<and> Column fd \<noteq> None)
     \<and> cachedCodecs s = buildCodecs s \<and> cachedAllowedFields s = sorted_keys (schemaFields s)"

lemma validate_order_Ok:
  "validate_order what fs ofs = Ok u \<longleftrightarrow>
     (\<forall>f \<in> set ofs. \<exists>fd. map_of fs (Path f) = Some fd \<and> \<not> DisableOrdering fd)"
  by (induction what fs ofs rule: validate_order.induct) (auto split: option.splits)

lemma validate_fields_Ok:
  "validate_fields fs = Ok u \<longleftrightarrow>
     (\<forall>(p, fd) \<in> set fs. \<not> DisableOrdering fd \<longrightarrow>
        Codec fd \<noteq> None \<and> GetValue fd \<noteq> None \<and> Column fd \<noteq> None)"
  by (induction fs rule: validate_fields.induct) auto

lemma validate_order_not_Panic [simp]: "validate_order what fs ofs \<noteq> Panic"
  by (induction what fs ofs rule: validate_order.induct) (auto split: option.splits)

lemma validate_fields_not_Panic [simp]: "validate_fields fs \<noteq> Panic"
  by (induction fs rule: validate_fields.induct) auto

lemma validate_Ok_iff:
  "validate s = Ok u \<longleftrightarrow>
     1 \<le> sint (defaultPageSize s) \<and> 1 \<le> sint (maxPageSize s)
     \<and> (\<forall>f \<in> set (defaultOrder s @ tieBreakerFields s).
          \<exists>fd. map_of (schemaFields s) (Path f) = Some fd \<and> \<not> DisableOrdering fd)
     \<and> (\<forall>(p, fd) \<in> set (schemaFields s). \<not> DisableOrdering fd \<longrightarrow>
          Codec fd \<noteq> None \<and> GetValue fd \<noteq> None \<and> Column fd \<noteq> None)"
  by (auto simp: validate_def go_simps validate_order_Ok validate_fields_Ok word_sless_alt)

lemma NewSchema_Ok_valid:
  assumes "NewSchema rt fs opts = Ok s"
  shows "valid_schema s" "resourceType s = rt" "schemaFields s = fs"
proof -
  obtain s0 where s0: "validate s0 = Ok ()" "resourceType s0 = rt" "schemaFields s0 = fs"
      "s = s0\<lparr>cachedCodecs := buildCodecs s0, cachedAllowedFields := sorted_keys fs\<rparr>"
    using assms by (auto simp: NewSchema_def Let_def split: outcome.splits)
  then show "resourceType s = rt" "schemaFields s = fs" by simp_all
  from s0(1) have v: "\<forall>f \<in> set (defaultOrder s0 @ tieBreakerFields s0).
      \<exists>fd. map_of fs (Path f) = Some fd \<and> \<not> DisableOrdering fd"
    "\<forall>(p, fd) \<in> set fs. \<not> DisableOrdering fd \<longrightarrow>
       Codec fd \<noteq> None \<and> GetValue fd \<noteq> None \<and> Column fd \<noteq> None"
    "1 \<le> sint (defaultPageSize s0)" "1 \<le> sint (maxPageSize s0)"
    using s0(3) by (simp_all add: validate_Ok_iff)
  have "\<forall>f \<in> set (defaultOrder s0 @ tieBreakerFields s0). orderable s (Path f)"
    using v(1,2) s0(3,4) by (fastforce simp: orderable_def dest: map_of_SomeD)
  with v s0 show "valid_schema s"
    by (simp add: valid_schema_def buildCodecs_def)
qed

lemma orderableD:
  assumes "orderable s p"
  obtains fd c g col where "map_of (schemaFields s) p = Some fd" "Codec fd = Some c"
    "GetValue fd = Some g" "Column fd = Some col" "\<not> DisableOrdering fd"
  using assms by (auto simp: orderable_def split: option.splits)

lemma orderable_iff:
  assumes "valid_schema s"
  shows "orderable s p \<longleftrightarrow>
    (\<exists>fd. map_of (schemaFields s) p = Some fd \<and> \<not> DisableOrdering fd)"
  using assms by (fastforce simp: orderable_def valid_schema_def dest: map_of_SomeD split: option.splits)

lemma orderable_codec:
  assumes "valid_schema s" "orderable s p"
  obtains c fd where "cachedCodecs s p = Some c"
    "map_of (schemaFields s) p = Some fd" "Codec fd = Some c"
  using assms(2) by (rule orderableD) (use assms(1) that in \<open>auto simp: valid_schema_def buildCodecs_def\<close>)

section \<open>The effective ordering\<close>

lemma check_client_field_Ok:
  "valid_schema s \<Longrightarrow> check_client_field s f = Ok u \<longleftrightarrow> orderable s (Path f)"
  by (auto simp: check_client_field_def orderable_iff split: option.splits)

lemma check_client_field_not_Panic [simp]: "check_client_field s f \<noteq> Panic"
  by (simp add: check_client_field_def split: option.splits)

lemma check_client_field_Err:
  "check_client_field s f = Err e \<Longrightarrow> \<exists>r. e = invalid_order_by r"
  by (auto simp: check_client_field_def NewFieldError_def split: option.splits if_splits)

lemma effectiveOrderBy_not_Panic [simp]: "effectiveOrderBy uni s str \<noteq> Panic"
  by (simp add: effectiveOrderBy_def Let_def go_simps map_out_not_Panic)

lemma effectiveOrderBy_Err:
  "effectiveOrderBy uni s str = Err e \<Longrightarrow> \<exists>r. e = invalid_order_by r"
  by (auto simp: effectiveOrderBy_def Let_def go_simps map_out_Err_iff
      dest: ParseOrderBy_Err check_client_field_Err)

lemma effectiveOrderBy_Ok:
  assumes "valid_schema s" "effectiveOrderBy uni s str = Ok ob"
  obtains po where "ParseOrderBy uni str = Ok po"
    "\<forall>f \<in> set (Fields po). orderable s (Path f)"
    "Fields ob = AppendUniqueFields (if Fields po = [] then defaultOrder s else Fields po)
                   (tieBreakerFields s)"
proof -
  obtain po us where po: "ParseOrderBy uni str = Ok po"
      "map_out (check_client_field s) (Fields po) = Ok us"
      "ob = \<lparr>Fields = AppendUniqueFields (if Fields po = [] then defaultOrder s else Fields po)
                        (tieBreakerFields s)\<rparr>"
    using assms(2) by (auto simp: effectiveOrderBy_def Let_def go_simps)
  have "\<forall>f \<in> set (Fields po). orderable s (Path f)"
    using po(2) unfolding map_out_Ok_iff
    by (induction rule: list_all2_induct) (simp_all add: check_client_field_Ok [OF assms(1)])
  with po that show ?thesis by simp
qed

lemma effectiveOrderBy_orderable:
  assumes "valid_schema s" "effectiveOrderBy uni s str = Ok ob" "f \<in> set (Fields ob)"
  shows "orderable s (Path f)"
proof -
  obtain po where po: "ParseOrderBy uni str = Ok po" "\<forall>f \<in> set (Fields po). orderable s (Path f)"
    "Fields ob = AppendUniqueFields (if Fields po = [] then defaultOrder s else Fields po)
                   (tieBreakerFields s)"
    using assms(1,2) by (rule effectiveOrderBy_Ok)
  then have "f \<in> set (if Fields po = [] then defaultOrder s else Fields po)
      \<union> set (tieBreakerFields s)"
    using AppendUniqueFields_subset assms(3) by (metis subsetD)
  with po(2) assms(1) show ?thesis
    by (auto simp: valid_schema_def split: if_splits)
qed

section \<open>Cursor values\<close>

definition codecs_safe :: "'m schema \<Rightarrow> bool" where
  "codecs_safe s \<longleftrightarrow> (\<forall>p c v. cachedCodecs s p = Some c \<longrightarrow> Decode c v \<noteq> Panic)"

lemma decode_cursors_Ok:
  "decode_cursors s vts = Ok vs \<longleftrightarrow>
   list_all2 (\<lambda>(v, tf) x. \<exists>fd c. map_of (schemaFields s) (TokField tf) = Some fd
                \<and> Codec fd = Some c \<and> Decode c v = Ok x) vts vs"
proof (induction s vts arbitrary: vs rule: decode_cursors.induct)
  case (2 s v tf rest)
  then show ?case
    by (cases vs) (auto simp: go_simps split: option.splits)
qed auto

lemma decode_cursors_not_Panic:
  assumes "valid_schema s" "codecs_safe s" "\<forall>(v, tf) \<in> set vts. orderable s (TokField tf)"
  shows "decode_cursors s vts \<noteq> Panic"
  using assms
proof (induction s vts rule: decode_cursors.induct)
  case (2 s v tf rest)
  obtain c fd where c: "cachedCodecs s (TokField tf) = Some c"
      "map_of (schemaFields s) (TokField tf) = Some fd" "Codec fd = Some c"
    using orderable_codec [OF 2(2), of "TokField tf"] 2(4) by auto
  then have "Decode c v \<noteq> Panic" using 2(3) by (auto simp: codecs_safe_def)
  with c 2 show ?case by (auto simp: go_simps)
qed simp

lemma no_mismatch_iff:
  "length ts = length fs \<Longrightarrow>
   (\<forall>p \<in> set (zip ts fs). \<not> order_mismatch p) \<longleftrightarrow>
   ts = map (\<lambda>f. \<lparr>TokField = Path f, TokDesc = (Direction f = Desc)\<rparr>) fs"
proof (induction ts fs rule: list_induct2)
  case (Cons t ts f fs)
  then show ?case by (cases t) (auto simp: order_mismatch_def)
qed simp

lemma decodeCursorValues_Some:
  assumes "OrderFields t \<noteq> []" "decodeCursorValues s (Some t) ob = Ok vs"
  shows "OrderFields t = token_orders ob" "length (CursorValues t) = length (Fields ob)"
    "decode_cursors s (zip (CursorValues t) (OrderFields t)) = Ok vs"
proof -
  have len: "length (CursorValues t) = length (OrderFields t)"
      "length (OrderFields t) = length (Fields ob)"
    and m: "\<forall>p \<in> set (zip (OrderFields t) (Fields ob)). \<not> order_mismatch p"
    and d: "decode_cursors s (zip (CursorValues t) (OrderFields t)) = Ok vs"
    using assms by (auto simp: decodeCursorValues_def split: if_splits)
  from len show "length (CursorValues t) = length (Fields ob)" by simp
  from m show "OrderFields t = token_orders ob"
    unfolding no_mismatch_iff [OF len(2)] token_orders_def .
  show "decode_cursors s (zip (CursorValues t) (OrderFields t)) = Ok vs" by (rule d)
qed

lemma decodeCursorValues_not_Panic:
  assumes "valid_schema s" "codecs_safe s" "\<forall>f \<in> set (Fields ob). orderable s (Path f)"
  shows "decodeCursorValues s tok ob \<noteq> Panic"
proof
  assume p: "decodeCursorValues s tok ob = Panic"
  then obtain t where t: "tok = Some t"
      "length (OrderFields t) = length (Fields ob)"
      "\<forall>p \<in> set (zip (OrderFields t) (Fields ob)). \<not> order_mismatch p"
      "decode_cursors s (zip (CursorValues t) (OrderFields t)) = Panic"
    by (auto simp: decodeCursorValues_def split: option.splits if_splits)
  from t(3) have "OrderFields t = token_orders ob"
    unfolding no_mismatch_iff [OF t(2)] token_orders_def .
  then have "\<forall>(v, tf) \<in> set (zip (CursorValues t) (OrderFields t)). orderable s (TokField tf)"
    using assms(3) by (auto simp: token_orders_def dest!: set_zip_rightD)
  with t(4) assms(1,2) show False using decode_cursors_not_Panic by blast
qed

text \<open>The cursor a row leaves behind: what its codec reads back from the token.\<close>

definition cursor_of :: "'m schema \<Rightarrow> 'm \<Rightarrow> string \<Rightarrow> gval \<Rightarrow> bool" where
  "cursor_of s row p v \<longleftrightarrow>
     (case map_of (schemaFields s) p of
        None \<Rightarrow> False
      | Some fd \<Rightarrow>
          (case (GetValue fd, Codec fd) of
             (Some g, Some c) \<Rightarrow>
               (case Encode c (g row) of Ok str \<Rightarrow> Decode c str = Ok v | _ \<Rightarrow> False)
           | _ \<Rightarrow> False))"

lemma cursor_roundtrip:
  assumes v: "valid_schema s"
    and o: "\<forall>f \<in> set ofs. orderable s (Path f)"
    and c: "\<forall>f \<in> set ofs. \<exists>v. cursor_of s row (Path f) v"
  shows "\<exists>gs ss vs. extract_values s row ofs = Ok gs
    \<and> encode_cursors (cachedCodecs s) i (zip gs ofs) = Ok ss
    \<and> decode_cursors s
        (zip ss (map (\<lambda>f. \<lparr>TokField = Path f, TokDesc = (Direction f = Desc)\<rparr>) ofs)) = Ok vs
    \<and> length gs = length ofs \<and> length ss = length ofs
    \<and> list_all2 (\<lambda>f v. cursor_of s row (Path f) v) ofs vs"
  using o c
proof (induction ofs arbitrary: i)
  case (Cons f ofs)
  obtain gs ss vs where ih: "extract_values s row ofs = Ok gs"
      "encode_cursors (cachedCodecs s) (Suc i) (zip gs ofs) = Ok ss"
      "decode_cursors s
        (zip ss (map (\<lambda>f. \<lparr>TokField = Path f, TokDesc = (Direction f = Desc)\<rparr>) ofs)) = Ok vs"
      "length gs = length ofs" "length ss = length ofs"
      "list_all2 (\<lambda>f v. cursor_of s row (Path f) v) ofs vs"
    using Cons.IH [of "Suc i"] Cons.prems by auto
  from Cons.prems obtain v where cv: "cursor_of s row (Path f) v" by auto
  then obtain fd g cd str where fd: "map_of (schemaFields s) (Path f) = Some fd"
      "GetValue fd = Some g" "Codec fd = Some cd" "Encode cd (g row) = Ok str" "Decode cd str = Ok v"
    by (auto simp: cursor_of_def split: option.splits outcome.splits)
  then have "cachedCodecs s (Path f) = Some cd"
    using v by (simp add: valid_schema_def buildCodecs_def)
  with fd ih cv show ?case
    by (intro exI [of _ "g row # gs"] exI [of _ "str # ss"] exI [of _ "v # vs"]) simp
qed simp

section \<open>Properties\<close>

text \<open>
  C34: \<open>NewSchema\<close> returns only well-formed schemas and panics on every other configuration: page
  sizes are at least 1, every default-order and tie-breaker field is a declared orderable field,
  every orderable field has a codec, a getter and a column, and the caches agree with the fields.
\<close>

theorem NewSchema_valid:
  assumes "NewSchema rt fs opts = Ok s"
  shows "1 \<le> sint (defaultPageSize s) \<and> 1 \<le> sint (maxPageSize s)
    \<and> (\<forall>f \<in> set (defaultOrder s) \<union> set (tieBreakerFields s). orderable s (Path f))
    \<and> (\<forall>p fd. map_of fs p = Some fd \<and> \<not> DisableOrdering fd \<longrightarrow> orderable s p)
    \<and> cachedCodecs s = (\<lambda>p. Option.bind (map_of fs p) Codec)
    \<and> cachedAllowedFields s = sort (map fst fs)"
proof -
  note v = NewSchema_Ok_valid [OF assms]
  have "orderable s p" if "map_of fs p = Some fd" "\<not> DisableOrdering fd" for p fd
    using that v(3) by (simp add: orderable_iff [OF v(1)])
  with v show ?thesis
    by (auto simp: valid_schema_def buildCodecs_def sorted_keys_def)
qed

definition id_field :: "string field" where
  "id_field = \<lparr>Column = Some \<lparr>ExprType = TyString, IsColumn = True, Ident = ''id''\<rparr>,
     Codec = Some StringCodec, DisableOrdering = False, GetValue = Some VString\<rparr>"

definition sample_schema :: "string schema" where
  "sample_schema = \<lparr>resourceType = ''Book'', schemaFields = [(''id'', id_field)],
     defaultPageSize = 50, maxPageSize = 2, defaultOrder = [],
     tieBreakerFields = [\<lparr>Path = ''id'', Direction = Asc\<rparr>],
     cachedCodecs = [''id'' \<mapsto> StringCodec], cachedAllowedFields = [''id'']\<rparr>"

lemma NewSchema_sample:
  "NewSchema ''Book'' [(''id'', id_field)] [WithMaxPageSize 2, WithTieBreaker ''id'' Asc]
     = Ok sample_schema"
  by (auto simp: NewSchema_def WithMaxPageSize_def WithTieBreaker_def Let_def validate_def
      id_field_def sorted_keys_def sample_schema_def buildCodecs_def word_sless_alt)

theorem NewSchema_valid_witness:
  "cachedAllowedFields sample_schema = [''id''] \<and> orderable sample_schema ''id''"
  using NewSchema_valid [OF NewSchema_sample] by (auto simp: sample_schema_def)

text \<open>
  the effective ordering of a request starts with the client's fields (or the default order
  when there are none), contains every tie-breaker's path, uses only orderable fields, and names no
  field twice unless the default order does.
\<close>

theorem effectiveOrderBy_spec:
  assumes "valid_schema s" "effectiveOrderBy uni s str = Ok ob"
  shows "\<exists>po. ParseOrderBy uni str = Ok po
    \<and> prefix (if Fields po = [] then defaultOrder s else Fields po) (Fields ob)
    \<and> Path ` set (tieBreakerFields s) \<subseteq> Path ` set (Fields ob)
    \<and> (\<forall>f \<in> set (Fields ob). orderable s (Path f))
    \<and> (Fields po \<noteq> [] \<or> distinct (map Path (defaultOrder s)) \<longrightarrow> distinct (map Path (Fields ob)))"
proof -
  obtain po where po: "ParseOrderBy uni str = Ok po"
    "\<forall>f \<in> set (Fields po). orderable s (Path f)"
    "Fields ob = AppendUniqueFields (if Fields po = [] then defaultOrder s else Fields po)
                   (tieBreakerFields s)"
    using assms by (rule effectiveOrderBy_Ok)
  have "\<forall>f \<in> set (Fields ob). orderable s (Path f)"
    using effectiveOrderBy_orderable [OF assms] by blast
  then show ?thesis
    using po ParseOrderBy_Ok(1) [OF po(1)]
    by (intro exI [of _ po])
      (auto simp: AppendUniqueFields_prefix AppendUniqueFields_paths
        intro!: AppendUniqueFields_distinct)
qed

theorem effectiveOrderBy_spec_witness:
  "\<exists>po. ParseOrderBy (\<lambda>_. False) [] = Ok po
    \<and> prefix (if Fields po = [] then defaultOrder sample_schema else Fields po)
        [\<lparr>Path = ''id'', Direction = Asc\<rparr>]"
proof -
  have "valid_schema sample_schema" by (rule NewSchema_Ok_valid [OF NewSchema_sample])
  moreover have "effectiveOrderBy (\<lambda>_. False) sample_schema []
      = Ok \<lparr>Fields = [\<lparr>Path = ''id'', Direction = Asc\<rparr>]\<rparr>"
    by (simp add: effectiveOrderBy_def ParseOrderBy_def sample_schema_def)
  ultimately show ?thesis using effectiveOrderBy_spec by fastforce
qed

end
