(* ===== verification/Query_Plan.thy ===== *)
theory Query_Plan
  imports Query_Schema
begin

text \<open>
  \<^verbatim>\<open>pkg/aip/plan.go\<close> and \<^verbatim>\<open>pkg/aip/jet/plan.go\<close>: the parameters of a list
  request and the validated plan made of them. What the code reads from its surroundings is
  \<open>jet_env\<close>: the wall clock, the token environment and the Unicode tables.
\<close>

record params =
  PageSize :: int32
  PageToken :: string
  FilterStr :: string
  OrderByStr :: string

record plan =
  planPageSize :: int32
  planFilter :: string
  planOrderBy :: order_by
  planCursorValues :: "gval list"

record jet_env =
  Tok :: token_env
  Now :: int
  Uni :: "rune \<Rightarrow> bool"

definition clampPageSize :: "'m schema \<Rightarrow> int32 \<Rightarrow> int32" where
  "clampPageSize s n =
     (let pageSize = (if n \<le>s 0 then defaultPageSize s else n)
      in if maxPageSize s <s pageSize then maxPageSize s else pageSize)"

definition token_verdict :: "go_error \<Rightarrow> go_error" where
  "token_verdict err =
     (if errors_is err ErrFilterMismatch then err else wrapAIPError err ErrInvalidPageToken)"

definition BuildPlan :: "jet_env \<Rightarrow> 'm schema \<Rightarrow> params \<Rightarrow> (go_error, plan) outcome" where
  "BuildPlan env s ps =
     (let pageSize = clampPageSize s (PageSize ps) in
      and_then (map_err (\<lambda>e. wrapAIPError e ErrInvalidOrderBy)
        (effectiveOrderBy (Uni env) s (OrderByStr ps))) (\<lambda>ob.
      and_then (map_err (\<lambda>e. wrapAIPError e ErrInvalidPageToken)
        (DecodeToken (Tok env) (PageToken ps))) (\<lambda>tok.
      and_then (map_err token_verdict
        (ValidateToken (Tok env) (Now env) tok (resourceType s) (FilterStr ps))) (\<lambda>_.
      and_then (map_err (\<lambda>e. wrapAIPError e ErrInvalidPageToken)
        (decodeCursorValues s tok ob)) (\<lambda>vals.
      Ok \<lparr>planPageSize = pageSize, planFilter = FilterStr ps, planOrderBy = ob,
          planCursorValues = vals\<rparr>)))))"

section \<open>Facts\<close>

lemma token_verdict_class:
  "errors_is (token_verdict e) ErrInvalidPageToken \<or> errors_is (token_verdict e) ErrFilterMismatch"
  by (simp add: token_verdict_def)

lemma clampPageSize_sint:
  "sint (clampPageSize s n)
     = min (if sint n \<le> 0 then sint (defaultPageSize s) else sint n) (sint (maxPageSize s))"
  by (simp add: clampPageSize_def Let_def word_sless_alt word_sle_eq min_def)

lemma clampPageSize_bounds:
  "valid_schema s \<Longrightarrow> 1 \<le> sint (clampPageSize s n) \<and> sint (clampPageSize s n) \<le> sint (maxPageSize s)"
  by (auto simp: clampPageSize_sint valid_schema_def)

lemma BuildPlan_Ok_iff:
  "BuildPlan env s ps = Ok plan \<longleftrightarrow>
     (\<exists>ob tok vals. effectiveOrderBy (Uni env) s (OrderByStr ps) = Ok ob
        \<and> DecodeToken (Tok env) (PageToken ps) = Ok tok
        \<and> ValidateToken (Tok env) (Now env) tok (resourceType s) (FilterStr ps) = Ok ()
        \<and> decodeCursorValues s tok ob = Ok vals
        \<and> plan = \<lparr>planPageSize = clampPageSize s (PageSize ps), planFilter = FilterStr ps,
                  planOrderBy = ob, planCursorValues = vals\<rparr>)"
  by (auto simp: BuildPlan_def Let_def go_simps)

lemma BuildPlan_not_Panic:
  assumes "valid_schema s" "codecs_safe s"
  shows "BuildPlan env s ps \<noteq> Panic"
  using decodeCursorValues_not_Panic [OF assms] effectiveOrderBy_orderable [OF assms(1)]
  by (auto simp: BuildPlan_def Let_def go_simps)

lemma BuildPlan_first_page:
  assumes "effectiveOrderBy (Uni env) s (OrderByStr ps) = Ok ob" "PageToken ps = []"
  shows "BuildPlan env s ps = Ok \<lparr>planPageSize = clampPageSize s (PageSize ps),
     planFilter = FilterStr ps, planOrderBy = ob, planCursorValues = []\<rparr>"
  using assms by (simp add: BuildPlan_Ok_iff DecodeToken_def ValidateToken_def decodeCursorValues_def)

text \<open>The plan of the request that carries the token of a row: its cursor values are the row's.\<close>

lemma BuildPlan_next_page:
  assumes v: "valid_schema s"
    and ob: "effectiveOrderBy (Uni env) s (OrderByStr ps) = Ok ob" "Fields ob \<noteq> []"
    and c: "\<forall>f \<in> set (Fields ob). \<exists>v. cursor_of s row (Path f) v"
    and now: "0 \<le> Now env" "Now env < 2 ^ 63"
    and json: "\<And>gs ss. extractCursorValues s row ob = Ok gs \<Longrightarrow>
        encode_cursors (cachedCodecs s) 0 (zip gs (Fields ob)) = Ok ss \<Longrightarrow>
        json_faithful (Tok env)
          (new_token (Tok env) (Now env) (resourceType s) ss ob (FilterStr ps))"
  obtains gs tok vs where "extractCursorValues s row ob = Ok gs"
    "EncodeToken (Tok env) (Now env) (resourceType s) gs ob (FilterStr ps) (cachedCodecs s) = Ok tok"
    "tok \<noteq> []"
    "list_all2 (\<lambda>f v. cursor_of s row (Path f) v) (Fields ob) vs"
    "BuildPlan env s (ps\<lparr>PageToken := tok\<rparr>) = Ok \<lparr>planPageSize = clampPageSize s (PageSize ps),
       planFilter = FilterStr ps, planOrderBy = ob, planCursorValues = vs\<rparr>"
proof -
  have o: "\<forall>f \<in> set (Fields ob). orderable s (Path f)"
    using effectiveOrderBy_orderable [OF v ob(1)] by blast
  obtain gs ss vs where x: "extract_values s row (Fields ob) = Ok gs"
      "encode_cursors (cachedCodecs s) 0 (zip gs (Fields ob)) = Ok ss"
      "decode_cursors s (zip ss (token_orders ob)) = Ok vs"
      "length gs = length (Fields ob)" "length ss = length (Fields ob)"
      "list_all2 (\<lambda>f v. cursor_of s row (Path f) v) (Fields ob) vs"
    using cursor_roundtrip [OF v o c, of 0] unfolding token_orders_def by blast
  let ?t = "new_token (Tok env) (Now env) (resourceType s) ss ob (FilterStr ps)"
  have j: "json_faithful (Tok env) ?t"
    using json x(1,2) by (simp add: extractCursorValues_def)
  obtain tok where tok:
      "EncodeToken (Tok env) (Now env) (resourceType s) gs ob (FilterStr ps) (cachedCodecs s) = Ok tok"
      "tok \<noteq> []" "DecodeToken (Tok env) tok = Ok (Some ?t)"
    using DecodeToken_EncodeToken [OF x(4,2) j] by blast
  have val: "ValidateToken (Tok env) (Now env) (Some ?t) (resourceType s) (FilterStr ps) = Ok ()"
    using now by (simp add: ValidateToken_Some_Ok new_token_def sint_of_int64 TokenMaxAge_def)
  have len: "length (token_orders ob) = length (Fields ob)" by (simp add: token_orders_def)
  then have m: "\<not> (\<exists>p \<in> set (zip (token_orders ob) (Fields ob)). order_mismatch p)"
    using no_mismatch_iff [OF len] by (simp add: token_orders_def)
  have ne: "token_orders ob \<noteq> []" using ob(2) by (simp add: token_orders_def)
  have "decodeCursorValues s (Some ?t) ob = Ok vs"
    using m ne x(3,5) len by (simp add: decodeCursorValues_def new_token_def)
  with ob(1) tok(3) val have
    "BuildPlan env s (ps\<lparr>PageToken := tok\<rparr>) = Ok \<lparr>planPageSize = clampPageSize s (PageSize ps),
       planFilter = FilterStr ps, planOrderBy = ob, planCursorValues = vs\<rparr>"
    unfolding BuildPlan_Ok_iff by auto
  with x(1,6) tok(1,2) that show ?thesis by (simp add: extractCursorValues_def)
qed

section \<open>Properties\<close>

text \<open>
  C31: the page size of a plan is the requested one, or the default when that is zero or negative,
  never above the schema's maximum; on a schema from \<open>NewSchema\<close> it lies between 1 and the maximum.
\<close>

theorem BuildPlan_page_size:
  assumes "NewSchema rt fs opts = Ok s" "BuildPlan env s ps = Ok plan"
  shows "sint (planPageSize plan) = min (if sint (PageSize ps) \<le> 0 then sint (defaultPageSize s)
           else sint (PageSize ps)) (sint (maxPageSize s))
    \<and> 1 \<le> sint (planPageSize plan) \<and> sint (planPageSize plan) \<le> sint (maxPageSize s)"
proof -
  have "planPageSize plan = clampPageSize s (PageSize ps)"
    using assms(2) unfolding BuildPlan_Ok_iff by auto
  with clampPageSize_bounds [OF NewSchema_Ok_valid(1) [OF assms(1)]] show ?thesis
    by (simp add: clampPageSize_sint)
qed

definition sample_jet_env :: jet_env where
  "sample_jet_env = \<lparr>Tok = sample_env, Now = 5, Uni = (\<lambda>_. False)\<rparr>"

definition id_order :: order_by where
  "id_order = \<lparr>Fields = [\<lparr>Path = ''id'', Direction = Asc\<rparr>]\<rparr>"

definition sample_params :: params where
  "sample_params = \<lparr>PageSize = 7, PageToken = [], FilterStr = [], OrderByStr = []\<rparr>"

lemma sample_order: "effectiveOrderBy (Uni sample_jet_env) sample_schema [] = Ok id_order"
  by (simp add: effectiveOrderBy_def ParseOrderBy_def sample_schema_def id_order_def)

theorem BuildPlan_page_size_witness:
  "\<exists>plan. BuildPlan sample_jet_env sample_schema sample_params = Ok plan \<and> sint (planPageSize plan) = 2"
proof -
  have "BuildPlan sample_jet_env sample_schema sample_params = Ok
      \<lparr>planPageSize = clampPageSize sample_schema 7, planFilter = [], planOrderBy = id_order,
       planCursorValues = []\<rparr>" (is "_ = Ok ?p")
    using BuildPlan_first_page [of sample_jet_env sample_schema sample_params] sample_order
    by (simp add: sample_params_def)
  moreover from BuildPlan_page_size [OF NewSchema_sample this] have "sint (planPageSize ?p) = 2"
    by (simp add: sample_params_def sample_schema_def)
  ultimately show ?thesis by blast
qed



end
