(* ===== verification/Keyset.thy ===== *)
theory Keyset
  imports Query_Plan
begin

text \<open>
  \<^verbatim>\<open>pkg/aip/jet/execute.go\<close>, the keyset condition: the \<^verbatim>\<open>WHERE\<close> clause that
  skips the rows already seen, as a row comparison for a uniform direction and as an OR-chain for
  mixed directions, and its meaning: exactly the rows strictly after the cursor.
\<close>

section \<open>Literals and comparisons\<close>

definition toLiteral :: "go_std \<Rightarrow> gval \<Rightarrow> (go_error, sql_lit) outcome" where
  "toLiteral std v =
     (case v of
        VString s \<Rightarrow> Ok (LString s)
      | VBool b \<Rightarrow> Ok (LBool b)
      | VInt32 i \<Rightarrow> Ok (LInt64 (scast i))
      | VInt64 i \<Rightarrow> Ok (LInt64 i)
      | VFloat32 f \<Rightarrow> Ok (LFloat (widen32 std f))
      | VFloat64 f \<Rightarrow> Ok (LFloat f)
      | VTime t \<Rightarrow> Ok (LTimestampz t)
      | VOther _ \<Rightarrow> Err (query_error LiteralNotImplemented []))"

text \<open>A type assertion on a column, which fails on the nil interface.\<close>

definition col_is :: "sql_expr option \<Rightarrow> expr_type \<Rightarrow> bool" where
  "col_is col ty \<longleftrightarrow> (case col of None \<Rightarrow> False | Some e \<Rightarrow> ExprType e = ty)"

definition cmp_if :: "cmp_op \<Rightarrow> sql_expr option \<Rightarrow> expr_type \<Rightarrow> sql_lit \<Rightarrow> (go_error, bexp) outcome"
where
  "cmp_if op col ty l =
     (if col_is col ty then Ok (Cmp op (the col) l) else Err (query_error ColumnTypeMismatch []))"

definition equalityExpr :: "go_std \<Rightarrow> sql_expr option \<Rightarrow> gval \<Rightarrow> (go_error, bexp) outcome" where
  "equalityExpr std col v =
     (case v of
        VString s \<Rightarrow> cmp_if EQ col TyString (LString s)
      | VBool b \<Rightarrow> cmp_if EQ col TyBool (LBool b)
      | VInt32 i \<Rightarrow> cmp_if EQ col TyInteger (LInt64 (scast i))
      | VInt64 i \<Rightarrow> cmp_if EQ col TyInteger (LInt64 i)
      | VFloat32 f \<Rightarrow> cmp_if EQ col TyFloat (LFloat (widen32 std f))
      | VFloat64 f \<Rightarrow> cmp_if EQ col TyFloat (LFloat f)
      | VTime t \<Rightarrow>
          if col_is col TyTimestampz then Ok (Cmp EQ (the col) (LTimestampz t))
          else cmp_if EQ col TyTimestamp (LTimestamp t)
      | VOther _ \<Rightarrow> Err (query_error ComparisonNotImplemented []))"

definition directionExpr ::
  "go_std \<Rightarrow> sql_expr option \<Rightarrow> sort_direction \<Rightarrow> gval \<Rightarrow> (go_error, bexp) outcome" where
  "directionExpr std col dir v =
     (let op = (if dir = Asc then GT else LT) in
      case v of
        VString s \<Rightarrow> cmp_if op col TyString (LString s)
      | VInt32 i \<Rightarrow> cmp_if op col TyInteger (LInt64 (scast i))
      | VInt64 i \<Rightarrow> cmp_if op col TyInteger (LInt64 i)
      | VFloat32 f \<Rightarrow> cmp_if op col TyFloat (LFloat (widen32 std f))
      | VFloat64 f \<Rightarrow> cmp_if op col TyFloat (LFloat f)
      | VTime t \<Rightarrow>
          if col_is col TyTimestampz then Ok (Cmp op (the col) (LTimestampz t))
          else cmp_if op col TyTimestamp (LTimestamp t)
      | _ \<Rightarrow> Err (query_error ComparisonNotImplemented []))"

section \<open>The keyset condition\<close>

definition col_of :: "'m flds \<Rightarrow> order_field \<Rightarrow> sql_expr option" where
  "col_of fs f = Option.bind (map_of fs (Path f)) Column"

definition at_field :: "order_field \<Rightarrow> (go_error, 'a) outcome \<Rightarrow> (go_error, 'a) outcome" where
  "at_field f m = map_err (\<lambda>e. query_error (KeysetField (Path f)) [e]) m"

definition buildTupleComparison ::
  "go_std \<Rightarrow> order_by \<Rightarrow> gval list \<Rightarrow> 'm flds \<Rightarrow> (go_error, bexp) outcome" where
  "buildTupleComparison std order vals fs =
     (let cols = map (col_of fs) (Fields order) in
      and_then (map_out (\<lambda>(f, v). at_field f (toLiteral std v)) (zip (Fields order) vals)) (\<lambda>lits.
      if Direction (Fields order ! 0) = Desc then Ok (RowCmp LT cols lits)
      else Ok (RowCmp GT cols lits)))"

text \<open>The AND-chain for position \<open>i\<close>: equal before it, beyond the cursor at it.\<close>

definition fallback_chain ::
  "go_std \<Rightarrow> 'm flds \<Rightarrow> (order_field \<times> gval) list \<Rightarrow> nat \<Rightarrow> (go_error, bexp) outcome" where
  "fallback_chain std fs ps i =
     and_then (map_out (\<lambda>(f, v). at_field f (equalityExpr std (col_of fs f) v)) (take i ps)) (\<lambda>chain.
     and_then (at_field (fst (ps ! i))
       (directionExpr std (col_of fs (fst (ps ! i))) (Direction (fst (ps ! i))) (snd (ps ! i)))) (\<lambda>cmp.
     Ok (AndL (chain @ [cmp]))))"

definition buildLexicographicFallback ::
  "go_std \<Rightarrow> order_by \<Rightarrow> gval list \<Rightarrow> 'm flds \<Rightarrow> (go_error, bexp) outcome" where
  "buildLexicographicFallback std order vals fs =
     and_then (map_out (fallback_chain std fs (zip (Fields order) vals))
       [0..<length (Fields order)]) (\<lambda>ors. Ok (OrL ors))"

definition buildKeysetCondition ::
  "go_std \<Rightarrow> order_by \<Rightarrow> gval list \<Rightarrow> 'm flds \<Rightarrow> (go_error, bexp) outcome" where
  "buildKeysetCondition std order vals fs =
     (if vals = [] then Ok NilExp
      else if Fields order = [] then Err (query_error NoOrderFields [])
      else if length (Fields order) \<noteq> length vals then Err (query_error CursorValueLengthMismatch [])
      else if IsUniformDirection order then buildTupleComparison std order vals fs
      else buildLexicographicFallback std order vals fs)"

definition combineConditions :: "bexp list \<Rightarrow> bexp" where
  "combineConditions conditions =
     (let combined = filter (\<lambda>c. c \<noteq> NilExp) conditions
      in if combined = [] then NilExp else AndL combined)"

section \<open>The specification: strictly after the cursor\<close>

definition beyond :: "sort_direction \<Rightarrow> 'v::linorder \<Rightarrow> 'v \<Rightarrow> bool" where
  "beyond d x y \<longleftrightarrow> (case d of Asc \<Rightarrow> x > y | Desc \<Rightarrow> x < y)"

fun after :: "sort_direction list \<Rightarrow> 'v::linorder list \<Rightarrow> 'v list \<Rightarrow> bool" where
  "after (d # ds) (x # xs) (y # ys) \<longleftrightarrow> (if x = y then after ds xs ys else beyond d x y)"
| "after _ _ _ \<longleftrightarrow> False"

lemma beyond_irrefl [simp]: "\<not> beyond d x x"
  by (simp add: beyond_def split: sort_direction.splits)

lemma beyond_trans: "beyond d x y \<Longrightarrow> beyond d y z \<Longrightarrow> beyond d x z"
  by (auto simp: beyond_def split: sort_direction.splits)

lemma beyond_linear: "x \<noteq> y \<Longrightarrow> beyond d x y \<or> beyond d y x"
  by (auto simp: beyond_def split: sort_direction.splits)

lemma beyond_asym: "beyond d x y \<Longrightarrow> \<not> beyond d y x"
  by (auto simp: beyond_def split: sort_direction.splits)

lemma after_irrefl [simp]: "\<not> after ds xs xs"
proof (induction ds arbitrary: xs)
  case (Cons d ds)
  then show ?case by (cases xs) auto
qed simp

lemma after_trans: "after ds xs ys \<Longrightarrow> after ds ys zs \<Longrightarrow> after ds xs zs"
proof (induction ds xs ys arbitrary: zs rule: after.induct)
  case (1 d ds x xs y ys)
  then show ?case
    by (cases zs) (auto split: if_splits dest: beyond_trans beyond_asym)
qed auto

lemma after_linear:
  "length xs = length ds \<Longrightarrow> length ys = length ds \<Longrightarrow> xs \<noteq> ys \<Longrightarrow> after ds xs ys \<or> after ds ys xs"
proof (induction ds arbitrary: xs ys)
  case (Cons d ds)
  then obtain x xs' y ys' where e: "xs = x # xs'" "ys = y # ys'"
    by (metis length_Suc_conv)
  with Cons show ?case using beyond_linear [of x y d] by auto
qed auto

text \<open>The position at which two keys part decides.\<close>

lemma after_iff_index:
  "length xs = length ds \<Longrightarrow> length ys = length ds \<Longrightarrow>
   after ds xs ys \<longleftrightarrow> (\<exists>i < length ds. take i xs = take i ys \<and> beyond (ds ! i) (xs ! i) (ys ! i))"
proof (induction ds arbitrary: xs ys)
  case (Cons d ds)
  then obtain x xs' y ys' where e: "xs = x # xs'" "ys = y # ys'"
    by (metis length_Suc_conv)
  show ?case
  proof (cases "x = y")
    case True
    with e Cons show ?thesis by (auto simp: Ex_less_Suc2)
  next
    case False
    with e show ?thesis by (auto simp: Ex_less_Suc2)
  qed
qed simp

section \<open>What the condition selects\<close>

text \<open>The column types a cursor value can be compared with, and its literal.\<close>

fun fits :: "gval \<Rightarrow> expr_type \<Rightarrow> bool" where
  "fits (VString _) ty \<longleftrightarrow> ty = TyString"
| "fits (VBool _) ty \<longleftrightarrow> ty = TyBool"
| "fits (VInt32 _) ty \<longleftrightarrow> ty = TyInteger"
| "fits (VInt64 _) ty \<longleftrightarrow> ty = TyInteger"
| "fits (VFloat32 _) ty \<longleftrightarrow> ty = TyFloat"
| "fits (VFloat64 _) ty \<longleftrightarrow> ty = TyFloat"
| "fits (VTime _) ty \<longleftrightarrow> ty = TyTimestampz"
| "fits (VOther _) ty \<longleftrightarrow> False"

definition is_VBool :: "gval \<Rightarrow> bool" where
  "is_VBool v \<longleftrightarrow> (case v of VBool _ \<Rightarrow> True | _ \<Rightarrow> False)"

definition key_lit :: "go_std \<Rightarrow> gval \<Rightarrow> sql_lit" where
  "key_lit std v = (case toLiteral std v of Ok l \<Rightarrow> l | _ \<Rightarrow> LBool False)"

definition typed_cursor :: "'m flds \<Rightarrow> order_field list \<Rightarrow> gval list \<Rightarrow> bool" where
  "typed_cursor fs ofs vals \<longleftrightarrow>
     list_all2 (\<lambda>f v. case col_of fs f of None \<Rightarrow> False | Some e \<Rightarrow> fits v (ExprType e)) ofs vals"

definition not_null :: "'v sql_row \<Rightarrow> 'm flds \<Rightarrow> order_field list \<Rightarrow> bool" where
  "not_null row fs ofs \<longleftrightarrow> (\<forall>f \<in> set ofs. Option.bind (col_of fs f) (Cell row) \<noteq> None)"

definition row_key :: "'v sql_row \<Rightarrow> 'm flds \<Rightarrow> order_field list \<Rightarrow> 'v list" where
  "row_key row fs ofs = map (\<lambda>f. the (Option.bind (col_of fs f) (Cell row))) ofs"

lemma fits_literal: "fits v ty \<Longrightarrow> toLiteral std v = Ok (key_lit std v)"
  by (cases v) (auto simp: toLiteral_def key_lit_def)

lemma equality_typed:
  "fits v (ExprType e) \<Longrightarrow> equalityExpr std (Some e) v = Ok (Cmp EQ e (key_lit std v))"
  by (cases v) (auto simp: equalityExpr_def cmp_if_def col_is_def key_lit_def toLiteral_def)

lemma direction_typed:
  "fits v (ExprType e) \<Longrightarrow> directionExpr std (Some e) d v =
     (if is_VBool v then Err (query_error ComparisonNotImplemented [])
      else Ok (Cmp (if d = Asc then GT else LT) e (key_lit std v)))"
  by (cases v)
    (auto simp: directionExpr_def cmp_if_def col_is_def key_lit_def toLiteral_def is_VBool_def)

lemma typed_cursor_nth:
  assumes "typed_cursor fs ofs vals" "i < length ofs"
  obtains e where "col_of fs (ofs ! i) = Some e" "fits (vals ! i) (ExprType e)"
  using assms by (auto simp: typed_cursor_def list_all2_conv_all_nth split: option.splits)

lemma typed_cursor_zip:
  assumes "typed_cursor fs ofs vals" "(f, v) \<in> set (zip ofs vals)"
  obtains e where "col_of fs f = Some e" "fits v (ExprType e)"
  using assms by (auto simp: typed_cursor_def list_all2_iff split: option.splits)

lemma typed_cursor_length: "typed_cursor fs ofs vals \<Longrightarrow> length vals = length ofs"
  by (simp add: typed_cursor_def list_all2_lengthD)

lemma tuple_literals:
  assumes "typed_cursor fs ofs vals"
  shows "map_out (\<lambda>(f, v). at_field f (toLiteral std v)) (zip ofs vals) = Ok (map (key_lit std) vals)"
proof -
  have "map_out (\<lambda>(f, v). at_field f (toLiteral std v)) (zip ofs vals)
      = Ok (map (\<lambda>(f, v). key_lit std v) (zip ofs vals))"
    by (rule map_out_map)
      (auto elim!: typed_cursor_zip [OF assms] simp: fits_literal at_field_def)
  also have "map (\<lambda>(f, v). key_lit std v) (zip ofs vals) = map (key_lit std) vals"
    using typed_cursor_length [OF assms] map_snd_zip [of ofs vals]
    by (simp add: case_prod_beta' flip: map_map [of _ snd, unfolded comp_def])
  finally show ?thesis .
qed

lemma row_cmp_after:
  "length xs = length ys \<Longrightarrow>
   row_cmp (if d = Asc then GT else LT) (map Some xs) ys = Some (after (replicate (length ys) d) xs ys)"
  by (induction xs ys rule: list_induct2) (auto simp: beyond_def split: sort_direction.splits)

lemma uniform_replicate:
  assumes "IsUniformDirection ob" "Fields ob \<noteq> []"
  shows "map Direction (Fields ob) = replicate (length (Fields ob)) (Direction (Fields ob ! 0))"
proof -
  obtain d where d: "\<forall>f \<in> set (Fields ob). Direction f = d"
    using assms(1) by (auto simp: IsUniformDirection_iff)
  moreover from assms(2) have "Fields ob ! 0 \<in> set (Fields ob)" by simp
  ultimately have "Direction (Fields ob ! 0) = d" by blast
  with d show ?thesis by (simp add: map_eq_conv map_replicate_const [symmetric])
qed

lemma not_null_cells:
  "not_null row fs ofs \<Longrightarrow>
   map (\<lambda>e. Option.bind e (Cell row)) (map (col_of fs) ofs) = map Some (row_key row fs ofs)"
  by (auto simp: not_null_def row_key_def)

text \<open>The row comparison built for a uniform direction.\<close>

lemma tuple_selects:
  assumes "typed_cursor fs (Fields ob) vals" "Fields ob \<noteq> []" "IsUniformDirection ob"
    and "not_null row fs (Fields ob)"
  shows "\<exists>cond. buildTupleComparison std ob vals fs = Ok cond \<and> cond \<noteq> NilExp
    \<and> (eval3 lit row cond = Some True \<longleftrightarrow>
         after (map Direction (Fields ob)) (row_key row fs (Fields ob))
           (map (lit \<circ> key_lit std) vals))"
proof -
  let ?d = "Direction (Fields ob ! 0)"
  let ?c = "RowCmp (if ?d = Asc then GT else LT) (map (col_of fs) (Fields ob)) (map (key_lit std) vals)"
  have b: "buildTupleComparison std ob vals fs = Ok ?c"
    using tuple_literals [OF assms(1), of std]
    by (cases ?d) (simp_all add: buildTupleComparison_def)
  have len: "length (row_key row fs (Fields ob)) = length (map (lit \<circ> key_lit std) vals)"
    using typed_cursor_length [OF assms(1)] by (simp add: row_key_def)
  have "eval3 lit row ?c = Some (after (map Direction (Fields ob)) (row_key row fs (Fields ob))
      (map (lit \<circ> key_lit std) vals))"
    using row_cmp_after [OF len, of ?d] uniform_replicate [OF assms(3,2)]
      not_null_cells [OF assms(4)] typed_cursor_length [OF assms(1)]
    by (simp only: eval3.simps map_map length_map)
  with b show ?thesis by simp
qed

text \<open>One AND-chain of the OR-chain built for mixed directions.\<close>

lemma fallback_chain_typed:
  assumes t: "typed_cursor fs ofs vals" and i: "i < length ofs" and nb: "\<not> is_VBool (vals ! i)"
  shows "fallback_chain std fs (zip ofs vals) i = Ok (AndL
     (map (\<lambda>(f, v). Cmp EQ (the (col_of fs f)) (key_lit std v)) (take i (zip ofs vals))
      @ [Cmp (if Direction (ofs ! i) = Asc then GT else LT) (the (col_of fs (ofs ! i)))
           (key_lit std (vals ! i))]))"
proof -
  have "map_out (\<lambda>(f, v). at_field f (equalityExpr std (col_of fs f) v)) (take i (zip ofs vals))
      = Ok (map (\<lambda>(f, v). Cmp EQ (the (col_of fs f)) (key_lit std v)) (take i (zip ofs vals)))"
    by (rule map_out_map)
      (auto elim!: typed_cursor_zip [OF t] dest!: in_set_takeD simp: equality_typed at_field_def)
  moreover obtain e where e: "col_of fs (ofs ! i) = Some e" "fits (vals ! i) (ExprType e)"
    using t i by (rule typed_cursor_nth)
  ultimately show ?thesis
    using nb i typed_cursor_length [OF t]
    by (simp add: fallback_chain_def direction_typed at_field_def)
qed

lemma cmp_cell:
  assumes "not_null row fs ofs" "i < length ofs"
  shows "eval3 lit row (Cmp op (the (col_of fs (ofs ! i))) l) = Some True
    \<longleftrightarrow> cmp_holds op (row_key row fs ofs ! i) (lit l)"
proof -
  have "Option.bind (col_of fs (ofs ! i)) (Cell row) \<noteq> None"
    using assms by (simp add: not_null_def)
  then show ?thesis using assms(2) by (cases "col_of fs (ofs ! i)") (auto simp: row_key_def)
qed

lemma chain_holds:
  fixes lit :: "sql_lit \<Rightarrow> 'v::linorder" and row :: "'v sql_row"
  assumes t: "typed_cursor fs ofs vals" and i: "i < length ofs" and n: "not_null row fs ofs"
    and nb: "\<not> is_VBool (vals ! i)" and b: "fallback_chain std fs (zip ofs vals) i = Ok b"
  defines "ks \<equiv> row_key row fs ofs" and "ls \<equiv> map (lit \<circ> key_lit std) vals"
  shows "eval3 lit row b = Some True \<longleftrightarrow>
    take i ks = take i ls \<and> beyond (Direction (ofs ! i)) (ks ! i) (ls ! i)"
proof -
  note len = typed_cursor_length [OF t]
  have "eval3 lit row b = Some True \<longleftrightarrow>
      (\<forall>j < i. eval3 lit row (Cmp EQ (the (col_of fs (ofs ! j))) (key_lit std (vals ! j))) = Some True)
      \<and> eval3 lit row (Cmp (if Direction (ofs ! i) = Asc then GT else LT)
           (the (col_of fs (ofs ! i))) (key_lit std (vals ! i))) = Some True"
    using b i len unfolding fallback_chain_typed [OF t i nb]
    by (auto simp: in_set_conv_nth all_set_conv_all_nth [of "take i _"] ball_Un)
  also have "\<dots> \<longleftrightarrow> (\<forall>j < i. ks ! j = ls ! j) \<and> beyond (Direction (ofs ! i)) (ks ! i) (ls ! i)"
    using i len cmp_cell [OF n, where lit = lit]
    by (auto simp del: eval3.simps simp: ks_def ls_def beyond_def split: sort_direction.splits)
  also have "(\<forall>j < i. ks ! j = ls ! j) \<longleftrightarrow> take i ks = take i ls"
    using i len by (auto simp: list_eq_iff_nth_eq ks_def ls_def row_key_def)
  finally show ?thesis .
qed

lemma fallback_selects:
  assumes t: "typed_cursor fs (Fields ob) vals" and nb: "\<forall>v \<in> set vals. \<not> is_VBool v"
    and n: "not_null row fs (Fields ob)"
  shows "\<exists>cond. buildLexicographicFallback std ob vals fs = Ok cond \<and> cond \<noteq> NilExp
    \<and> (eval3 lit row cond = Some True \<longleftrightarrow>
         after (map Direction (Fields ob)) (row_key row fs (Fields ob))
           (map (lit \<circ> key_lit std) vals))"
proof -
  let ?ofs = "Fields ob"
  let ?chain = "\<lambda>i. fallback_chain std fs (zip ?ofs vals) i"
  note len = typed_cursor_length [OF t]
  have nbi: "\<not> is_VBool (vals ! i)" if "i < length ?ofs" for i using that nb len by simp
  define g where "g i = (case ?chain i of Ok b \<Rightarrow> b | _ \<Rightarrow> NilExp)" for i
  have g: "?chain i = Ok (g i)" if "i < length ?ofs" for i
    using fallback_chain_typed [OF t that nbi [OF that], of std] by (simp add: g_def)
  have "map_out ?chain [0..<length ?ofs] = Ok (map g [0..<length ?ofs])"
    by (rule map_out_map) (simp add: g)
  then have b: "buildLexicographicFallback std ob vals fs = Ok (OrL (map g [0..<length ?ofs]))"
    by (simp add: buildLexicographicFallback_def)
  have "eval3 lit row (OrL (map g [0..<length ?ofs])) = Some True \<longleftrightarrow>
      (\<exists>i < length ?ofs. eval3 lit row (g i) = Some True)"
    by auto
  also have "\<dots> \<longleftrightarrow> after (map Direction ?ofs) (row_key row fs ?ofs) (map (lit \<circ> key_lit std) vals)"
    using len chain_holds [OF t _ n nbi g]
    by (subst after_iff_index) (auto simp: row_key_def)
  finally show ?thesis using b by blast
qed

lemma keyset_selects:
  assumes "typed_cursor fs (Fields ob) vals" "vals \<noteq> []" "not_null row fs (Fields ob)"
    and "IsUniformDirection ob \<or> (\<forall>v \<in> set vals. \<not> is_VBool v)"
  obtains cond where "buildKeysetCondition std ob vals fs = Ok cond" "cond \<noteq> NilExp"
    "eval3 lit row cond = Some True \<longleftrightarrow>
       after (map Direction (Fields ob)) (row_key row fs (Fields ob)) (map (lit \<circ> key_lit std) vals)"
proof -
  have ne: "Fields ob \<noteq> []" "length (Fields ob) = length vals"
    using typed_cursor_length [OF assms(1)] assms(2) by auto
  show ?thesis
  proof (cases "IsUniformDirection ob")
    case True
    then show ?thesis
      using tuple_selects [OF assms(1) ne(1) True assms(3), of std lit] ne assms(2) that
      by (auto simp: buildKeysetCondition_def)
  next
    case False
    then show ?thesis
      using fallback_selects [OF assms(1) _ assms(3), of std lit] assms(2,4) ne that
      by (auto simp: buildKeysetCondition_def)
  qed
qed

lemma equalityExpr_not_Panic [simp]: "equalityExpr std c v \<noteq> Panic"
  by (auto simp: equalityExpr_def cmp_if_def split: gval.splits)

lemma directionExpr_not_Panic [simp]: "directionExpr std c d v \<noteq> Panic"
  by (auto simp: directionExpr_def cmp_if_def Let_def split: gval.splits)

lemma at_field_Panic [simp]: "at_field f m = Panic \<longleftrightarrow> m = Panic"
  by (simp add: at_field_def go_simps)

lemma toLiteral_not_Panic [simp]: "toLiteral std v \<noteq> Panic"
  by (auto simp: toLiteral_def split: gval.splits)

lemma fallback_chain_not_Panic [simp]: "fallback_chain std fs ps i \<noteq> Panic"
  by (auto simp: fallback_chain_def go_simps intro!: map_out_not_Panic split: prod.splits)

lemma fallback_chain_bool:
  assumes t: "typed_cursor fs ofs vals" and i: "i < length ofs" and b: "is_VBool (vals ! i)"
  shows "\<exists>e. fallback_chain std fs (zip ofs vals) i = Err e"
proof -
  have "map_out (\<lambda>(f, v). at_field f (equalityExpr std (col_of fs f) v)) (take i (zip ofs vals))
      = Ok (map (\<lambda>(f, v). Cmp EQ (the (col_of fs f)) (key_lit std v)) (take i (zip ofs vals)))"
    by (rule map_out_map)
      (auto elim!: typed_cursor_zip [OF t] dest!: in_set_takeD simp: equality_typed at_field_def)
  moreover obtain e where e: "col_of fs (ofs ! i) = Some e" "fits (vals ! i) (ExprType e)"
    using t i by (rule typed_cursor_nth)
  ultimately show ?thesis
    using b i typed_cursor_length [OF t]
    by (simp add: fallback_chain_def direction_typed at_field_def)
qed

section \<open>Properties\<close>

text \<open>
  C3: the keyset condition is right: for a cursor whose values fit their columns, on a row with no
  NULL among the order columns, \<open>buildKeysetCondition\<close> returns a condition that selects the row
  exactly when its key comes strictly after the cursor in the requested ordering. This covers
  the row comparison of uniform orderings and the OR-chain of mixed ones (without booleans).
\<close>

theorem keyset_condition_correct:
  assumes "typed_cursor fs (Fields ob) vals" "vals \<noteq> []" "not_null row fs (Fields ob)"
    and "IsUniformDirection ob \<or> (\<forall>v \<in> set vals. \<not> is_VBool v)"
  shows "\<exists>cond. buildKeysetCondition std ob vals fs = Ok cond
    \<and> (selects lit row cond \<longleftrightarrow>
         after (map Direction (Fields ob)) (row_key row fs (Fields ob))
           (map (lit \<circ> key_lit std) vals))"
  using keyset_selects [OF assms, of std lit] unfolding selects_def by metis

definition plain_std :: go_std where
  "plain_std = \<lparr>widen32 = ucast, FormatFloat = (\<lambda>_. []), ParseFloat = (\<lambda>_. None),
     FormatRFC3339Nano = (\<lambda>_. []), ParseRFC3339Nano = (\<lambda>_. None)\<rparr>"

definition int_lit :: "sql_lit \<Rightarrow> int" where
  "int_lit l = (case l of LInt64 i \<Rightarrow> sint i | LBool b \<Rightarrow> (if b then 1 else 0) | _ \<Rightarrow> 0)"

definition int_col :: "string \<Rightarrow> sql_expr" where
  "int_col n = \<lparr>ExprType = TyInteger, IsColumn = True, Ident = n\<rparr>"

definition int_field :: "string \<Rightarrow> unit field" where
  "int_field n = \<lparr>Column = Some (int_col n), Codec = Some Int64Codec, DisableOrdering = False,
     GetValue = None\<rparr>"

definition ab_fields :: "unit flds" where
  "ab_fields = [(''a'', int_field ''a''), (''b'', int_field ''b'')]"

definition ab_order :: order_by where
  "ab_order = \<lparr>Fields = [\<lparr>Path = ''a'', Direction = Asc\<rparr>, \<lparr>Path = ''b'', Direction = Desc\<rparr>]\<rparr>"

definition ab_row :: "int \<Rightarrow> int \<Rightarrow> int sql_row" where
  "ab_row a b = \<lparr>Cell = (\<lambda>e. Some (if Ident e = ''a'' then a else b)), LowerText = Map.empty,
     Elems = Map.empty, Raw = Map.empty\<rparr>"

theorem keyset_condition_correct_witness:
  "\<exists>cond. buildKeysetCondition plain_std ab_order [VInt64 3, VInt32 7] ab_fields = Ok cond
     \<and> selects int_lit (ab_row 3 6) cond \<and> \<not> selects int_lit (ab_row 3 7) cond"
proof -
  have t: "typed_cursor ab_fields (Fields ab_order) [VInt64 3, VInt32 7]"
    by (simp add: typed_cursor_def ab_fields_def ab_order_def col_of_def int_field_def int_col_def)
  have n: "not_null (ab_row x y) ab_fields (Fields ab_order)" for x y
    by (auto simp: not_null_def ab_fields_def ab_order_def col_of_def int_field_def ab_row_def)
  have key: "row_key (ab_row x y) ab_fields (Fields ab_order) = [x, y]" for x y
    by (simp add: row_key_def ab_fields_def ab_order_def col_of_def int_field_def ab_row_def
        int_col_def)
  have nb: "\<forall>v \<in> set [VInt64 3, VInt32 7]. \<not> is_VBool v" by (simp add: is_VBool_def)
  have l: "map (int_lit \<circ> key_lit plain_std) [VInt64 3, VInt32 7] = [3, 7]"
    by (simp add: int_lit_def key_lit_def toLiteral_def)
  have k: "\<exists>cond. buildKeysetCondition plain_std ab_order [VInt64 3, VInt32 7] ab_fields = Ok cond
      \<and> (selects int_lit (ab_row x y) cond \<longleftrightarrow> after [Asc, Desc] [x, y] [3, 7])" for x y
    using keyset_condition_correct [OF t _ n [of x y], of plain_std int_lit] nb
    unfolding key l by (simp add: ab_order_def int_lit_def key_lit_def toLiteral_def)
  show ?thesis using k [of 3 6] k [of 3 7] by (auto simp: beyond_def)
qed

text \<open>
  C35: where both apply, the row comparison and the OR-chain are interchangeable: for a uniform
  ordering without boolean cursor values they select the same rows.
\<close>

theorem tuple_comparison_is_or_chain:
  assumes "typed_cursor fs (Fields ob) vals" "Fields ob \<noteq> []" "IsUniformDirection ob"
    and "\<forall>v \<in> set vals. \<not> is_VBool v" "not_null row fs (Fields ob)"
  shows "\<exists>t c. buildTupleComparison std ob vals fs = Ok t
    \<and> buildLexicographicFallback std ob vals fs = Ok c
    \<and> (selects lit row t \<longleftrightarrow> selects lit row c)"
  using tuple_selects [OF assms(1-3,5), of std lit] fallback_selects [OF assms(1,4,5), of std lit]
  unfolding selects_def by metis

theorem tuple_comparison_is_or_chain_witness:
  "\<exists>t c. buildTupleComparison plain_std \<lparr>Fields = [\<lparr>Path = ''a'', Direction = Desc\<rparr>]\<rparr> [VInt64 3] ab_fields = Ok t
    \<and> buildLexicographicFallback plain_std \<lparr>Fields = [\<lparr>Path = ''a'', Direction = Desc\<rparr>]\<rparr> [VInt64 3] ab_fields = Ok c
    \<and> (selects int_lit (ab_row 2 0) t \<longleftrightarrow> selects int_lit (ab_row 2 0) c)"
  by (rule tuple_comparison_is_or_chain)
    (auto simp: typed_cursor_def ab_fields_def col_of_def int_field_def int_col_def
      IsUniformDirection_def is_VBool_def not_null_def ab_row_def)

text \<open>
  a boolean order field cannot be paged in a mixed-direction ordering: \<open>directionExpr\<close> has no
  boolean case, so \<open>buildKeysetCondition\<close> returns an error for every such cursor, although
  \<open>equalityExpr\<close>, \<open>toLiteral\<close> and the boolean codec support the type.
\<close>

theorem keyset_bool_mixed_fails:
  assumes "typed_cursor fs (Fields ob) vals" "\<not> IsUniformDirection ob" "\<exists>v \<in> set vals. is_VBool v"
  shows "\<exists>e. buildKeysetCondition std ob vals fs = Err e"
proof -
  note len = typed_cursor_length [OF assms(1)]
  from assms(3) obtain i where i: "i < length (Fields ob)" "is_VBool (vals ! i)"
    using len by (metis in_set_conv_nth)
  obtain e where e: "fallback_chain std fs (zip (Fields ob) vals) i = Err e"
    using fallback_chain_bool [OF assms(1) i] by blast
  have "\<exists>e. map_out (fallback_chain std fs (zip (Fields ob) vals)) [0..<length (Fields ob)] = Err e"
    using i(1) e by (intro map_out_Err_ex [where x = i]) simp_all
  then show ?thesis
    using assms(2,3) len i by (auto simp: buildKeysetCondition_def buildLexicographicFallback_def)
qed

definition flag_fields :: "unit flds" where
  "flag_fields = [(''a'', int_field ''a''),
     (''b'', (int_field ''b'')\<lparr>Column := Some ((int_col ''b'')\<lparr>ExprType := TyBool\<rparr>)\<rparr>)]"

theorem keyset_bool_mixed_fails_witness:
  "\<exists>e. buildKeysetCondition plain_std ab_order [VInt64 3, VBool True] flag_fields = Err e"
  by (rule keyset_bool_mixed_fails)
    (auto simp: typed_cursor_def ab_order_def flag_fields_def col_of_def int_field_def int_col_def
      IsUniformDirection_def is_VBool_def)

end
