(* ===== verification/Paging.thy ===== *)
theory Paging
  imports Keyset "HOL-Library.Multiset"
begin

text \<open>
  The rest of \<^verbatim>\<open>pkg/aip/jet/execute.go\<close>: one page of a list request, and the property
  the whole package exists for: a client that follows the page tokens sees every matching row
  once, in order. The database is a parameter; the contract relied on is the locale
  \<open>sql_backend\<close>, which a reference executor of the statements interprets.
\<close>

section \<open>The statement and its execution\<close>

record select_stmt =
  WhereC :: bexp
  OrderC :: "(sql_expr \<times> sort_direction) list"
  LimitC :: int

datatype 'm db_result = Rows "'m list" | NoRows | DbError

text \<open>A method call on a nil column panics.\<close>

definition orderByClauses ::
  "'m flds \<Rightarrow> order_by \<Rightarrow> (go_error, (sql_expr \<times> sort_direction) list) outcome" where
  "orderByClauses fs order =
     map_out (\<lambda>f. case col_of fs f of None \<Rightarrow> Panic | Some c \<Rightarrow> Ok (c, Direction f)) (Fields order)"

definition buildNextPageToken ::
  "jet_env \<Rightarrow> 'm schema \<Rightarrow> plan \<Rightarrow> 'm list \<Rightarrow> (go_error, string) outcome" where
  "buildNextPageToken env s plan rows =
     (let size = sint (planPageSize plan) in
      if int (length rows) \<le> size then Ok []
      else if size - 1 < 0 then Panic
      else and_then (map_err (\<lambda>e. query_error ExtractFailed [e])
             (extractCursorValues s (rows ! nat (size - 1)) (planOrderBy plan))) (\<lambda>cursorVals.
           EncodeToken (Tok env) (Now env) (resourceType s) cursorVals (planOrderBy plan)
             (planFilter plan) (cachedCodecs s)))"

text \<open>
  \<open>LIMIT\<close> is the \<^verbatim>\<open>int32\<close> sum \<^verbatim>\<open>plan.PageSize + 1\<close>, widened afterwards;
  \<^verbatim>\<open>rows[:n]\<close> with \<open>n < 0\<close> panics.
\<close>

definition ExecuteWithCondition ::
  "jet_env \<Rightarrow> go_std \<Rightarrow> 'm schema \<Rightarrow> params \<Rightarrow> bexp \<Rightarrow> (select_stmt \<Rightarrow> 'm db_result)
     \<Rightarrow> (go_error, 'm list \<times> string) outcome" where
  "ExecuteWithCondition env std s ps baseCondition query =
     and_then (BuildPlan env s ps) (\<lambda>plan.
     and_then (map_err (\<lambda>e. wrapAIPError e ErrInvalidPageToken)
       (buildKeysetCondition std (planOrderBy plan) (planCursorValues plan) (schemaFields s)))
       (\<lambda>cursorCond.
     and_then (orderByClauses (schemaFields s) (planOrderBy plan)) (\<lambda>clauses.
     let stmt = \<lparr>WhereC = combineConditions [baseCondition, cursorCond], OrderC = clauses,
                 LimitC = sint (planPageSize plan + 1)\<rparr>
     in case query stmt of
          NoRows \<Rightarrow> Ok ([], [])
        | DbError \<Rightarrow> Err (query_error QueryFailed [])
        | Rows rows \<Rightarrow>
            and_then (buildNextPageToken env s plan rows) (\<lambda>nextToken.
            if int (length rows) > sint (planPageSize plan)
            then (if sint (planPageSize plan) < 0 then Panic
                  else Ok (take (nat (sint (planPageSize plan))) rows, nextToken))
            else Ok (rows, nextToken)))))"

definition Execute ::
  "jet_env \<Rightarrow> go_std \<Rightarrow> 'm schema \<Rightarrow> params \<Rightarrow> (select_stmt \<Rightarrow> 'm db_result)
     \<Rightarrow> (go_error, 'm list \<times> string) outcome" where
  "Execute env std s ps query = ExecuteWithCondition env std s ps NilExp query"

section \<open>The contract of the database\<close>

definition order_keys ::
  "('m \<Rightarrow> 'v::linorder sql_row) \<Rightarrow> (sql_expr \<times> sort_direction) list \<Rightarrow> 'm \<Rightarrow> 'v list" where
  "order_keys sr cls r = map (\<lambda>(c, d). the (Cell (sr r) c)) cls"

text \<open>Row \<open>a\<close> may precede row \<open>b\<close> in the output: it does not come strictly after it.\<close>

definition may_precede ::
  "('m \<Rightarrow> 'v::linorder sql_row) \<Rightarrow> (sql_expr \<times> sort_direction) list \<Rightarrow> 'm \<Rightarrow> 'm \<Rightarrow> bool" where
  "may_precede sr cls a b \<longleftrightarrow> \<not> after (map snd cls) (order_keys sr cls a) (order_keys sr cls b)"

definition answers ::
  "(sql_lit \<Rightarrow> 'v::linorder) \<Rightarrow> ('m \<Rightarrow> 'v sql_row) \<Rightarrow> 'm list \<Rightarrow> select_stmt \<Rightarrow> 'm list \<Rightarrow> bool" where
  "answers lit sr table stmt rs \<longleftrightarrow>
     (\<exists>full. mset full = mset (filter (\<lambda>r. selects lit (sr r) (WhereC stmt)) table)
        \<and> sorted_wrt (may_precede sr (OrderC stmt)) full
        \<and> rs = take (nat (LimitC stmt)) full)"

locale sql_backend =
  fixes lit :: "sql_lit \<Rightarrow> 'v::linorder"
    and sr :: "'m \<Rightarrow> 'v sql_row"
    and table :: "'m list"
    and query :: "select_stmt \<Rightarrow> 'm db_result"
  assumes query_answers:
    "0 \<le> LimitC stmt \<Longrightarrow> \<exists>rs. query stmt = Rows rs \<and> answers lit sr table stmt rs"
begin

lemma query_rows:
  assumes "0 \<le> LimitC stmt"
  obtains full where "query stmt = Rows (take (nat (LimitC stmt)) full)"
    "mset full = mset (filter (\<lambda>r. selects lit (sr r) (WhereC stmt)) table)"
    "sorted_wrt (may_precede sr (OrderC stmt)) full"
  using query_answers [OF assms] by (auto simp: answers_def)

end

text \<open>The reference executor: filter, insertion sort by the clauses, cut.\<close>

fun insert_by :: "('m \<Rightarrow> 'm \<Rightarrow> bool) \<Rightarrow> 'm \<Rightarrow> 'm list \<Rightarrow> 'm list" where
  "insert_by le x [] = [x]"
| "insert_by le x (y # ys) = (if le x y then x # y # ys else y # insert_by le x ys)"

definition run_select ::
  "(sql_lit \<Rightarrow> 'v::linorder) \<Rightarrow> ('m \<Rightarrow> 'v sql_row) \<Rightarrow> 'm list \<Rightarrow> select_stmt \<Rightarrow> 'm db_result" where
  "run_select lit sr table stmt =
     (if LimitC stmt < 0 then DbError
      else Rows (take (nat (LimitC stmt))
        (foldr (insert_by (may_precede sr (OrderC stmt)))
          (filter (\<lambda>r. selects lit (sr r) (WhereC stmt)) table) [])))"

lemma insert_by_mset: "mset (insert_by le x xs) = add_mset x (mset xs)"
  by (induction xs) auto

lemma insert_by_sorted:
  assumes "\<And>a b c. le a b \<Longrightarrow> le b c \<Longrightarrow> le a c" "\<And>a b. \<not> le a b \<Longrightarrow> le b a"
  shows "sorted_wrt le xs \<Longrightarrow> sorted_wrt le (insert_by le x xs)"
proof (induction xs)
  case (Cons y ys)
  have "set (insert_by le x ys) = insert x (set ys)"
    using insert_by_mset [of le x ys] by (metis set_mset_add_mset_insert set_mset_mset)
  then show ?case
    using Cons assms(1) [of x y] assms(2) [of x y] by (cases "le x y") auto
qed simp

lemma may_precede_linear:
  shows "may_precede sr cls a b \<Longrightarrow> may_precede sr cls b c \<Longrightarrow> may_precede sr cls a c"
    and "\<not> may_precede sr cls a b \<Longrightarrow> may_precede sr cls b a"
proof -
  have len: "length (order_keys sr cls r) = length (map snd cls)" for r
    by (simp add: order_keys_def)
  note lin = after_linear [OF len len]
  assume p: "may_precede sr cls a b" "may_precede sr cls b c"
  then show "may_precede sr cls a c"
    unfolding may_precede_def using lin [of b a] lin [of c b] after_trans by metis
next
  show "\<not> may_precede sr cls a b \<Longrightarrow> may_precede sr cls b a"
    unfolding may_precede_def using after_trans after_irrefl by blast
qed

lemma sort_by_spec:
  fixes sr :: "'m \<Rightarrow> 'v::linorder sql_row" and cls :: "(sql_expr \<times> sort_direction) list"
  defines "le \<equiv> may_precede sr cls"
  shows "mset (foldr (insert_by le) xs []) = mset xs \<and> sorted_wrt le (foldr (insert_by le) xs [])"
  by (induction xs)
    (auto simp: insert_by_mset le_def intro!: insert_by_sorted elim: may_precede_linear)

interpretation reference: sql_backend lit sr table "run_select lit sr table"
  for lit :: "sql_lit \<Rightarrow> 'v::linorder" and sr :: "'m \<Rightarrow> 'v sql_row" and table
proof
  fix stmt :: select_stmt
  assume "0 \<le> LimitC stmt"
  then show "\<exists>rs. run_select lit sr table stmt = Rows rs \<and> answers lit sr table stmt rs"
    using sort_by_spec [of sr "OrderC stmt" "filter (\<lambda>r. selects lit (sr r) (WhereC stmt)) table"]
    unfolding answers_def run_select_def by (metis not_less)
qed

section \<open>Strictly sorted lists are determined by their elements\<close>

lemma sorted_wrt_unique:
  assumes irrefl: "\<And>a. \<not> lt a a" and trans: "\<And>a b c. lt a b \<Longrightarrow> lt b c \<Longrightarrow> lt a c"
  shows "sorted_wrt lt xs \<Longrightarrow> sorted_wrt lt ys \<Longrightarrow> set xs = set ys \<Longrightarrow> xs = ys"
proof (induction xs arbitrary: ys)
  case (Cons x xs)
  then obtain y ys' where ys: "ys = y # ys'" by (cases ys) auto
  have "x = y"
  proof (rule ccontr)
    assume "x \<noteq> y"
    with Cons.prems ys have "x \<in> set ys'" "y \<in> set xs" by auto
    with Cons.prems ys have "lt y x" "lt x y" by auto
    with irrefl trans show False by blast
  qed
  moreover have "x \<notin> set xs" "y \<notin> set ys'" using Cons.prems ys irrefl by auto
  ultimately have "set xs = set ys'" using Cons.prems(3) ys by auto
  with Cons ys \<open>x = y\<close> show ?case by auto
qed simp

text \<open>The elements beyond position \<open>n\<close> are those after the element before it.\<close>

lemma sorted_wrt_drop:
  assumes "\<And>a. \<not> lt a a" "\<And>a b c. lt a b \<Longrightarrow> lt b c \<Longrightarrow> lt a c"
    and "sorted_wrt lt (us @ r # vs)"
  shows "{x \<in> set (us @ r # vs). lt r x} = set vs"
proof -
  have "\<forall>x \<in> set us. lt x r" "\<forall>x \<in> set vs. lt r x"
    using assms(3) by (simp_all add: sorted_wrt_append)
  moreover have "\<not> lt r x" if "lt x r" for x using assms(1,2) that by blast
  ultimately show ?thesis using assms(1) by auto
qed

lemma sorted_wrt_strict:
  assumes "sorted_wrt (\<lambda>a b. \<not> lt b a) xs" "distinct xs"
    and "\<And>a b. a \<in> set xs \<Longrightarrow> b \<in> set xs \<Longrightarrow> a \<noteq> b \<Longrightarrow> lt a b \<or> lt b a"
  shows "sorted_wrt lt xs"
  using assms by (induction xs) auto

section \<open>A pageable listing\<close>

text \<open>\<open>row_after\<close>: row \<open>b\<close> comes strictly after row \<open>a\<close> in the ordering \<open>ob\<close>.\<close>

definition row_after ::
  "('m \<Rightarrow> 'v::linorder sql_row) \<Rightarrow> 'm flds \<Rightarrow> order_by \<Rightarrow> 'm \<Rightarrow> 'm \<Rightarrow> bool" where
  "row_after sr fs ob a b \<longleftrightarrow>
     after (map Direction (Fields ob)) (row_key (sr b) fs (Fields ob)) (row_key (sr a) fs (Fields ob))"

text \<open>
  What the author of a schema owes: order columns are never NULL; a row's cursor value survives
  its codec, has the column's type, and compares in SQL like the column itself; JSON carries
  the row's token; and the ordering's key is unique among the rows (the tie-breaker).
\<close>

definition cursor_sound ::
  "go_std \<Rightarrow> 'm schema \<Rightarrow> (sql_lit \<Rightarrow> 'v::linorder) \<Rightarrow> ('m \<Rightarrow> 'v sql_row) \<Rightarrow> order_by \<Rightarrow> 'm \<Rightarrow> bool"
where
  "cursor_sound std s lit sr ob r \<longleftrightarrow>
     (\<forall>f \<in> set (Fields ob). \<exists>e x. col_of (schemaFields s) f = Some e \<and> Cell (sr r) e = Some x
        \<and> (\<exists>v. cursor_of s r (Path f) v)
        \<and> (\<forall>v. cursor_of s r (Path f) v \<longrightarrow> fits v (ExprType e) \<and> lit (key_lit std v) = x
              \<and> (IsUniformDirection ob \<or> \<not> is_VBool v)))"

definition token_sound :: "jet_env \<Rightarrow> 'm schema \<Rightarrow> order_by \<Rightarrow> string \<Rightarrow> 'm \<Rightarrow> bool" where
  "token_sound env s ob flt r \<longleftrightarrow>
     (\<forall>gs ss. extractCursorValues s r ob = Ok gs \<longrightarrow>
        encode_cursors (cachedCodecs s) 0 (zip gs (Fields ob)) = Ok ss \<longrightarrow>
        json_faithful (Tok env) (new_token (Tok env) (Now env) (resourceType s) ss ob flt))"

definition pageable ::
  "jet_env \<Rightarrow> go_std \<Rightarrow> 'm schema \<Rightarrow> params \<Rightarrow> (sql_lit \<Rightarrow> 'v::linorder) \<Rightarrow> ('m \<Rightarrow> 'v sql_row)
     \<Rightarrow> 'm list \<Rightarrow> order_by \<Rightarrow> bool" where
  "pageable env std s ps lit sr table ob \<longleftrightarrow>
     valid_schema s \<and> sint (maxPageSize s) < 2 ^ 31 - 1
     \<and> effectiveOrderBy (Uni env) s (OrderByStr ps) = Ok ob \<and> Fields ob \<noteq> []
     \<and> 0 \<le> Now env \<and> Now env < 2 ^ 63
     \<and> distinct table \<and> inj_on (\<lambda>r. row_key (sr r) (schemaFields s) (Fields ob)) (set table)
     \<and> (\<forall>r \<in> set table. cursor_sound std s lit sr ob r \<and> token_sound env s ob (FilterStr ps) r)"

lemma row_after_irrefl [simp]: "\<not> row_after sr fs ob a a"
  by (simp add: row_after_def)

lemma row_after_trans: "row_after sr fs ob a b \<Longrightarrow> row_after sr fs ob b c \<Longrightarrow> row_after sr fs ob a c"
  unfolding row_after_def using after_trans by blast

lemma row_after_linear:
  assumes "inj_on (\<lambda>r. row_key (sr r) fs (Fields ob)) A" "a \<in> A" "b \<in> A" "a \<noteq> b"
  shows "row_after sr fs ob a b \<or> row_after sr fs ob b a"
proof -
  have "row_key (sr a) fs (Fields ob) \<noteq> row_key (sr b) fs (Fields ob)"
    using assms by (auto dest: inj_onD)
  moreover have "length (row_key (sr r) fs (Fields ob)) = length (map Direction (Fields ob))" for r
    by (simp add: row_key_def)
  ultimately show ?thesis unfolding row_after_def using after_linear by metis
qed

lemma selects_combine:
  "selects lit row (combineConditions cs) \<longleftrightarrow> (\<forall>c \<in> set cs. selects lit row c)"
  by (auto simp: combineConditions_def Let_def selects_def filter_empty_conv)

lemma orderByClauses_Ok:
  assumes "\<forall>f \<in> set (Fields ob). col_of fs f \<noteq> None"
  shows "orderByClauses fs ob = Ok (map (\<lambda>f. (the (col_of fs f), Direction f)) (Fields ob))"
  unfolding orderByClauses_def by (rule map_out_map) (use assms in auto)

lemma may_precede_row_after:
  assumes "\<forall>f \<in> set (Fields ob). col_of fs f \<noteq> None"
  shows "may_precede sr (map (\<lambda>f. (the (col_of fs f), Direction f)) (Fields ob)) a b
    \<longleftrightarrow> \<not> row_after sr fs ob b a"
proof -
  have k: "order_keys sr (map (\<lambda>f. (the (col_of fs f), Direction f)) (Fields ob)) r
      = row_key (sr r) fs (Fields ob)" for r
    using assms by (auto simp: order_keys_def row_key_def)
  have "map snd (map (\<lambda>f. (the (col_of fs f), Direction f)) (Fields ob)) = map Direction (Fields ob)"
    by simp
  then show ?thesis unfolding may_precede_def row_after_def k by (simp only: not_not)
qed

text \<open>Cursor values read back from a row's token stand for the row's key.\<close>

lemma cursor_sound_typed:
  assumes "cursor_sound std s lit sr ob r"
    and "list_all2 (\<lambda>f v. cursor_of s r (Path f) v) (Fields ob) vs"
  shows "typed_cursor (schemaFields s) (Fields ob) vs"
    "map (lit \<circ> key_lit std) vs = row_key (sr r) (schemaFields s) (Fields ob)"
    "IsUniformDirection ob \<or> (\<forall>v \<in> set vs. \<not> is_VBool v)"
    "not_null (sr r) (schemaFields s) (Fields ob)"
proof -
  have *: "\<exists>e. col_of (schemaFields s) (Fields ob ! i) = Some e \<and> fits (vs ! i) (ExprType e)
      \<and> Cell (sr r) e = Some (lit (key_lit std (vs ! i)))
      \<and> (IsUniformDirection ob \<or> \<not> is_VBool (vs ! i))" if "i < length (Fields ob)" for i
    using assms that unfolding cursor_sound_def list_all2_conv_all_nth
    by (metis nth_mem)
  note len = list_all2_lengthD [OF assms(2)]
  show "typed_cursor (schemaFields s) (Fields ob) vs"
    unfolding typed_cursor_def list_all2_conv_all_nth using * len by fastforce
  show "map (lit \<circ> key_lit std) vs = row_key (sr r) (schemaFields s) (Fields ob)"
    unfolding row_key_def list_eq_iff_nth_eq using * len by fastforce
  show "IsUniformDirection ob \<or> (\<forall>v \<in> set vs. \<not> is_VBool v)"
    using * len by (metis in_set_conv_nth)
  show "not_null (sr r) (schemaFields s) (Fields ob)"
    using assms(1) by (fastforce simp: not_null_def cursor_sound_def)
qed

lemma cursor_sound_not_null:
  "cursor_sound std s lit sr ob r \<Longrightarrow> not_null (sr r) (schemaFields s) (Fields ob)"
  by (fastforce simp: not_null_def cursor_sound_def)

section \<open>One page\<close>

abbreviation page_len :: "'m schema \<Rightarrow> params \<Rightarrow> nat" where
  "page_len s ps \<equiv> nat (sint (clampPageSize s (PageSize ps)))"

definition resumes ::
  "jet_env \<Rightarrow> go_std \<Rightarrow> 'm schema \<Rightarrow> params \<Rightarrow> bexp \<Rightarrow> (sql_lit \<Rightarrow> 'v::linorder)
     \<Rightarrow> ('m \<Rightarrow> 'v sql_row) \<Rightarrow> 'm list \<Rightarrow> order_by \<Rightarrow> 'm list \<Rightarrow> string \<Rightarrow> bool" where
  "resumes env std s ps base lit sr table ob rest tok \<longleftrightarrow>
     (\<exists>vals cond. BuildPlan env s (ps\<lparr>PageToken := tok\<rparr>) =
          Ok \<lparr>planPageSize = clampPageSize s (PageSize ps), planFilter = FilterStr ps,
              planOrderBy = ob, planCursorValues = vals\<rparr>
        \<and> buildKeysetCondition std ob vals (schemaFields s) = Ok cond
        \<and> (\<forall>x \<in> set table. selects lit (sr x) base \<and> selects lit (sr x) cond \<longleftrightarrow> x \<in> set rest))"

lemma orderable_col: "orderable s (Path f) \<Longrightarrow> col_of (schemaFields s) f \<noteq> None"
  by (erule orderableD) (auto simp: col_of_def)

lemma pageable_cols:
  assumes "pageable env std s ps lit sr table ob"
  shows "\<forall>f \<in> set (Fields ob). col_of (schemaFields s) f \<noteq> None"
proof
  fix f assume "f \<in> set (Fields ob)"
  then show "col_of (schemaFields s) f \<noteq> None"
    using assms by (auto simp del: not_None_eq simp: pageable_def
        intro!: orderable_col effectiveOrderBy_orderable)
qed

lemma page_limit:
  assumes "1 \<le> sint n" "sint n < 2 ^ 31 - 1"
  shows "sint (n + 1 :: int32) = sint n + 1"
  using assms by (simp add: sint_word_ariths signed_take_bit_int_eq_self)

lemma page_len_pos:
  assumes "pageable env std s ps lit sr table ob"
  shows "0 < page_len s ps" "int (page_len s ps) = sint (clampPageSize s (PageSize ps))"
    "sint (clampPageSize s (PageSize ps) + 1 :: int32) = sint (clampPageSize s (PageSize ps)) + 1"
  using clampPageSize_bounds [of s "PageSize ps"] assms
  by (auto simp: pageable_def intro!: page_limit)

text \<open>The database returns the first \<open>LIMIT\<close> rows of what is left.\<close>

lemma backend_rows:
  assumes p: "pageable env std s ps lit sr table ob" and b: "sql_backend lit sr table query"
    and sel: "\<forall>x \<in> set table. selects lit (sr x) w \<longleftrightarrow> x \<in> set rest"
    and sub: "set rest \<subseteq> set table"
    and srt: "sorted_wrt (row_after sr (schemaFields s) ob) rest"
    and l: "0 \<le> l"
  shows "query \<lparr>WhereC = w,
      OrderC = map (\<lambda>f. (the (col_of (schemaFields s) f), Direction f)) (Fields ob), LimitC = l\<rparr>
    = Rows (take (nat l) rest)"
proof -
  let ?lt = "row_after sr (schemaFields s) ob"
  let ?cls = "map (\<lambda>f. (the (col_of (schemaFields s) f), Direction f)) (Fields ob)"
  have mp: "may_precede sr ?cls = (\<lambda>a b. \<not> ?lt b a)"
    using may_precede_row_after [OF pageable_cols [OF p]] by blast
  obtain full where full: "query \<lparr>WhereC = w, OrderC = ?cls, LimitC = l\<rparr> = Rows (take (nat l) full)"
      "mset full = mset (filter (\<lambda>r. selects lit (sr r) w) table)"
      "sorted_wrt (\<lambda>a b. \<not> ?lt b a) full"
    by (rule sql_backend.query_rows [OF b, of "\<lparr>WhereC = w, OrderC = ?cls, LimitC = l\<rparr>",
          unfolded select_stmt.simps mp, OF l])
  have "distinct table" using p by (simp add: pageable_def)
  then have "distinct (filter (\<lambda>r. selects lit (sr r) w) table)" by simp
  then have "distinct full" using mset_eq_imp_distinct_iff [OF full(2)] by simp
  have set_full: "set full = set rest"
    using mset_eq_setD [OF full(2)] sel sub by auto
  have "sorted_wrt ?lt full"
  proof (rule sorted_wrt_strict [OF full(3) \<open>distinct full\<close>])
    have inj: "inj_on (\<lambda>r. row_key (sr r) (schemaFields s) (Fields ob)) (set table)"
      using p by (simp add: pageable_def)
    show "?lt a b \<or> ?lt b a" if "a \<in> set full" "b \<in> set full" "a \<noteq> b" for a b
      using row_after_linear [OF inj _ _ that(3)] that(1,2) set_full sub by blast
  qed
  then have "full = rest"
    by (intro sorted_wrt_unique [OF row_after_irrefl row_after_trans _ srt set_full])
  with full(1) show ?thesis by simp
qed

lemma Execute_step:
  assumes p: "pageable env std s ps lit sr table ob" and b: "sql_backend lit sr table query"
    and full: "set full = {x \<in> set table. selects lit (sr x) base}"
      "sorted_wrt (row_after sr (schemaFields s) ob) full"
    and rest: "full = pre @ rest"
    and res: "resumes env std s ps base lit sr table ob rest tok"
  shows "\<exists>tok'. ExecuteWithCondition env std s (ps\<lparr>PageToken := tok\<rparr>) base query
        = Ok (take (page_len s ps) rest, tok')
    \<and> (if length rest \<le> page_len s ps then tok' = []
       else tok' \<noteq> [] \<and> resumes env std s ps base lit sr table ob (drop (page_len s ps) rest) tok')"
proof -
  let ?n = "page_len s ps" and ?fs = "schemaFields s"
  let ?lt = "row_after sr ?fs ob"
  note n = page_len_pos [OF p]
  obtain vals cond where plan: "BuildPlan env s (ps\<lparr>PageToken := tok\<rparr>) =
        Ok \<lparr>planPageSize = clampPageSize s (PageSize ps), planFilter = FilterStr ps,
            planOrderBy = ob, planCursorValues = vals\<rparr>" (is "_ = Ok ?plan")
      and cond: "buildKeysetCondition std ob vals ?fs = Ok cond"
      and sel: "\<forall>x \<in> set table. selects lit (sr x) base \<and> selects lit (sr x) cond \<longleftrightarrow> x \<in> set rest"
    using res unfolding resumes_def by blast
  have sub: "set rest \<subseteq> set table" and srt: "sorted_wrt ?lt rest"
    using full rest by (auto simp: sorted_wrt_append)
  have q: "query \<lparr>WhereC = combineConditions [base, cond],
      OrderC = map (\<lambda>f. (the (col_of ?fs f), Direction f)) (Fields ob),
      LimitC = sint (clampPageSize s (PageSize ps) + 1 :: int32)\<rparr> = Rows (take (Suc ?n) rest)"
  proof -
    have "nat (sint (clampPageSize s (PageSize ps) + 1 :: int32)) = Suc ?n" using n by simp
    moreover have "\<forall>x \<in> set table. selects lit (sr x) (combineConditions [base, cond]) \<longleftrightarrow> x \<in> set rest"
      using sel by (simp add: selects_combine)
    ultimately show ?thesis
      using backend_rows [OF p b _ sub srt,
          of "combineConditions [base, cond]" "sint (clampPageSize s (PageSize ps) + 1 :: int32)"] n
      by simp
  qed
  have ex: "ExecuteWithCondition env std s (ps\<lparr>PageToken := tok\<rparr>) base query =
      and_then (buildNextPageToken env s ?plan (take (Suc ?n) rest)) (\<lambda>nextToken.
        Ok (take ?n rest, nextToken))"
  proof -
    let ?z = "sint (clampPageSize s (PageSize ps))"
    have cut: "(if ?z < int (length (take (Suc ?n) rest))
        then (if ?z < 0 then Panic else Ok (take ?n (take (Suc ?n) rest), t))
        else Ok (take (Suc ?n) rest, t)) = Ok (take ?n rest, t)" for t :: string
      using n by (cases "length rest \<le> ?n") (auto simp: min_def)
    show ?thesis
      using orderByClauses_Ok [OF pageable_cols [OF p]]
      unfolding ExecuteWithCondition_def plan
      by (simp only: and_then.simps plan.simps cond map_err.simps q Let_def db_result.simps cut)
  qed
  show ?thesis
  proof (cases "length rest \<le> ?n")
    case True
    then have "int (length rest) \<le> sint (clampPageSize s (PageSize ps))" using n by linarith
    then have "buildNextPageToken env s ?plan (take (Suc ?n) rest) = Ok []"
      by (simp add: buildNextPageToken_def Let_def)
    with ex True show ?thesis by simp
  next
    case False
    let ?r = "rest ! (?n - 1)"
    have split: "rest = take (?n - 1) rest @ ?r # drop ?n rest"
      using False n(1) id_take_nth_drop [of "?n - 1" rest] by simp
    have r: "?r \<in> set table" using sub False by (meson nth_mem subsetD less_imp_diff_less not_le)
    have snd: "cursor_sound std s lit sr ob ?r" "token_sound env s ob (FilterStr ps) ?r"
      using p r by (auto simp: pageable_def)
    have v: "valid_schema s" "effectiveOrderBy (Uni env) s (OrderByStr ps) = Ok ob" "Fields ob \<noteq> []"
        "0 \<le> Now env" "Now env < 2 ^ 63"
      using p by (auto simp: pageable_def)
    have cur: "\<forall>f \<in> set (Fields ob). \<exists>v. cursor_of s ?r (Path f) v"
      using snd(1) by (fastforce simp: cursor_sound_def)
    obtain gs tok' vs where next_page: "extractCursorValues s ?r ob = Ok gs"
      "EncodeToken (Tok env) (Now env) (resourceType s) gs ob (FilterStr ps) (cachedCodecs s) = Ok tok'"
      "tok' \<noteq> []" "list_all2 (\<lambda>f v. cursor_of s ?r (Path f) v) (Fields ob) vs"
      "BuildPlan env s (ps\<lparr>PageToken := tok'\<rparr>) = Ok \<lparr>planPageSize = clampPageSize s (PageSize ps),
         planFilter = FilterStr ps, planOrderBy = ob, planCursorValues = vs\<rparr>"
      using BuildPlan_next_page [OF v(1-3) cur v(4,5)] snd(2) unfolding token_sound_def by metis
    have "nat (sint (clampPageSize s (PageSize ps)) - 1) = ?n - 1" using n by linarith
    then have "buildNextPageToken env s ?plan (take (Suc ?n) rest) = Ok tok'"
      using n False next_page(1,2) by (simp add: buildNextPageToken_def Let_def)
    with ex have run: "ExecuteWithCondition env std s (ps\<lparr>PageToken := tok\<rparr>) base query
        = Ok (take ?n rest, tok')" by simp
    note ty = cursor_sound_typed [OF snd(1) next_page(4)]
    have vs: "vs \<noteq> []" using typed_cursor_length [OF ty(1)] v(3) by auto
    have key: "\<exists>c. buildKeysetCondition std ob vs ?fs = Ok c \<and> (selects lit (sr x) c \<longleftrightarrow> ?lt ?r x)"
      if "x \<in> set table" for x
      using keyset_selects [OF ty(1) vs _ ty(3), of "sr x" std lit] that p
      by (metis (no_types, lifting) cursor_sound_not_null pageable_def row_after_def selects_def ty(2))
    obtain c where c: "buildKeysetCondition std ob vs ?fs = Ok c" using key [OF r] by blast
    with key have c_sel: "selects lit (sr x) c \<longleftrightarrow> ?lt ?r x" if "x \<in> set table" for x
      using that by (metis outcome.inject(1))
    have dec: "full = (pre @ take (?n - 1) rest) @ ?r # drop ?n rest" using rest split by simp
    have after_r: "{x \<in> set full. ?lt ?r x} = set (drop ?n rest)"
      unfolding dec
    proof (rule sorted_wrt_drop)
      show "?lt a c" if "?lt a b" "?lt b c" for a b c using that by (rule row_after_trans)
      show "sorted_wrt ?lt ((pre @ take (?n - 1) rest) @ ?r # drop ?n rest)"
        by (fact full(2) [unfolded dec])
    qed simp
    have "selects lit (sr x) base \<and> selects lit (sr x) c \<longleftrightarrow> x \<in> set (drop ?n rest)"
      if "x \<in> set table" for x
      using after_r full(1) c_sel [OF that] that by blast
    then have "resumes env std s ps base lit sr table ob (drop ?n rest) tok'"
      unfolding resumes_def by (intro exI conjI ballI) (rule next_page(5), rule c, blast)
    with run next_page(3) False show ?thesis by auto
  qed
qed

section \<open>Following the tokens\<close>

text \<open>
  \<open>pages f tok ps\<close>: a client that starts with \<open>tok\<close> and sends each returned token back until it
  gets the empty one receives the pages \<open>ps\<close>.
\<close>

inductive pages ::
  "(string \<Rightarrow> (go_error, 'm list \<times> string) outcome) \<Rightarrow> string \<Rightarrow> 'm list list \<Rightarrow> bool"
  for f where
  pages_last: "f tok = Ok (rows, []) \<Longrightarrow> pages f tok [rows]"
| pages_more: "f tok = Ok (rows, tok') \<Longrightarrow> tok' \<noteq> [] \<Longrightarrow> pages f tok' ps \<Longrightarrow> pages f tok (rows # ps)"

inductive_cases pages_cases: "pages f tok ps"

lemma pages_not_Nil: "pages f tok ps \<Longrightarrow> ps \<noteq> []"
  by (induction rule: pages.induct) auto

text \<open>What a client sees does not depend on when it stops: the page sequence is determined.\<close>

lemma pages_unique: "pages f tok ps \<Longrightarrow> pages f tok qs \<Longrightarrow> ps = qs"
proof (induction arbitrary: qs rule: pages.induct)
  case (pages_last tok rows)
  from pages_last(2,1) show ?case by (cases rule: pages_cases) auto
next
  case (pages_more tok rows tok' ps)
  from pages_more(5) show ?case
    by (cases rule: pages_cases) (use pages_more(1,2,4) in auto)
qed

lemma pages_from:
  assumes p: "pageable env std s ps lit sr table ob" and b: "sql_backend lit sr table query"
    and full: "set full = {x \<in> set table. selects lit (sr x) base}"
      "sorted_wrt (row_after sr (schemaFields s) ob) full"
  shows "full = pre @ rest \<Longrightarrow> resumes env std s ps base lit sr table ob rest tok \<Longrightarrow>
    \<exists>pss. pages (\<lambda>tok. ExecuteWithCondition env std s (ps\<lparr>PageToken := tok\<rparr>) base query) tok pss
      \<and> concat pss = rest \<and> (\<forall>pg \<in> set (butlast pss). length pg = page_len s ps)"
proof (induction "length rest" arbitrary: rest pre tok rule: less_induct)
  case less
  let ?n = "page_len s ps"
  let ?f = "\<lambda>tok. ExecuteWithCondition env std s (ps\<lparr>PageToken := tok\<rparr>) base query"
  obtain tok' where step: "?f tok = Ok (take ?n rest, tok')"
      "if length rest \<le> ?n then tok' = []
       else tok' \<noteq> [] \<and> resumes env std s ps base lit sr table ob (drop ?n rest) tok'"
    using Execute_step [OF p b full less.prems] by blast
  show ?case
  proof (cases "length rest \<le> ?n")
    case True
    with step have "pages ?f tok [rest]" by (auto intro: pages_last)
    then show ?thesis by (intro exI [of _ "[rest]"]) simp
  next
    case False
    with step have t: "tok' \<noteq> []" "resumes env std s ps base lit sr table ob (drop ?n rest) tok'"
      by auto
    have "length (drop ?n rest) < length rest" using page_len_pos(1) [OF p] False by simp
    moreover have "full = (pre @ take ?n rest) @ drop ?n rest" using less.prems(1) by simp
    ultimately obtain pss where pss: "pages ?f tok' pss" "concat pss = drop ?n rest"
        "\<forall>pg \<in> set (butlast pss). length pg = ?n"
      using less.hyps t(2) by blast
    have "pages ?f tok (take ?n rest # pss)"
      using step(1) t(1) pss(1) by (rule pages_more)
    moreover have "concat (take ?n rest # pss) = rest" using pss(2) by simp
    moreover have "\<forall>pg \<in> set (butlast (take ?n rest # pss)). length pg = ?n"
      using pss(3) False pages_not_Nil [OF pss(1)] by simp
    ultimately show ?thesis by blast
  qed
qed

lemma resumes_first:
  assumes p: "pageable env std s ps lit sr table ob"
    and full: "set full = {x \<in> set table. selects lit (sr x) base}"
  shows "resumes env std s ps base lit sr table ob full []"
proof -
  have "BuildPlan env s (ps\<lparr>PageToken := []\<rparr>) = Ok \<lparr>planPageSize = clampPageSize s (PageSize ps),
      planFilter = FilterStr ps, planOrderBy = ob, planCursorValues = []\<rparr>"
    using BuildPlan_first_page [of env s "ps\<lparr>PageToken := []\<rparr>" ob] p by (simp add: pageable_def)
  moreover have "buildKeysetCondition std ob [] (schemaFields s) = Ok NilExp"
    by (simp add: buildKeysetCondition_def)
  ultimately show ?thesis
    unfolding resumes_def using full by (intro exI conjI ballI) (auto simp: selects_def)
qed

text \<open>The rows a listing should return: those the base condition selects, sorted.\<close>

lemma sorted_rows:
  fixes sr :: "'m \<Rightarrow> 'v::linorder sql_row"
  assumes p: "pageable env std s ps lit sr table ob"
  obtains full where "mset full = mset (filter (\<lambda>r. selects lit (sr r) base) table)"
    "sorted_wrt (row_after sr (schemaFields s) ob) full"
proof -
  let ?cls = "map (\<lambda>f. (the (col_of (schemaFields s) f), Direction f)) (Fields ob)"
  let ?lt = "row_after sr (schemaFields s) ob"
  let ?rows = "filter (\<lambda>r. selects lit (sr r) base) table"
  let ?full = "foldr (insert_by (may_precede sr ?cls)) ?rows []"
  have mp: "may_precede sr ?cls = (\<lambda>a b. \<not> ?lt b a)"
    using may_precede_row_after [OF pageable_cols [OF p]] by blast
  have f: "mset ?full = mset ?rows" "sorted_wrt (\<lambda>a b. \<not> ?lt b a) ?full"
    using sort_by_spec [of sr ?cls ?rows] by (simp_all only: mp)
  have inj: "inj_on (\<lambda>r. row_key (sr r) (schemaFields s) (Fields ob)) (set table)"
    and d: "distinct ?rows" using p by (simp_all add: pageable_def)
  have "sorted_wrt ?lt ?full"
  proof (rule sorted_wrt_strict [OF f(2)])
    show "distinct ?full" using mset_eq_imp_distinct_iff [OF f(1)] d by simp
    show "?lt a b \<or> ?lt b a" if "a \<in> set ?full" "b \<in> set ?full" "a \<noteq> b" for a b
      using row_after_linear [OF inj _ _ that(3)] that(1,2) mset_eq_setD [OF f(1)] by auto
  qed
  with f(1) that show ?thesis by blast
qed

section \<open>Properties\<close>

text \<open>
  C1: pagination is complete and exact. For a sound schema and a database that answers the
  generated statements, a client that sends each page token back reaches the last page after
  finitely many requests; the pages together hold every row the base condition selects exactly
  once, in the requested order, and every page but the last is full.
\<close>

theorem listing_complete:
  assumes "pageable env std s ps lit sr table ob" "sql_backend lit sr table query"
  shows "\<exists>pss. pages (\<lambda>tok. ExecuteWithCondition env std s (ps\<lparr>PageToken := tok\<rparr>) base query) [] pss
    \<and> mset (concat pss) = mset (filter (\<lambda>r. selects lit (sr r) base) table)
    \<and> sorted_wrt (row_after sr (schemaFields s) ob) (concat pss)
    \<and> (\<forall>pg \<in> set (butlast pss). length pg = page_len s ps)"
proof -
  obtain full where full: "mset full = mset (filter (\<lambda>r. selects lit (sr r) base) table)"
      "sorted_wrt (row_after sr (schemaFields s) ob) full"
    using sorted_rows [OF assms(1)] .
  then have set_full: "set full = {x \<in> set table. selects lit (sr x) base}"
    using mset_eq_setD [OF full(1)] by simp
  have "full = [] @ full" by simp
  from pages_from [OF assms set_full full(2) this resumes_first [OF assms(1) set_full]] full
  show ?thesis by metis
qed

definition list_env :: jet_env where
  "list_env = sample_jet_env\<lparr>Tok := \<lparr>
     Marshal = (\<lambda>t. Some (CHR ''x'' # concat (CursorValues t))),
     Unmarshal = (\<lambda>b. Some \<lparr>CreateTime = 5, ResourceType = ''Book'', FilterHash = [],
        CursorValues = [tl b], OrderFields = [\<lparr>TokField = ''id'', TokDesc = False\<rparr>]\<rparr>),
     Sum256 = (\<lambda>s. s)\<rparr>\<rparr>"

definition text_lit :: "sql_lit \<Rightarrow> string" where
  "text_lit l = (case l of LString s \<Rightarrow> s | _ \<Rightarrow> [])"

definition text_row :: "string \<Rightarrow> string sql_row" where
  "text_row r = \<lparr>Cell = (\<lambda>e. Some r), LowerText = Map.empty, Elems = Map.empty, Raw = Map.empty\<rparr>"

definition one_params :: params where
  "one_params = \<lparr>PageSize = 1, PageToken = [], FilterStr = [], OrderByStr = []\<rparr>"

lemma pageable_sample:
  assumes "distinct table"
  shows "pageable list_env plain_std sample_schema one_params text_lit text_row table id_order"
proof -
  have col: "col_of (schemaFields sample_schema) \<lparr>Path = ''id'', Direction = Asc\<rparr> = Column id_field"
    by (simp add: col_of_def sample_schema_def)
  have cur: "cursor_of sample_schema r ''id'' v \<longleftrightarrow> v = VString r" for r v
    by (auto simp: cursor_of_def sample_schema_def id_field_def StringCodec_def)
  have u: "IsUniformDirection id_order" by (simp add: IsUniformDirection_def id_order_def)
  have cs: "cursor_sound plain_std sample_schema text_lit text_row id_order r" for r
    using u col by (simp add: cursor_sound_def id_order_def cur id_field_def text_row_def
        text_lit_def key_lit_def toLiteral_def)
  have ts: "token_sound list_env sample_schema id_order [] r" for r
    by (simp add: token_sound_def extractCursorValues_def id_order_def sample_schema_def
        id_field_def StringCodec_def list_env_def sample_jet_env_def json_faithful_def
        new_token_def hashFilter_def token_orders_def)
  have inj: "inj_on (\<lambda>r. row_key (text_row r) (schemaFields sample_schema) (Fields id_order)) (set table)"
    using col by (simp add: row_key_def id_order_def id_field_def text_row_def inj_on_def)
  have "valid_schema sample_schema" by (rule NewSchema_Ok_valid [OF NewSchema_sample])
  moreover have "effectiveOrderBy (Uni list_env) sample_schema (OrderByStr one_params) = Ok id_order"
    using sample_order by (simp add: list_env_def one_params_def)
  ultimately show ?thesis
    unfolding pageable_def using assms inj cs ts
    by (simp add: sample_schema_def id_order_def list_env_def sample_jet_env_def one_params_def)
qed

theorem listing_complete_witness:
  "\<exists>pss. pages (\<lambda>tok. ExecuteWithCondition list_env plain_std sample_schema
          (one_params\<lparr>PageToken := tok\<rparr>) NilExp (run_select text_lit text_row [''b'', ''a''])) [] pss
     \<and> mset (concat pss) = {#''a'', ''b''#} \<and> (\<forall>pg \<in> set (butlast pss). length pg = 1)"
proof -
  have "page_len sample_schema one_params = 1"
    by (simp add: clampPageSize_sint sample_schema_def one_params_def)
  then show ?thesis
    using listing_complete [OF pageable_sample [of "[''b'', ''a'']"] reference.sql_backend_axioms,
        of NilExp]
    by (fastforce simp: selects_def)
qed

text \<open>
  the row limit overflows at the largest page size: with a maximum of \<open>2 ^ 31 - 1\<close> and a request
  for that many rows, \<open>plan.PageSize + 1\<close> wraps to \<open>- (2 ^ 31)\<close> before it is widened, so a database
  that rejects a negative \<open>LIMIT\<close> fails the request.
\<close>

theorem page_limit_overflows:
  assumes "NewSchema rt fs opts = Ok s" "maxPageSize s = 0x7FFFFFFF" "PageSize ps = 0x7FFFFFFF"
    and "PageToken ps = []" "effectiveOrderBy (Uni env) s (OrderByStr ps) = Ok ob"
    and "\<forall>stmt. LimitC stmt < 0 \<longrightarrow> query stmt = DbError"
  shows "ExecuteWithCondition env std s ps base query = Err (query_error QueryFailed [])"
proof -
  have "clampPageSize s (PageSize ps) = 0x7FFFFFFF"
    using assms(2,3) by (simp add: clampPageSize_def word_sle_eq word_sless_alt)
  then have plan: "BuildPlan env s ps = Ok \<lparr>planPageSize = 0x7FFFFFFF, planFilter = FilterStr ps,
      planOrderBy = ob, planCursorValues = []\<rparr>"
    using BuildPlan_first_page [OF assms(5,4)] by simp
  have "\<forall>f \<in> set (Fields ob). col_of (schemaFields s) f \<noteq> None"
    using effectiveOrderBy_orderable [OF NewSchema_Ok_valid(1) [OF assms(1)] assms(5)]
    by (auto simp del: not_None_eq intro!: orderable_col)
  note cl = orderByClauses_Ok [OF this]
  show ?thesis
    using assms(6) by (simp add: ExecuteWithCondition_def plan cl buildKeysetCondition_def Let_def)
qed

definition wide_schema :: "string schema" where
  "wide_schema = sample_schema\<lparr>maxPageSize := 0x7FFFFFFF\<rparr>"

theorem page_limit_overflows_witness:
  "ExecuteWithCondition list_env plain_std wide_schema
     \<lparr>PageSize = 0x7FFFFFFF, PageToken = [], FilterStr = [], OrderByStr = []\<rparr> NilExp
     (run_select text_lit text_row [''a'']) = Err (query_error QueryFailed [])"
proof (rule page_limit_overflows)
  show "NewSchema ''Book'' [(''id'', id_field)]
      [WithMaxPageSize 0x7FFFFFFF, WithTieBreaker ''id'' Asc] = Ok wide_schema"
    by (auto simp: NewSchema_def WithMaxPageSize_def WithTieBreaker_def Let_def validate_def
        id_field_def sorted_keys_def sample_schema_def wide_schema_def buildCodecs_def word_sless_alt)
qed (auto simp: wide_schema_def effectiveOrderBy_def ParseOrderBy_def run_select_def sample_schema_def)

end
