(* ===== verification/Filter_Expr.thy ===== *)
theory Filter_Expr
  imports Sql_Exp
begin

text \<open>
  \<^verbatim>\<open>pkg/aip/jet/filter.go\<close>: AIP-160 filters translated to SQL conditions. The parser
  (\<^verbatim>\<open>go.einride.tech/aip/filtering\<close>) and the functions of \<^verbatim>\<open>strings\<close> and
  \<^verbatim>\<open>time\<close> that rest on tables are fields of \<open>filter_env\<close>; the CEL tree the parser
  returns is a datatype with one function symbol per \<^verbatim>\<open>filtering.Function*\<close> constant.
\<close>

section \<open>Expressions\<close>

datatype fn = FAnd | FOr | FNot | FCmp cmp_op | FHas | FTimestamp | FDuration | FOther string

datatype const_kind =
  CNull | CBool bool | CInt64 int64 | CUint64 int64 | CDouble "64 word" | CString string | COther

datatype expr =
  ConstE const_kind | IdentE string | SelectE expr string | CallE fn "expr list" | OtherE

record filter_env =
  Parse :: "string \<Rightarrow> expr option"
  ToLower :: "string \<Rightarrow> string"
  ParseTime :: "string \<Rightarrow> int option"
  ParseDuration :: "string \<Rightarrow> int64 option"
  FloatOfInt :: "int \<Rightarrow> 64 word"

type_synonym filter_fields = "(string \<times> sql_expr) list"

definition unsupported :: "filter_reason \<Rightarrow> go_error" where
  "unsupported r = Errorf (InFilter r) [Sentinel ErrUnsupportedFilter]"

definition fn_name :: "fn \<Rightarrow> string" where
  "fn_name f = (case f of FOther s \<Rightarrow> s | _ \<Rightarrow> [])"

definition MaxFilterLength :: nat where
  "MaxFilterLength = 4096"

section \<open>Literals\<close>

definition stringLiteral :: "expr \<Rightarrow> (go_error, string) outcome" where
  "stringLiteral e =
     (case e of ConstE (CString s) \<Rightarrow> Ok s | _ \<Rightarrow> Err (unsupported (Literal NotAStringLiteral)))"

definition boolLiteral :: "expr \<Rightarrow> (go_error, bool) outcome" where
  "boolLiteral e =
     (case e of
        IdentE n \<Rightarrow>
          if n = ''true'' then Ok True else if n = ''false'' then Ok False
          else Err (unsupported (Literal NotABoolLiteral))
      | ConstE (CBool b) \<Rightarrow> Ok b
      | _ \<Rightarrow> Err (unsupported (Literal NotABoolLiteral)))"

definition integerLiteral :: "filter_env \<Rightarrow> expr \<Rightarrow> (go_error, int64) outcome" where
  "integerLiteral env e =
     (case e of
        CallE f args \<Rightarrow>
          if f \<noteq> FDuration then Err (unsupported (Literal NotAnIntLiteral))
          else (case args of
              [a] \<Rightarrow> and_then (stringLiteral a) (\<lambda>s.
                  case ParseDuration env s of
                    None \<Rightarrow> Err (unsupported (Literal (BadDuration s)))
                  | Some d \<Rightarrow> Ok d)
            | _ \<Rightarrow> Err (unsupported (Literal (DurationArity (length args)))))
      | ConstE (CInt64 i) \<Rightarrow> Ok i
      | _ \<Rightarrow> Err (unsupported (Literal NotAnIntLiteral)))"

definition timestampLiteral :: "filter_env \<Rightarrow> expr \<Rightarrow> (go_error, int) outcome" where
  "timestampLiteral env e =
     (case e of
        CallE f args \<Rightarrow>
          if f \<noteq> FTimestamp then Err (unsupported (Literal NotATimestamp))
          else (case args of
              [a] \<Rightarrow> and_then (stringLiteral a) (\<lambda>s.
                  case ParseTime env s of
                    None \<Rightarrow> Err (unsupported (Literal (BadTimestamp s)))
                  | Some t \<Rightarrow> Ok t)
            | _ \<Rightarrow> Err (unsupported (Literal (TimestampArity (length args)))))
      | _ \<Rightarrow> Err (unsupported (Literal NotATimestamp)))"

definition floatLiteral :: "filter_env \<Rightarrow> expr \<Rightarrow> (go_error, 64 word) outcome" where
  "floatLiteral env e =
     (case e of
        ConstE (CDouble d) \<Rightarrow> Ok d
      | ConstE (CInt64 i) \<Rightarrow> Ok (FloatOfInt env (sint i))
      | ConstE (CUint64 u) \<Rightarrow> Ok (FloatOfInt env (uint u))
      | _ \<Rightarrow> Err (unsupported (Literal NotANumber)))"

definition isNullLiteral :: "expr \<Rightarrow> bool" where
  "isNullLiteral e \<longleftrightarrow> e = ConstE CNull \<or> e = IdentE ''null''"

section \<open>Operators per column type\<close>

definition escapeLike :: "string \<Rightarrow> string" where
  "escapeLike s =
     (let s = replace_byte (CHR 0x5C) [CHR 0x5C, CHR 0x5C] s;
          s = replace_byte (CHR ''%'') [CHR 0x5C, CHR ''%''] s
      in replace_byte (CHR ''_'') [CHR 0x5C, CHR ''_''] s)"

definition stringArrayOp :: "fn \<Rightarrow> sql_expr \<Rightarrow> expr \<Rightarrow> (go_error, bexp) outcome" where
  "stringArrayOp f col rhs =
     and_then (stringLiteral rhs) (\<lambda>s.
     let elem = EqAny s col in
     case f of
       FCmp EQ \<Rightarrow> Ok elem
     | FHas \<Rightarrow> Ok elem
     | FCmp NOT_EQ \<Rightarrow> Ok (NotE elem)
     | _ \<Rightarrow> Err (unsupported (OperatorNotValid (fn_name f))))"

definition stringOp :: "filter_env \<Rightarrow> fn \<Rightarrow> sql_expr \<Rightarrow> expr \<Rightarrow> (go_error, bexp) outcome" where
  "stringOp env f col rhs =
     and_then (stringLiteral rhs) (\<lambda>s.
     case f of
       FCmp op \<Rightarrow> Ok (Cmp op col (LString s))
     | FHas \<Rightarrow> Ok (LowerLike col (''%'' @ escapeLike (ToLower env s) @ ''%''))
     | _ \<Rightarrow> Err (unsupported (OperatorNotValid (fn_name f))))"

definition boolOp :: "fn \<Rightarrow> sql_expr \<Rightarrow> expr \<Rightarrow> (go_error, bexp) outcome" where
  "boolOp f col rhs =
     and_then (boolLiteral rhs) (\<lambda>b.
     case f of
       FCmp EQ \<Rightarrow> Ok (Cmp EQ col (LBool b))
     | FCmp NOT_EQ \<Rightarrow> Ok (Cmp NOT_EQ col (LBool b))
     | _ \<Rightarrow> Err (unsupported (OperatorNotValid (fn_name f))))"

definition integerOp :: "filter_env \<Rightarrow> fn \<Rightarrow> sql_expr \<Rightarrow> expr \<Rightarrow> (go_error, bexp) outcome" where
  "integerOp env f col rhs =
     and_then (integerLiteral env rhs) (\<lambda>n.
     case f of
       FCmp op \<Rightarrow> Ok (Cmp op col (LInt64 n))
     | _ \<Rightarrow> Err (unsupported (OperatorNotValid (fn_name f))))"

definition floatOp :: "filter_env \<Rightarrow> fn \<Rightarrow> sql_expr \<Rightarrow> expr \<Rightarrow> (go_error, bexp) outcome" where
  "floatOp env f col rhs =
     and_then (floatLiteral env rhs) (\<lambda>x.
     case f of
       FCmp op \<Rightarrow> Ok (Cmp op col (LFloat x))
     | _ \<Rightarrow> Err (unsupported (OperatorNotValid (fn_name f))))"

definition timestampzOp :: "filter_env \<Rightarrow> fn \<Rightarrow> sql_expr \<Rightarrow> expr \<Rightarrow> (go_error, bexp) outcome" where
  "timestampzOp env f col rhs =
     and_then (timestampLiteral env rhs) (\<lambda>t.
     case f of
       FCmp op \<Rightarrow> Ok (Cmp op col (LTimestampz t))
     | _ \<Rightarrow> Err (unsupported (OperatorNotValid (fn_name f))))"

definition applyComparator :: "filter_env \<Rightarrow> fn \<Rightarrow> sql_expr \<Rightarrow> expr \<Rightarrow> (go_error, bexp) outcome"
where
  "applyComparator env f col rhs =
     (if isNullLiteral rhs then
        (case f of
           FCmp EQ \<Rightarrow> Ok (IsNull col)
         | FCmp NOT_EQ \<Rightarrow> Ok (IsNotNull col)
         | _ \<Rightarrow> Err (unsupported NullComparison))
      else (case ExprType col of
           TyStringArray \<Rightarrow>
             if IsColumn col then stringArrayOp f col rhs else Err (unsupported ExpressionType)
         | TyString \<Rightarrow> stringOp env f col rhs
         | TyBool \<Rightarrow> boolOp f col rhs
         | TyInteger \<Rightarrow> integerOp env f col rhs
         | TyFloat \<Rightarrow> floatOp env f col rhs
         | TyTimestampz \<Rightarrow> timestampzOp env f col rhs
         | _ \<Rightarrow> Err (unsupported ExpressionType)))"

section \<open>Translation\<close>

fun flattenIdent :: "expr \<Rightarrow> (string, string) outcome" where
  "flattenIdent (IdentE n) = Ok n"
| "flattenIdent (SelectE operand fld) =
     and_then (flattenIdent operand) (\<lambda>head.
     if fld = [] then Err ''empty field in member-access chain'' else Ok (head @ ''.'' @ fld))"
| "flattenIdent _ = Err ''expected identifier or dotted path''"

definition availableFieldNames :: "filter_fields \<Rightarrow> string list" where
  "availableFieldNames fs = sort (map fst fs)"

definition comparison ::
  "filter_env \<Rightarrow> filter_fields \<Rightarrow> fn \<Rightarrow> expr list \<Rightarrow> (go_error, bexp) outcome" where
  "comparison env fs f args =
     (case args of
        [lhs, rhs] \<Rightarrow>
          (case flattenIdent lhs of
             Err msg \<Rightarrow> Err (unsupported (BadLeftHandSide msg))
           | Panic \<Rightarrow> Panic
           | Ok key \<Rightarrow>
               (case map_of fs key of
                  None \<Rightarrow> Err (unsupported (UnknownField key (availableFieldNames fs)))
                | Some col \<Rightarrow> applyComparator env f col rhs))
      | _ \<Rightarrow> Err (unsupported (ComparisonArity (fn_name f) (length args))))"

text \<open>The accumulation of \<^verbatim>\<open>andOf\<close> and \<^verbatim>\<open>orOf\<close>; no argument gives nil.\<close>

definition foldTerms :: "(bexp \<Rightarrow> bexp \<Rightarrow> bexp) \<Rightarrow> bexp list \<Rightarrow> bexp" where
  "foldTerms mk ts = foldl (\<lambda>acc t. if acc = NilExp then t else mk acc t) NilExp ts"

fun translate :: "filter_env \<Rightarrow> filter_fields \<Rightarrow> expr \<Rightarrow> (go_error, bexp) outcome"
  and translate_args :: "filter_env \<Rightarrow> filter_fields \<Rightarrow> expr list \<Rightarrow> (go_error, bexp list) outcome"
where
  "translate env fs (CallE f args) =
     (case f of
        FAnd \<Rightarrow> and_then (translate_args env fs args) (\<lambda>ts. Ok (foldTerms AndE ts))
      | FOr \<Rightarrow> and_then (translate_args env fs args) (\<lambda>ts. Ok (foldTerms OrE ts))
      | FNot \<Rightarrow>
          if length args \<noteq> 1 then Err (unsupported (NotArity (length args)))
          else and_then (translate_args env fs args) (\<lambda>ts. Ok (NotE (hd ts)))
      | FCmp op \<Rightarrow> comparison env fs f args
      | FHas \<Rightarrow> comparison env fs f args
      | _ \<Rightarrow> Err (unsupported (UnsupportedFunction (fn_name f))))"
| "translate env fs e = Err (unsupported NotBoolean)"
| "translate_args env fs [] = Ok []"
| "translate_args env fs (a # as) =
     and_then (translate env fs a) (\<lambda>t. and_then (translate_args env fs as) (\<lambda>ts. Ok (t # ts)))"

definition FilterToCondition ::
  "filter_env \<Rightarrow> string \<Rightarrow> filter_fields \<Rightarrow> (go_error, bexp) outcome" where
  "FilterToCondition env flt fs =
     (let flt = trim_space flt in
      if flt = [] then Ok NilExp
      else if length flt > MaxFilterLength then Err (unsupported FilterTooLong)
      else case Parse env flt of
        None \<Rightarrow> Err (unsupported FilterParse)
      | Some e \<Rightarrow> translate env fs e)"

section \<open>Every error wraps the sentinel\<close>

lemma errors_is_unsupported [simp]: "errors_is (unsupported r) t \<longleftrightarrow> t = ErrUnsupportedFilter"
  by (auto simp: unsupported_def)

text \<open>\<open>rejects m\<close>: an outcome that is a value or an unsupported-filter error.\<close>

definition rejects :: "(go_error, 'a) outcome \<Rightarrow> bool" where
  "rejects m \<longleftrightarrow> (case m of Ok _ \<Rightarrow> True | Err e \<Rightarrow> (\<exists>r. e = unsupported r) | Panic \<Rightarrow> False)"

named_theorems rejects_intros "outcomes that are values or unsupported-filter errors"

lemma rejects_simps [simp]: "rejects (Ok x)" "rejects (Err (unsupported r))"
  by (auto simp: rejects_def)

lemma rejects_and_then [rejects_intros]:
  "rejects m \<Longrightarrow> (\<And>x. m = Ok x \<Longrightarrow> rejects (k x)) \<Longrightarrow> rejects (and_then m k)"
  by (cases m) (auto simp: rejects_def)

lemma rejects_literals [rejects_intros]:
  "rejects (stringLiteral e)" "rejects (boolLiteral e)" "rejects (integerLiteral env e)"
  "rejects (timestampLiteral env e)" "rejects (floatLiteral env e)"
proof -
  show s: "rejects (stringLiteral e)" for e
    by (auto simp: stringLiteral_def split: expr.splits const_kind.splits)
  show "rejects (boolLiteral e)"
    by (auto simp: boolLiteral_def split: expr.splits const_kind.splits)
  show "rejects (integerLiteral env e)" "rejects (timestampLiteral env e)"
    by (auto simp: integerLiteral_def timestampLiteral_def
        intro!: rejects_and_then s split: expr.splits const_kind.splits list.splits option.splits)
  show "rejects (floatLiteral env e)"
    by (auto simp: floatLiteral_def split: expr.splits const_kind.splits)
qed

lemma rejects_applyComparator: "rejects (applyComparator env f col rhs)"
  by (auto simp: applyComparator_def stringArrayOp_def stringOp_def boolOp_def integerOp_def
      floatOp_def timestampzOp_def Let_def intro!: rejects_intros
      split: expr_type.splits fn.splits cmp_op.splits)

lemma flattenIdent_not_Panic [simp]: "flattenIdent e \<noteq> Panic"
  by (induction e rule: flattenIdent.induct) (auto simp: go_simps)

lemma rejects_comparison: "rejects (comparison env fs f args)"
proof -
  have "rejects (case flattenIdent l of Err msg \<Rightarrow> Err (unsupported (BadLeftHandSide msg))
      | Panic \<Rightarrow> Panic | Ok key \<Rightarrow> (case map_of fs key of
          None \<Rightarrow> Err (unsupported (UnknownField key (availableFieldNames fs)))
        | Some col \<Rightarrow> applyComparator env f col r))" for l r
    by (cases "flattenIdent l") (auto simp: rejects_applyComparator split: option.splits)
  then show ?thesis by (auto simp: comparison_def split: list.splits)
qed

lemma rejects_translate: "rejects (translate env fs e)" "rejects (translate_args env fs es)"
proof (induction env fs e and env fs es rule: translate_translate_args.induct)
  case (1 env fs f args)
  then show ?case
    by (cases f) (auto simp: rejects_comparison intro!: rejects_and_then)
qed (auto intro!: rejects_and_then)

lemma rejects_FilterToCondition: "rejects (FilterToCondition env flt fs)"
  by (simp add: FilterToCondition_def Let_def rejects_translate split: option.splits)

section \<open>LIKE patterns\<close>

definition escape_char :: "char \<Rightarrow> string" where
  "escape_char c = (if c \<in> {CHR 0x5C, CHR ''%'', CHR ''_''} then [CHR 0x5C, c] else [c])"

text \<open>The three passes of \<open>escapeLike\<close> escape each character once.\<close>

lemma escapeLike_chars: "escapeLike s = concat (map escape_char s)"
  by (induction s) (auto simp: escapeLike_def escape_char_def Let_def)

lemma like_percent: "like (CHR ''%'' # p) t \<longleftrightarrow> (\<exists>a b. t = a @ b \<and> like p b)"
proof (induction t)
  case Nil
  show ?case by (simp add: like.simps(2))
next
  case (Cons c t)
  have "like (CHR ''%'' # p) (c # t) \<longleftrightarrow> like p (c # t) \<or> like (CHR ''%'' # p) t"
    by (subst like.simps) simp
  also have "\<dots> \<longleftrightarrow> (\<exists>a b. c # t = a @ b \<and> like p b)"
    unfolding Cons.IH by (metis append_Cons append_Nil list.sel(3) tl_append2)
  finally show ?case .
qed

lemma like_escaped: "like (concat (map escape_char n) @ p) t \<longleftrightarrow> (\<exists>u. t = n @ u \<and> like p u)"
proof (induction n arbitrary: t)
  case (Cons c n)
  have "like (escape_char c @ q) t \<longleftrightarrow> (\<exists>t'. t = c # t' \<and> like q t')" for q
    by (cases t) (auto simp: escape_char_def like.simps(2))
  then show ?case using Cons.IH by auto
qed simp

lemma like_all [simp]: "like ''%'' t"
  by (auto simp: like_percent)

lemma like_contains: "like (''%'' @ escapeLike n @ ''%'') t \<longleftrightarrow> sublist n t"
  using like_percent [of "concat (map escape_char n) @ ''%''" t]
  by (auto simp: escapeLike_chars like_escaped sublist_def)

lemma like_contains_fun: "like (CHR ''%'' # escapeLike n @ ''%'') = sublist n"
  using like_contains [of n] by (intro ext) simp

section \<open>The meaning of a filter\<close>

definition all3 :: "truth list \<Rightarrow> truth" where
  "all3 ts = (if Some False \<in> set ts then Some False else if None \<in> set ts then None else Some True)"

definition some3 :: "truth list \<Rightarrow> truth" where
  "some3 ts = (if Some True \<in> set ts then Some True else if None \<in> set ts then None else Some False)"

definition rhs_literal :: "filter_env \<Rightarrow> expr_type \<Rightarrow> expr \<Rightarrow> sql_lit option" where
  "rhs_literal env ty e =
     (case ty of
        TyString \<Rightarrow> (case e of ConstE (CString s) \<Rightarrow> Some (LString s) | _ \<Rightarrow> None)
      | TyBool \<Rightarrow> (case boolLiteral e of Ok b \<Rightarrow> Some (LBool b) | _ \<Rightarrow> None)
      | TyInteger \<Rightarrow> (case integerLiteral env e of Ok i \<Rightarrow> Some (LInt64 i) | _ \<Rightarrow> None)
      | TyFloat \<Rightarrow> (case floatLiteral env e of Ok x \<Rightarrow> Some (LFloat x) | _ \<Rightarrow> None)
      | TyTimestampz \<Rightarrow> (case timestampLiteral env e of Ok t \<Rightarrow> Some (LTimestampz t) | _ \<Rightarrow> None)
      | _ \<Rightarrow> None)"

text \<open>
  The AIP-160 reading of a comparison on a row: a null test, membership in a list, containment
  in a text regardless of case, or a comparison of values, unknown on NULL.
\<close>

definition compares ::
  "(sql_lit \<Rightarrow> 'v::linorder) \<Rightarrow> 'v sql_row \<Rightarrow> filter_env \<Rightarrow> fn \<Rightarrow> sql_expr \<Rightarrow> expr \<Rightarrow> truth" where
  "compares lit row env f col rhs =
     (if isNullLiteral rhs then eval3 lit row (if f = FCmp EQ then IsNull col else IsNotNull col)
      else if ExprType col = TyStringArray then
        (let has = (case stringLiteral rhs of
               Ok s \<Rightarrow> Option.bind (Elems row col) (any_eq s) | _ \<Rightarrow> None)
         in if f = FCmp NOT_EQ then not3 has else has)
      else if f = FHas then
        (case stringLiteral rhs of
           Ok s \<Rightarrow> map_option (sublist (ToLower env s)) (LowerText row col) | _ \<Rightarrow> None)
      else (case (f, rhs_literal env (ExprType col) rhs) of
           (FCmp op, Some l) \<Rightarrow> map_option (\<lambda>v. cmp_holds op v (lit l)) (Cell row col)
         | _ \<Rightarrow> None))"

fun means ::
  "(sql_lit \<Rightarrow> 'v::linorder) \<Rightarrow> 'v sql_row \<Rightarrow> filter_env \<Rightarrow> filter_fields \<Rightarrow> expr \<Rightarrow> truth" where
  "means lit row env fs (CallE f args) =
     (case f of
        FAnd \<Rightarrow> all3 (map (means lit row env fs) args)
      | FOr \<Rightarrow> some3 (map (means lit row env fs) args)
      | FNot \<Rightarrow> not3 (all3 (map (means lit row env fs) args))
      | _ \<Rightarrow>
        (case args of
           [lhs, rhs] \<Rightarrow>
             (case flattenIdent lhs of
                Ok key \<Rightarrow> (case map_of fs key of
                    Some col \<Rightarrow> compares lit row env f col rhs | None \<Rightarrow> None)
              | _ \<Rightarrow> None)
         | _ \<Rightarrow> None))"
| "means lit row env fs _ = None"

text \<open>What the parser guarantees: a conjunction or disjunction has arguments.\<close>

fun well_formed :: "expr \<Rightarrow> bool" where
  "well_formed (CallE f args) \<longleftrightarrow> (f \<in> {FAnd, FOr} \<longrightarrow> args \<noteq> []) \<and> (\<forall>a \<in> set args. well_formed a)"
| "well_formed _ \<longleftrightarrow> True"

lemma truth_cases:
  obtains "t = None" | "t = Some True" | "t = Some (False :: bool)"
  by (cases t) auto

lemma and3_simps:
  "and3 (Some True) x = x" "and3 (Some False) x = Some False"
  "and3 None x = (if x = Some False then Some False else None)"
  "and3 x (Some True) = x"
  by (cases x rule: truth_cases; simp)+

lemma and3_all3: "and3 t (all3 ts) = all3 (t # ts)"
proof (cases t)
  case None
  then show ?thesis by (auto simp: and3_simps all3_def)
next
  case (Some b)
  then show ?thesis by (cases b) (auto simp: and3_simps all3_def)
qed

lemma all3_single [simp]: "all3 [t] = t"
  by (cases t rule: truth_cases) (auto simp: all3_def)

lemma not3_all3: "not3 (all3 (map not3 ts)) = some3 ts"
proof -
  have n: "not3 t = None \<longleftrightarrow> t = None" for t by (cases t) auto
  have "Some False \<in> set (map not3 ts) \<longleftrightarrow> Some True \<in> set ts"
    by (induction ts) (auto simp: eq_commute [of "Some _" "not3 _"])
  moreover have "None \<in> set (map not3 ts) \<longleftrightarrow> None \<in> set ts"
    by (induction ts) (auto simp: eq_commute [of None "not3 _"] n)
  ultimately show ?thesis by (simp add: all3_def some3_def)
qed

lemma not3_not3 [simp]: "not3 (not3 t) = t"
  by (cases t) auto

lemma or3_some3: "or3 t (some3 ts) = some3 (t # ts)"
  using and3_all3 [of "not3 t" "map not3 ts"] not3_all3 [of "t # ts"] not3_all3 [of ts]
  by (simp add: or3_def) (metis not3_not3)

lemma and3_assoc: "and3 (and3 a b) c = and3 a (and3 b c)"
  by (cases a rule: truth_cases; cases b rule: truth_cases; cases c rule: truth_cases) simp_all

lemma foldl_and3: "foldl and3 a ts = and3 a (all3 ts)"
proof (induction ts arbitrary: a)
  case Nil
  show ?case by (simp add: all3_def and3_simps)
next
  case (Cons t ts)
  show ?case by (simp only: foldl_Cons Cons.IH and3_assoc) (simp only: and3_all3)
qed

lemma foldl_or3: "foldl or3 a ts = or3 a (some3 ts)"
proof (induction ts arbitrary: a)
  case Nil
  show ?case by (simp add: some3_def or3_def and3_simps)
next
  case (Cons t ts)
  have "or3 (or3 a t) u = or3 a (or3 t u)" for u
    by (simp add: or3_def and3_assoc)
  then show ?case by (simp only: foldl_Cons Cons.IH) (simp only: or3_some3)
qed

lemma foldTerms_And:
  assumes "NilExp \<notin> set ts" "ts \<noteq> []"
  shows "foldTerms AndE ts \<noteq> NilExp"
    "eval3 lit row (foldTerms AndE ts) = all3 (map (eval3 lit row) ts)"
proof -
  have *: "acc \<noteq> NilExp \<Longrightarrow> NilExp \<notin> set us \<Longrightarrow>
      foldl (\<lambda>acc t. if acc = NilExp then t else AndE acc t) acc us \<noteq> NilExp
      \<and> eval3 lit row (foldl (\<lambda>acc t. if acc = NilExp then t else AndE acc t) acc us)
          = foldl and3 (eval3 lit row acc) (map (eval3 lit row) us)" for acc us
    by (induction us arbitrary: acc) auto
  obtain u us where "ts = u # us" using assms(2) by (cases ts) auto
  with assms(1) * [of u us] show "foldTerms AndE ts \<noteq> NilExp"
    "eval3 lit row (foldTerms AndE ts) = all3 (map (eval3 lit row) ts)"
    by (auto simp: foldTerms_def foldl_and3 and3_all3)
qed

lemma foldTerms_Or:
  assumes "NilExp \<notin> set ts" "ts \<noteq> []"
  shows "foldTerms OrE ts \<noteq> NilExp"
    "eval3 lit row (foldTerms OrE ts) = some3 (map (eval3 lit row) ts)"
proof -
  have *: "acc \<noteq> NilExp \<Longrightarrow> NilExp \<notin> set us \<Longrightarrow>
      foldl (\<lambda>acc t. if acc = NilExp then t else OrE acc t) acc us \<noteq> NilExp
      \<and> eval3 lit row (foldl (\<lambda>acc t. if acc = NilExp then t else OrE acc t) acc us)
          = foldl or3 (eval3 lit row acc) (map (eval3 lit row) us)" for acc us
    by (induction us arbitrary: acc) auto
  obtain u us where "ts = u # us" using assms(2) by (cases ts) auto
  with assms(1) * [of u us] show "foldTerms OrE ts \<noteq> NilExp"
    "eval3 lit row (foldTerms OrE ts) = some3 (map (eval3 lit row) ts)"
    by (auto simp: foldTerms_def foldl_or3 or3_some3)
qed

section \<open>The translation is sound\<close>

lemma applyComparator_sound:
  assumes "applyComparator env f col rhs = Ok b"
  shows "b \<noteq> NilExp \<and> eval3 lit row b = compares lit row env f col rhs"
proof (cases "isNullLiteral rhs")
  case True
  with assms show ?thesis
    by (auto simp: applyComparator_def compares_def split: fn.splits cmp_op.splits)
next
  case False
  show ?thesis
  proof (cases "ExprType col")
    case TyStringArray
    with False assms obtain str where str: "stringLiteral rhs = Ok str" "stringArrayOp f col rhs = Ok b"
      by (auto simp: applyComparator_def stringArrayOp_def go_simps split: if_splits)
    then consider "f = FCmp EQ" | "f = FHas" | "f = FCmp NOT_EQ"
      by (cases f) (auto simp: stringArrayOp_def Let_def split: cmp_op.splits)
    then show ?thesis
      by cases (use str False TyStringArray in
          \<open>auto simp: stringArrayOp_def compares_def Let_def\<close>)
  next
    case TyString
    with False assms obtain str where str: "stringLiteral rhs = Ok str" "stringOp env f col rhs = Ok b"
      by (auto simp: applyComparator_def stringOp_def go_simps)
    then have "rhs = ConstE (CString str)"
      by (auto simp: stringLiteral_def split: expr.splits const_kind.splits)
    with str False TyString show ?thesis
      by (cases f) (auto simp: stringOp_def compares_def rhs_literal_def like_contains_fun)
  next
    case TyBool
    with False assms obtain v where v: "boolLiteral rhs = Ok v" "boolOp f col rhs = Ok b"
      by (auto simp: applyComparator_def boolOp_def go_simps)
    then consider "f = FCmp EQ" | "f = FCmp NOT_EQ"
      by (cases f) (auto simp: boolOp_def split: cmp_op.splits)
    then show ?thesis
      by cases (use v False TyBool in \<open>auto simp: boolOp_def compares_def rhs_literal_def\<close>)
  qed (use False assms in \<open>auto simp: applyComparator_def integerOp_def floatOp_def timestampzOp_def
        compares_def go_simps rhs_literal_def split: fn.splits\<close>)
qed

lemma comparison_sound:
  assumes "comparison env fs f args = Ok b" "f \<notin> {FAnd, FOr, FNot}"
  shows "b \<noteq> NilExp \<and> eval3 lit row b = means lit row env fs (CallE f args)"
proof -
  obtain l r key col where *: "args = [l, r]" "flattenIdent l = Ok key" "map_of fs key = Some col"
      "applyComparator env f col r = Ok b"
    using assms(1)
    by (auto simp: comparison_def split: list.splits outcome.splits option.splits)
  with assms(2) show ?thesis
    using applyComparator_sound [OF *(4), of lit row] by (cases f) auto
qed

lemma translate_sound:
  "translate env fs e = Ok b \<Longrightarrow> well_formed e \<Longrightarrow>
     b \<noteq> NilExp \<and> eval3 lit row b = means lit row env fs e"
  "translate_args env fs es = Ok bs \<Longrightarrow> \<forall>e \<in> set es. well_formed e \<Longrightarrow>
     NilExp \<notin> set bs \<and> map (eval3 lit row) bs = map (means lit row env fs) es"
proof (induction env fs e and env fs es arbitrary: b and bs rule: translate_translate_args.induct)
  case (1 env fs f args)
  show ?case
  proof (cases "f \<in> {FAnd, FOr, FNot}")
    case True
    then obtain ts where ts: "translate_args env fs args = Ok ts"
      using "1.prems"(1) by (auto simp: go_simps split: if_splits)
    have w: "\<forall>a \<in> set args. well_formed a" using "1.prems"(2) by simp
    have len: "f = FNot \<Longrightarrow> \<not> length args \<noteq> 1"
      using "1.prems"(1) by (auto split: if_splits)
    have "NilExp \<notin> set ts \<and> map (eval3 lit row) ts = map (means lit row env fs) args"
      using True "1.IH"(1) [OF _ ts w] "1.IH"(2) [OF _ ts w] "1.IH"(3) [OF _ len ts w] by blast
    then have ih: "NilExp \<notin> set ts" "map (eval3 lit row) ts = map (means lit row env fs) args"
      by blast+
    show ?thesis
    proof (cases "f = FNot")
      case True
      then obtain a where "args = [a]" using "1.prems"(1) by (cases args) (auto split: if_splits)
      moreover from this ts obtain t where "ts = [t]" by (auto simp: go_simps)
      ultimately show ?thesis
        using True ts ih "1.prems"(1) by auto
    next
      case False
      then have "args \<noteq> []" using \<open>f \<in> {FAnd, FOr, FNot}\<close> "1.prems"(2) by auto
      then have "ts \<noteq> []" using ih(2) by (metis map_is_Nil_conv)
      note folds = foldTerms_And(1) [OF ih(1) this] foldTerms_And(2) [OF ih(1) this, of lit row]
        foldTerms_Or(1) [OF ih(1) this] foldTerms_Or(2) [OF ih(1) this, of lit row]
      show ?thesis
        using False \<open>f \<in> {FAnd, FOr, FNot}\<close> "1.prems"(1) ts folds ih(2) by auto
    qed
  next
    case False
    with "1.prems"(1) have "comparison env fs f args = Ok b" by (cases f) auto
    with False comparison_sound show ?thesis by blast
  qed
qed (auto simp: go_simps)

section \<open>Properties\<close>

text \<open>
  C36: \<open>FilterToCondition\<close> never panics, reports every rejected filter as \<open>ErrUnsupportedFilter\<close>,
  gives no predicate exactly for a blank filter (where the parser's trees are well formed), and
  rejects anything longer than 4096 bytes before parsing it.
\<close>

theorem FilterToCondition_errors:
  "FilterToCondition env flt fs \<noteq> Panic
   \<and> (\<forall>e. FilterToCondition env flt fs = Err e \<longrightarrow> errors_is e ErrUnsupportedFilter)
   \<and> (trim_space flt = [] \<longrightarrow> FilterToCondition env flt fs = Ok NilExp)
   \<and> (length (trim_space flt) > 4096 \<longrightarrow> FilterToCondition env flt fs = Err (unsupported FilterTooLong))
   \<and> ((\<forall>e. Parse env (trim_space flt) = Some e \<longrightarrow> well_formed e) \<and> trim_space flt \<noteq> [] \<longrightarrow>
        FilterToCondition env flt fs \<noteq> Ok NilExp)"
proof -
  have "rejects (FilterToCondition env flt fs)" by (rule rejects_FilterToCondition)
  then have "FilterToCondition env flt fs \<noteq> Panic"
    "\<And>e. FilterToCondition env flt fs = Err e \<Longrightarrow> errors_is e ErrUnsupportedFilter"
    by (auto simp: rejects_def)
  then show ?thesis
    by (auto simp: FilterToCondition_def Let_def MaxFilterLength_def split: option.splits if_splits
        dest: translate_sound(1) [where lit = "\<lambda>_. 0 :: int"])
qed

definition n_col :: sql_expr where
  "n_col = \<lparr>ExprType = TyInteger, IsColumn = True, Ident = ''n''\<rparr>"

definition n_filter :: expr where
  "n_filter = CallE FNot [CallE (FCmp LT) [IdentE ''n'', ConstE (CInt64 4)]]"

definition sample_filter_env :: filter_env where
  "sample_filter_env = \<lparr>Parse = (\<lambda>s. if s = ''NOT n<4'' then Some n_filter else None),
     ToLower = lower_ascii, ParseTime = Map.empty, ParseDuration = Map.empty, FloatOfInt = (\<lambda>_. 0)\<rparr>"

lemma sample_filter_translates:
  "FilterToCondition sample_filter_env ''NOT n<4'' [(''n'', n_col)] = Ok (NotE (Cmp LT n_col (LInt64 4)))"
proof -
  have "trim_space ''NOT n<4'' = ''NOT n<4''"
    by (rule trim_space_id) (auto simp: is_space_def)
  then show ?thesis
    by (simp add: FilterToCondition_def Let_def MaxFilterLength_def sample_filter_env_def n_filter_def
        comparison_def applyComparator_def isNullLiteral_def n_col_def integerOp_def
        integerLiteral_def)
qed

theorem FilterToCondition_errors_witness:
  "FilterToCondition sample_filter_env ''!'' [] \<noteq> Panic
   \<and> errors_is (unsupported FilterParse) ErrUnsupportedFilter"
proof -
  have "trim_space ''!'' = ''!''" by (rule trim_space_id) (auto simp: is_space_def)
  then have "FilterToCondition sample_filter_env ''!'' [] = Err (unsupported FilterParse)"
    by (simp add: FilterToCondition_def MaxFilterLength_def sample_filter_env_def)
  with FilterToCondition_errors [of sample_filter_env "''!''" "[]"] show ?thesis by blast
qed

text \<open>
  C5: the translation of filters is sound: on every row, the SQL condition has exactly the
  three-valued meaning of the filter: conjunction, disjunction and negation of comparisons, null
  tests, membership in a list and case-insensitive containment.
\<close>

theorem filter_translation_sound:
  assumes "FilterToCondition env flt fs = Ok b" "trim_space flt \<noteq> []"
    and "Parse env (trim_space flt) = Some e" "well_formed e"
  shows "eval3 lit row b = means lit row env fs e"
proof -
  have "translate env fs e = Ok b"
    using assms(1-3) by (auto simp: FilterToCondition_def Let_def split: if_splits)
  with assms(4) show ?thesis using translate_sound(1) by blast
qed

theorem filter_translation_sound_witness:
  "eval3 (\<lambda>l. case l of LInt64 i \<Rightarrow> sint i | _ \<Rightarrow> 0)
     \<lparr>Cell = (\<lambda>_. Some (7 :: int)), LowerText = Map.empty, Elems = Map.empty, Raw = Map.empty\<rparr>
     (NotE (Cmp LT n_col (LInt64 4)))
   = means (\<lambda>l. case l of LInt64 i \<Rightarrow> sint i | _ \<Rightarrow> 0)
     \<lparr>Cell = (\<lambda>_. Some (7 :: int)), LowerText = Map.empty, Elems = Map.empty, Raw = Map.empty\<rparr>
     sample_filter_env [(''n'', n_col)] n_filter"
proof -
  have "trim_space ''NOT n<4'' = ''NOT n<4''"
    by (rule trim_space_id) (auto simp: is_space_def)
  then show ?thesis
    by (intro filter_translation_sound [OF sample_filter_translates])
      (simp_all add: sample_filter_env_def n_filter_def)
qed

text \<open>
  C37: the pattern built for the has operator matches literally: with the metacharacters escaped,
  \<open>LIKE '%needle%'\<close> holds of a text exactly when the needle occurs in it, whatever bytes the
  needle has.
\<close>

theorem escapeLike_literal:
  "like (''%'' @ escapeLike needle @ ''%'') t \<longleftrightarrow> sublist needle t"
  by (rule like_contains)

end
