(* ===== verification/Topo_Sort.thy ===== *)
theory Topo_Sort
  imports Go_Strings "HOL-Library.Multiset"
begin

text \<open>
  \<^verbatim>\<open>cmd/protoc-gen-go-jet/apply_ddl.go\<close>: the order in which generated
  \<^verbatim>\<open>ddl.sql\<close> files are applied, Kahn's algorithm over the tables they create and the
  tables they reference. The two regular expressions are matched by hand-written scanners: their
  character classes are disjoint, so a match is determined from left to right. Of the letters the
  case-insensitive flag adds, only the ASCII ones are modelled.
\<close>

record file_content =
  FilePath :: string
  Content :: string

section \<open>The regular expressions\<close>

text \<open>\<open>\s\<close> of Go's regexp, and the identifier class.\<close>

definition re_space :: "char \<Rightarrow> bool" where
  "re_space c \<longleftrightarrow> byte c \<in> {9, 10, 12, 13, 32}"

definition ident_start :: "char \<Rightarrow> bool" where
  "ident_start c \<longleftrightarrow> (97 \<le> byte c \<and> byte c \<le> 122) \<or> byte c = 95"

definition ident_part :: "char \<Rightarrow> bool" where
  "ident_part c \<longleftrightarrow> ident_start c \<or> (48 \<le> byte c \<and> byte c \<le> 57)"

text \<open>Matchers return the rest of the input; \<open>fold\<close> says whether case is ignored.\<close>

definition fold_char :: "bool \<Rightarrow> char \<Rightarrow> char" where
  "fold_char i c = (if i then lower_byte c else c)"

definition m_lit :: "bool \<Rightarrow> string \<Rightarrow> string \<Rightarrow> string option" where
  "m_lit i w s =
     (if map (fold_char i) (take (length w) s) = map (fold_char i) w then Some (drop (length w) s)
      else None)"

definition m_space1 :: "string \<Rightarrow> string option" where
  "m_space1 s = (if s \<noteq> [] \<and> re_space (hd s) then Some (dropWhile re_space s) else None)"

definition m_ident :: "bool \<Rightarrow> string \<Rightarrow> (string \<times> string) option" where
  "m_ident i s =
     (if s \<noteq> [] \<and> ident_start (fold_char i (hd s))
      then Some (takeWhile (\<lambda>c. ident_part (fold_char i c)) s,
                 dropWhile (\<lambda>c. ident_part (fold_char i c)) s)
      else None)"

definition m_table :: "bool \<Rightarrow> string \<Rightarrow> (string \<times> string) option" where
  "m_table i s =
     Option.bind (m_ident i s) (\<lambda>(name, r).
     map_option (\<lambda>r'. (name, r')) (m_lit i ''('' (dropWhile re_space r)))"

definition m_reference :: "string \<Rightarrow> (string \<times> string) option" where
  "m_reference s =
     Option.bind (m_lit False ''REFERENCES'' s) (\<lambda>r. Option.bind (m_space1 r) (m_table False))"

definition m_if_not_exists :: "string \<Rightarrow> string option" where
  "m_if_not_exists s =
     Option.bind (m_lit True ''IF'' s) (\<lambda>r. Option.bind (m_space1 r) (\<lambda>r.
     Option.bind (m_lit True ''NOT'' r) (\<lambda>r. Option.bind (m_space1 r) (\<lambda>r.
     Option.bind (m_lit True ''EXISTS'' r) m_space1))))"

definition m_create :: "string \<Rightarrow> (string \<times> string) option" where
  "m_create s =
     Option.bind (m_lit True ''CREATE'' (dropWhile re_space s)) (\<lambda>r.
     Option.bind (m_space1 r) (\<lambda>r.
     Option.bind (m_lit True ''TABLE'' r) (\<lambda>r.
     Option.bind (m_space1 r) (\<lambda>r.
     case Option.bind (m_if_not_exists r) (m_table True) of
       Some m \<Rightarrow> Some m
     | None \<Rightarrow> m_table True r))))"

text \<open>
  \<^verbatim>\<open>FindAllStringSubmatch\<close>: the leftmost non-overlapping matches. \<open>bol\<close> says whether
  the position begins a line; \<open>anchored\<close> matchers are tried only there.
\<close>

function find_all ::
  "(string \<Rightarrow> (string \<times> string) option) \<Rightarrow> bool \<Rightarrow> bool \<Rightarrow> string \<Rightarrow> string list" where
  "find_all m anchored bol [] = []"
| "find_all m anchored bol (c # s) =
     (case (if anchored \<and> \<not> bol then None else m (c # s)) of
        Some (name, rest) \<Rightarrow>
          if length rest < length (c # s) then name # find_all m anchored False rest
          else find_all m anchored (c = CHR 0x0A) s
      | None \<Rightarrow> find_all m anchored (c = CHR 0x0A) s)"
  by pat_completeness auto
termination by (relation "measure (\<lambda>(m, a, b, s). length s)") auto

definition referenced_tables :: "string \<Rightarrow> string list" where
  "referenced_tables s = find_all m_reference False True s"

definition created_tables :: "string \<Rightarrow> string list" where
  "created_tables s = find_all m_create True True s"

section \<open>The graph\<close>

text \<open>A later \<^verbatim>\<open>CREATE TABLE\<close> of the same name overwrites the map entry.\<close>

definition claim_tables :: "(string \<rightharpoonup> nat) \<Rightarrow> nat \<times> file_content \<Rightarrow> (string \<rightharpoonup> nat)" where
  "claim_tables m p = foldl (\<lambda>m t. m(t \<mapsto> fst p)) m (created_tables (Content (snd p)))"

definition table_owner :: "file_content list \<Rightarrow> string \<rightharpoonup> nat" where
  "table_owner files = foldl claim_tables Map.empty (enumerate 0 files)"

text \<open>The distinct owners of the tables file \<open>i\<close> references, itself excluded.\<close>

definition owners_of :: "file_content list \<Rightarrow> nat \<Rightarrow> nat list" where
  "owners_of files i =
     remdups (filter (\<lambda>k. k \<noteq> i)
       (List.map_filter (table_owner files) (referenced_tables (Content (files ! i)))))"

definition adjacency :: "nat \<Rightarrow> (nat \<Rightarrow> nat list) \<Rightarrow> nat \<Rightarrow> nat list" where
  "adjacency n deps k = filter (\<lambda>i. k \<in> set (deps i)) [0..<n]"

text \<open>Decrement each successor; the ones that reach zero become ready.\<close>

fun release :: "nat list \<Rightarrow> (nat \<Rightarrow> nat) \<Rightarrow> nat list \<Rightarrow> (nat \<Rightarrow> nat) \<times> nat list" where
  "release [] inDeg ready = (inDeg, ready)"
| "release (j # js) inDeg ready =
     (let d = inDeg j - 1 in release js (inDeg(j := d)) (if d = 0 then ready @ [j] else ready))"

text \<open>
  The loop. Its fuel is the number of files: each iteration takes one out of \<open>ready\<close>, and a
  file enters \<open>ready\<close> once.
\<close>

fun kahn ::
  "nat \<Rightarrow> (nat \<Rightarrow> nat list) \<Rightarrow> (nat \<Rightarrow> nat) \<Rightarrow> nat list \<Rightarrow> nat list \<Rightarrow> nat list \<times> (nat \<Rightarrow> nat)"
where
  "kahn fuel adj inDeg [] out = (out, inDeg)"
| "kahn 0 adj inDeg (i # ready) out = (out, inDeg)"
| "kahn (Suc fuel) adj inDeg (i # ready) out =
     (case release (adj i) inDeg ready of
        (inDeg', ready') \<Rightarrow> kahn fuel adj inDeg' (sort ready') (out @ [i]))"

definition topo_order :: "nat \<Rightarrow> (nat \<Rightarrow> nat list) \<Rightarrow> nat list \<times> (nat \<Rightarrow> nat)" where
  "topo_order n deps =
     (let inDeg = (\<lambda>i. length (deps i))
      in kahn n (adjacency n deps) inDeg (sort (filter (\<lambda>i. inDeg i = 0) [0..<n])) [])"

definition topoSortDDL :: "file_content list \<Rightarrow> (string list, file_content list) outcome" where
  "topoSortDDL files =
     (case topo_order (length files) (owners_of files) of
        (out, inDeg) \<Rightarrow>
          if length out \<noteq> length files
          then Err (map (\<lambda>i. FilePath (files ! i)) (filter (\<lambda>i. inDeg i > 0) [0..<length files]))
          else Ok (map (\<lambda>i. files ! i) out))"

section \<open>Kahn's algorithm\<close>

lemma release_spec:
  assumes "distinct js"
  shows "release js inDeg ready =
    (\<lambda>j. if j \<in> set js then inDeg j - 1 else inDeg j, ready @ filter (\<lambda>j. inDeg j - 1 = 0) js)"
  using assms
proof (induction js arbitrary: inDeg ready)
  case (Cons j js)
  then have "filter (\<lambda>k. (inDeg(j := inDeg j - 1)) k - 1 = 0) js = filter (\<lambda>k. inDeg k - 1 = 0) js"
    by (intro filter_cong) auto
  with Cons show ?case by (auto simp: Let_def)
qed auto

text \<open>An order in which everything comes after what it depends on.\<close>

definition deps_first :: "(nat \<Rightarrow> nat list) \<Rightarrow> nat list \<Rightarrow> bool" where
  "deps_first deps out \<longleftrightarrow> (\<forall>k < length out. set (deps (out ! k)) \<subseteq> set (take k out))"

lemma deps_first_Nil [simp]: "deps_first deps []"
  by (simp add: deps_first_def)

lemma deps_first_snoc:
  "deps_first deps (out @ [i]) \<longleftrightarrow> deps_first deps out \<and> set (deps i) \<subseteq> set out"
  by (auto simp: deps_first_def less_Suc_eq nth_append)

locale dependency_graph =
  fixes n :: nat and deps :: "nat \<Rightarrow> nat list"
  assumes deps_range: "i < n \<Longrightarrow> set (deps i) \<subseteq> {0..<n}"
    and deps_distinct: "i < n \<Longrightarrow> distinct (deps i)"
begin

definition pending :: "nat list \<Rightarrow> nat \<Rightarrow> nat set" where
  "pending out j = set (deps j) - set out"

definition kahn_inv :: "(nat \<Rightarrow> nat) \<Rightarrow> nat list \<Rightarrow> nat list \<Rightarrow> bool" where
  "kahn_inv inDeg ready out \<longleftrightarrow>
     distinct out \<and> set out \<subseteq> {0..<n} \<and> deps_first deps out
     \<and> (\<forall>j < n. inDeg j = card (pending out j))
     \<and> distinct ready \<and> set ready = {j. j < n \<and> j \<notin> set out \<and> pending out j = {}}"

lemma pending_finite [simp]: "finite (pending out j)"
  by (simp add: pending_def)

lemma pending_snoc: "pending (out @ [i]) j = pending out j - {i}"
  by (auto simp: pending_def)

lemma kahn_inv_start:
  "kahn_inv (\<lambda>i. length (deps i)) (sort (filter (\<lambda>i. length (deps i) = 0) [0..<n])) []"
  by (auto simp: kahn_inv_def pending_def deps_distinct distinct_card)

lemma kahn_inv_step:
  assumes inv: "kahn_inv inDeg (i # ready) out"
    and r: "release (adjacency n deps i) inDeg ready = (inDeg', ready')"
  shows "kahn_inv inDeg' (sort ready') (out @ [i])"
proof -
  have i: "i < n" "i \<notin> set out" "pending out i = {}"
    using inv by (auto simp: kahn_inv_def)
  have adj: "set (adjacency n deps i) = {j. j < n \<and> i \<in> set (deps j)}"
      "distinct (adjacency n deps i)"
    by (auto simp: adjacency_def)
  have r': "inDeg' = (\<lambda>j. if j \<in> set (adjacency n deps i) then inDeg j - 1 else inDeg j)"
      "ready' = ready @ filter (\<lambda>j. inDeg j - 1 = 0) (adjacency n deps i)"
    using r by (simp_all add: release_spec [OF adj(2)])
  have pend: "i \<in> pending out j \<longleftrightarrow> i \<in> set (deps j)" for j
    using i(2) by (auto simp: pending_def)
  have deg: "inDeg' j = card (pending (out @ [i]) j)" if "j < n" for j
    using inv that adj(1) pend [of j] by (auto simp: kahn_inv_def r'(1) pending_snoc)
  have zero: "inDeg j - 1 = 0 \<longleftrightarrow> pending (out @ [i]) j = {}"
    if "j \<in> set (adjacency n deps i)" for j
    using deg [of j] that adj(1) by (simp add: r'(1))
  have new: "j \<notin> set ready \<and> j \<notin> set out \<and> j \<noteq> i" if "j \<in> set (adjacency n deps i)" for j
  proof -
    from that adj(1) have j: "j < n" "i \<in> set (deps j)" by auto
    then have "pending out j \<noteq> {}" using pend by blast
    then have "j \<notin> set (i # ready)" using inv by (auto simp: kahn_inv_def)
    moreover have "j \<notin> set out"
    proof
      assume "j \<in> set out"
      then obtain k where "k < length out" "out ! k = j" by (auto simp: in_set_conv_nth)
      then have "set (deps j) \<subseteq> set out"
        using inv by (auto simp: kahn_inv_def deps_first_def dest: in_set_takeD)
      with j(2) i(2) show False by blast
    qed
    ultimately show ?thesis by simp
  qed
  have "distinct ready'" using inv new adj(2) by (auto simp: kahn_inv_def r'(2))
  moreover have "set ready' = {j. j < n \<and> j \<notin> set (out @ [i]) \<and> pending (out @ [i]) j = {}}"
  proof -
    have rdy: "x \<in> set ready \<longleftrightarrow> x \<noteq> i \<and> x < n \<and> x \<notin> set out \<and> pending out x = {}" for x
      using inv unfolding kahn_inv_def by (metis (mono_tags, lifting) distinct.simps(2) mem_Collect_eq set_ConsD list.set_intros)
    have "x \<in> set ready' \<longleftrightarrow> x < n \<and> x \<notin> set (out @ [i]) \<and> pending (out @ [i]) x = {}" for x
    proof (cases "x \<in> set (adjacency n deps i)")
      case True
      with new [OF True] zero [OF True] adj(1) show ?thesis by (simp add: r'(2))
    next
      case False
      with adj(1) have "x < n \<Longrightarrow> pending (out @ [i]) x = pending out x"
        using pend [of x] by (simp add: pending_snoc)
      with False rdy [of x] show ?thesis by (auto simp: r'(2))
    qed
    then show ?thesis by blast
  qed
  moreover have "deps_first deps (out @ [i])"
    using inv i(3) by (auto simp: deps_first_snoc kahn_inv_def pending_def)
  ultimately show ?thesis
    using inv i deg by (auto simp: kahn_inv_def)
qed

lemma kahn_result:
  "kahn_inv inDeg ready out \<Longrightarrow> n \<le> fuel + length out \<Longrightarrow>
   kahn fuel (adjacency n deps) inDeg ready out = (out', inDeg') \<Longrightarrow>
   kahn_inv inDeg' [] out'"
proof (induction fuel "adjacency n deps" inDeg ready out rule: kahn.induct)
  case (2 inDeg i ready out)
  have "set (i # ready) \<subseteq> {0..<n} - set out" using 2(1) by (auto simp: kahn_inv_def)
  moreover have "card (set out) = length out" using 2(1) by (simp add: kahn_inv_def distinct_card)
  moreover have "card ({0..<n} - set out) = n - card (set out)"
    using 2(1) by (simp add: kahn_inv_def card_Diff_subset)
  ultimately have "{0..<n} - set out = {}" using 2(2) by simp
  with \<open>set (i # ready) \<subseteq> {0..<n} - set out\<close> show ?case by simp
next
  case (3 fuel inDeg i ready out)
  obtain d r where dr: "release (adjacency n deps i) inDeg ready = (d, r)" by fastforce
  have "kahn_inv d (sort r) (out @ [i])" using kahn_inv_step [OF 3(2) dr] .
  with 3 dr show ?case by simp
qed simp

lemma topo_order_inv: "topo_order n deps = (out, inDeg) \<Longrightarrow> kahn_inv inDeg [] out"
  using kahn_result [OF kahn_inv_start, of n] by (simp add: topo_order_def)

text \<open>A prefix of an order that is not complete leaves something without pending dependency.\<close>

lemma complete_if_order_exists:
  assumes inv: "kahn_inv inDeg [] out"
    and p: "set p = {0..<n}" "deps_first deps p"
  shows "length out = n"
proof -
  have "set p \<subseteq> set out"
  proof (rule ccontr)
    assume "\<not> set p \<subseteq> set out"
    then have ex: "\<exists>k. k < length p \<and> p ! k \<notin> set out" by (auto simp: in_set_conv_nth)
    define k where "k = (LEAST k. k < length p \<and> p ! k \<notin> set out)"
    have k: "k < length p" "p ! k \<notin> set out"
      using LeastI_ex [OF ex] by (auto simp: k_def)
    have "set (take k p) \<subseteq> set out"
      using not_less_Least [of _ "\<lambda>k. k < length p \<and> p ! k \<notin> set out"] k(1)
      by (fastforce simp: in_set_conv_nth k_def)
    with p(2) k have "pending out (p ! k) = {}" by (auto simp: deps_first_def pending_def)
    moreover have "p ! k < n" using p(1) k(1) nth_mem by fastforce
    ultimately show False using inv k(2) by (auto simp: kahn_inv_def)
  qed
  with inv p(1) have "set out = {0..<n}" by (auto simp: kahn_inv_def)
  moreover have "distinct out" using inv by (simp add: kahn_inv_def)
  ultimately show ?thesis using distinct_card [of out] by simp
qed

end

section \<open>The graph of the files\<close>

lemma foldl_upd_ran: "foldl (\<lambda>m t. m(t \<mapsto> i)) m ts x = Some k \<Longrightarrow> k = i \<or> m x = Some k"
  by (induction ts arbitrary: m) (auto split: if_splits, fastforce split: if_splits)

lemma claim_tables_ran: "claim_tables m p x = Some k \<Longrightarrow> k = fst p \<or> m x = Some k"
  unfolding claim_tables_def by (rule foldl_upd_ran)

lemma owner_fold_range:
  "foldl claim_tables m ps x = Some k \<Longrightarrow> m x = Some k \<or> k \<in> fst ` set ps"
proof (induction ps arbitrary: m)
  case (Cons p ps)
  then have "claim_tables m p x = Some k \<or> k \<in> fst ` set ps" by fastforce
  then show ?case using claim_tables_ran [of m p x k] by auto
qed simp

lemma table_owner_range: "table_owner files t = Some k \<Longrightarrow> k < length files"
  using owner_fold_range [of Map.empty "enumerate 0 files" t k]
  by (auto simp: table_owner_def in_set_enumerate_eq)

lemma owners_of_iff:
  "k \<in> set (owners_of files i) \<longleftrightarrow>
     k \<noteq> i \<and> (\<exists>t \<in> set (referenced_tables (Content (files ! i))). table_owner files t = Some k)"
  by (force simp: owners_of_def List.map_filter_def)

interpretation ddl: dependency_graph "length files" "owners_of files" for files
proof
  show "set (owners_of files i) \<subseteq> {0..<length files}" for i
    using table_owner_range by (auto simp: owners_of_iff)
  show "distinct (owners_of files i)" for i by (simp add: owners_of_def)
qed

lemma topoSortDDL_Ok:
  assumes "topoSortDDL files = Ok fs"
  obtains out where "fs = map ((!) files) out" "distinct out" "set out = {0..<length files}"
    "deps_first (owners_of files) out"
proof -
  obtain out d where o: "topo_order (length files) (owners_of files) = (out, d)" by fastforce
  with assms have len: "length out = length files" "fs = map ((!) files) out"
    by (auto simp: topoSortDDL_def split: if_splits)
  have inv: "ddl.kahn_inv files d [] out" using ddl.topo_order_inv [OF o] .
  then have "distinct out" "set out \<subseteq> {0..<length files}" "deps_first (owners_of files) out"
    by (auto simp: ddl.kahn_inv_def)
  moreover from this have "set out = {0..<length files}"
    using len(1) distinct_card [of out] by (intro card_subset_eq) auto
  ultimately show ?thesis using that len(2) by blast
qed

lemma topo_mset:
  assumes "topoSortDDL files = Ok fs"
  shows "mset fs = mset files"
proof -
  obtain out where out: "fs = map ((!) files) out" "distinct out" "set out = {0..<length files}"
    using assms by (rule topoSortDDL_Ok)
  have "mset out = mset [0..<length files]"
    using out(2,3) by (metis set_eq_iff_mset_eq_distinct distinct_upt set_upt)
  then have "mset fs = mset (map ((!) files) [0..<length files])" by (simp add: out(1))
  then show ?thesis by (simp add: map_nth)
qed

lemma topoSortDDL_not_Panic [simp]: "topoSortDDL files \<noteq> Panic"
  by (auto simp: topoSortDDL_def split: prod.splits)

section \<open>Properties\<close>

text \<open>
  C9: \<open>topoSortDDL\<close> returns the input files, each once, in an order in which every file comes after
  the file that owns each table it references (tables no input file creates, and its own, aside).
\<close>

theorem topoSortDDL_order:
  assumes "topoSortDDL files = Ok fs"
  shows "mset fs = mset files
    \<and> (\<exists>out. fs = map ((!) files) out \<and> distinct out \<and> set out = {0..<length files}
        \<and> (\<forall>k < length out. \<forall>t \<in> set (referenced_tables (Content (fs ! k))).
             \<forall>owner. table_owner files t = Some owner \<and> owner \<noteq> out ! k \<longrightarrow> owner \<in> set (take k out)))"
proof -
  obtain out where out: "fs = map ((!) files) out" "distinct out" "set out = {0..<length files}"
    "deps_first (owners_of files) out"
    using assms by (rule topoSortDDL_Ok)
  have "mset fs = mset files" using assms by (rule topo_mset)
  moreover have "owner \<in> set (take k out)"
    if "k < length out" "t \<in> set (referenced_tables (Content (fs ! k)))"
      "table_owner files t = Some owner" "owner \<noteq> out ! k" for k t owner
  proof -
    have "owner \<in> set (owners_of files (out ! k))"
      using that out(1) by (auto simp: owners_of_iff)
    with out(4) that(1) show ?thesis by (auto simp: deps_first_def)
  qed
  ultimately show ?thesis using out(1-3) by blast
qed

definition ddl_child :: file_content where
  "ddl_child = \<lparr>FilePath = ''a'', Content = ''CREATE TABLE b (x TEXT REFERENCES c (id))''\<rparr>"

definition ddl_parent :: file_content where
  "ddl_parent = \<lparr>FilePath = ''p'', Content = ''create table c (id TEXT)''\<rparr>"

lemma sample_tables:
  "created_tables (Content ddl_child) = [''b'']" "created_tables (Content ddl_parent) = [''c'']"
  "referenced_tables (Content ddl_child) = [''c'']" "referenced_tables (Content ddl_parent) = []"
  unfolding ddl_child_def ddl_parent_def created_tables_def referenced_tables_def by code_simp+

lemma sample_topo: "topoSortDDL [ddl_child, ddl_parent] = Ok [ddl_parent, ddl_child]"
proof -
  have "table_owner [ddl_child, ddl_parent] = [''b'' \<mapsto> 0, ''c'' \<mapsto> 1]"
    by (simp add: table_owner_def claim_tables_def sample_tables)
  then have "owners_of [ddl_child, ddl_parent] i = (if i = 0 then [1] else [])" if "i < 2" for i
    using that sample_tables by (cases i) (auto simp: owners_of_def List.map_filter_def less_Suc_eq)
  note o = this [of 0, simplified] this [of 1, simplified]
  show ?thesis
    by (simp add: topoSortDDL_def topo_order_def adjacency_def o upt_rec numeral_2_eq_2)
qed

theorem topoSortDDL_order_witness:
  "topoSortDDL [ddl_child, ddl_parent] = Ok [ddl_parent, ddl_child]
   \<and> mset [ddl_parent, ddl_child] = mset [ddl_child, ddl_parent]"
  using topoSortDDL_order [OF sample_topo] sample_topo by blast

text \<open>
  C10: \<open>topoSortDDL\<close> fails exactly when no order exists: it never panics, and it succeeds whenever
  some arrangement of the files puts every file after the owners of the tables it references.
\<close>

theorem topoSortDDL_complete:
  "topoSortDDL files \<noteq> Panic
   \<and> ((\<exists>fs. topoSortDDL files = Ok fs) =
      (\<exists>p. distinct p \<and> set p = {0..<length files} \<and> deps_first (owners_of files) p))"
proof -
  have "\<exists>fs. topoSortDDL files = Ok fs"
    if p: "set p = {0..<length files}" "deps_first (owners_of files) p" for p
  proof -
    obtain out d where o: "topo_order (length files) (owners_of files) = (out, d)" by fastforce
    from ddl.complete_if_order_exists [OF ddl.topo_order_inv [OF o] p] o show ?thesis
      by (simp add: topoSortDDL_def)
  qed
  then show ?thesis by (metis topoSortDDL_Ok topoSortDDL_not_Panic)
qed

end
