(* ===== verification/Plan_Types.thy ===== *)
theory Plan_Types
  imports Go_Strings
begin

text \<open>
  \<^verbatim>\<open>cmd/protoc-gen-go-jet/plan.go\<close>: the resolved generation plan of one annotated
  proto message, and the column kinds. References into the proto compiler's own structures
  (\<^verbatim>\<open>protogen.Message\<close>, \<^verbatim>\<open>Field\<close>, \<^verbatim>\<open>Oneof\<close>) and the import
  paths of the generated Go files are left out; a proto field is known by its name. The constants
  of \<^verbatim>\<open>ColumnKind\<close> are grouped: \<open>KindRepeated RText\<close> is
  \<^verbatim>\<open>KindRepeatedText\<close>, \<open>KindJSONB JProto\<close> is \<^verbatim>\<open>KindJSONBProto\<close>.
\<close>

section \<open>Kinds\<close>

datatype int_kind =
  Int32 | Sint32 | Uint32 | Fixed32 | Sfixed32 | Int64 | Sint64 | Uint64 | Fixed64 | Sfixed64

datatype proto_kind =
    BoolKind | EnumKind | StringKind | BytesKind | FloatKind | DoubleKind | MessageKind | GroupKind
  | IntegerKind int_kind | NoKind

datatype repeated_kind =
  RText | REnum | RBool | RInt32 | RInt64 | RFloat32 | RFloat64 | RTimestamp | RDuration

datatype jsonb_kind = JProto | JProtoList | JStrMap | JMapScalar | JMapEnum | JMapMessage

datatype column_kind =
    KindScalar | KindTimestamp | KindDuration | KindEnumAsText
  | KindRepeated repeated_kind | KindJSONB jsonb_kind | KindSynthesized

fun kind_String :: "column_kind \<Rightarrow> string" where
  "kind_String KindScalar = ''scalar''"
| "kind_String KindTimestamp = ''timestamp''"
| "kind_String KindDuration = ''duration''"
| "kind_String KindEnumAsText = ''enum''"
| "kind_String (KindRepeated r) = ''repeated <'' @
     (case r of RText \<Rightarrow> ''string'' | REnum \<Rightarrow> ''enum'' | RBool \<Rightarrow> ''bool'' | RInt32 \<Rightarrow> ''int32''
      | RInt64 \<Rightarrow> ''int64'' | RFloat32 \<Rightarrow> ''float'' | RFloat64 \<Rightarrow> ''double''
      | RTimestamp \<Rightarrow> ''timestamp'' | RDuration \<Rightarrow> ''duration'') @ ''>''"
| "kind_String (KindJSONB j) =
     (case j of JProto \<Rightarrow> ''nested message (JSONB)''
      | JProtoList \<Rightarrow> ''repeated nested message (JSONB)''
      | JStrMap \<Rightarrow> ''map<string,string> (JSONB)''
      | JMapScalar \<Rightarrow> ''map with scalar value (JSONB)''
      | JMapEnum \<Rightarrow> ''map with enum value (JSONB)''
      | JMapMessage \<Rightarrow> ''map with message value (JSONB)'')"
| "kind_String KindSynthesized = ''synthesized (tenancy)''"

section \<open>Plans\<close>

record foreign_key_plan =
  RawTarget :: string
  TargetTable :: string
  TargetColumn :: string
  TenantComposite :: bool
  LocalTenantColumn :: string
  TargetTenantColumn :: string
  OnDelete :: string
  OnUpdate :: string
  BackingIndex :: bool
  ConstraintName :: string
  IndexName :: string

record column_plan =
  DBName :: string
  SQLType :: string
  NotNull :: bool
  DefaultExpr :: string
  CheckExpr :: string
  Comment :: string
  JetFieldName :: string
  JetGoType :: string
  ProtoFieldName :: string
  Kind :: column_kind
  Orderable :: bool
  Immutable :: bool
  Nullable :: bool
  WrapperCtor :: string
  Synthesized :: bool
  MapKeyKind :: proto_kind
  MapValueKind :: proto_kind
  JSONBIndexedPaths :: "string list"
  RenameFrom :: string
  JSONBGinIndex :: bool
  Unique :: bool
  ForeignKey :: "foreign_key_plan option"
  GeneratedExpr :: string

record supplemental_unique =
  UqName :: string
  UqColumns :: "string list"

record index_plan =
  IdxName :: string
  IdxColumns :: "string list"
  IdxOrder :: "string list"
  IdxUnique :: bool
  IdxWhere :: string

record partition_plan =
  Method :: string
  PartColumns :: "string list"

record tenancy_plan =
  TenantColumn :: string
  RuntimeRole :: string
  UserScoped :: bool
  UserColumn :: string

record order_part =
  FieldPath :: string
  OrderDesc :: bool

record oneof_column_plan =
  BaseName :: string
  KindColumn :: string
  JSONColumn :: string
  OneofComment :: string
  Optional :: bool
  Variants :: "string list"
  JetKindField :: string
  JetJSONField :: string
  OneofIndexedPaths :: "string list"

record resource_plan =
  ProtoFile :: string
  ResourceFQN :: string
  TableName :: string
  TableComment :: string
  PrimaryKey :: "string list"
  Indexes :: "index_plan list"
  Tenancy :: "tenancy_plan option"
  Partition :: "partition_plan option"
  PlanDefaultOrder :: "order_part list"
  TieBreaker :: "order_part list"
  Columns :: "column_plan list"
  OneofColumns :: "oneof_column_plan list"
  CustomSQL :: "string list"
  SupplementalUniques :: "supplemental_unique list"
  JetStructName :: string
  ProtoGoName :: string

text \<open>The plans the Go code builds with only some fields set: the zero values.\<close>

definition empty_fk :: foreign_key_plan where
  "empty_fk = \<lparr>RawTarget = [], TargetTable = [], TargetColumn = [], TenantComposite = False,
     LocalTenantColumn = [], TargetTenantColumn = [], OnDelete = [], OnUpdate = [],
     BackingIndex = False, ConstraintName = [], IndexName = []\<rparr>"

definition empty_column :: column_plan where
  "empty_column = \<lparr>DBName = [], SQLType = [], NotNull = False, DefaultExpr = [], CheckExpr = [],
     Comment = [], JetFieldName = [], JetGoType = [], ProtoFieldName = [], Kind = KindScalar,
     Orderable = False, Immutable = False, Nullable = False, WrapperCtor = [], Synthesized = False,
     MapKeyKind = NoKind, MapValueKind = NoKind, JSONBIndexedPaths = [], RenameFrom = [],
     JSONBGinIndex = False, Unique = False, ForeignKey = None, GeneratedExpr = []\<rparr>"

definition empty_plan :: resource_plan where
  "empty_plan = \<lparr>ProtoFile = [], ResourceFQN = [], TableName = [], TableComment = [],
     PrimaryKey = [], Indexes = [], Tenancy = None, Partition = None, PlanDefaultOrder = [],
     TieBreaker = [], Columns = [], OneofColumns = [], CustomSQL = [], SupplementalUniques = [],
     JetStructName = [], ProtoGoName = []\<rparr>"

end
