(* ===== verification/Ident.thy ===== *)
theory Ident
  imports Plan_Types
begin

text \<open>
  The naming rules of the generator: identifier checks, snake and camel case, comments and
  JSON paths (\<^verbatim>\<open>cmd/protoc-gen-go-jet/resolve.go\<close>), and the quoting and naming
  helpers of \<^verbatim>\<open>emit_sql.go\<close>. Case mapping is modelled on ASCII: the names it is
  applied to are proto identifiers or have passed \<^verbatim>\<open>validateSQLIdent\<close>.
\<close>

section \<open>Identifiers\<close>

datatype ident_error = EmptyIdent | IdentTooLong | BadIdentChar rune nat

definition lower_rune :: "rune \<Rightarrow> bool" where
  "lower_rune r \<longleftrightarrow> r = 95 \<or> (97 \<le> r \<and> r \<le> 122)"

definition digit_rune :: "rune \<Rightarrow> bool" where
  "digit_rune r \<longleftrightarrow> 48 \<le> r \<and> r \<le> 57"

fun scan_ident :: "nat \<Rightarrow> (rune \<times> string) list \<Rightarrow> (ident_error, unit) outcome" where
  "scan_ident i [] = Ok ()"
| "scan_ident i ((r, bs) # cs) =
     (if lower_rune r \<or> i > 0 \<and> digit_rune r then scan_ident (i + length bs) cs
      else Err (BadIdentChar r i))"

definition validateSQLIdent :: "string \<Rightarrow> (ident_error, unit) outcome" where
  "validateSQLIdent s =
     (if s = [] then Err EmptyIdent
      else if length s > 63 then Err IdentTooLong
      else scan_ident 0 (runes s))"

definition checkSynthIdentLen :: "string \<Rightarrow> string \<Rightarrow> (string \<times> string, unit) outcome" where
  "checkSynthIdentLen kind name = (if length name \<le> 63 then Ok () else Err (kind, name))"

definition valOr :: "string \<Rightarrow> string \<Rightarrow> string" where
  "valOr a b = (if a \<noteq> [] then a else b)"

section \<open>JSON paths\<close>

datatype path_error =
    EmptyPath | QuoteInPath | BackslashInPath | ControlInPath rune | EmptySegment
  | BadSegmentChar string rune

definition segment_rune :: "rune \<Rightarrow> bool" where
  "segment_rune r \<longleftrightarrow> (97 \<le> r \<and> r \<le> 122) \<or> (65 \<le> r \<and> r \<le> 90) \<or> (48 \<le> r \<and> r \<le> 57) \<or> r = 95"

fun check_segments :: "string list \<Rightarrow> (path_error, unit) outcome" where
  "check_segments [] = Ok ()"
| "check_segments (seg # segs) =
     (if seg = [] then Err EmptySegment
      else case filter (\<lambda>r. \<not> segment_rune r) (map fst (runes seg)) of
        r # _ \<Rightarrow> Err (BadSegmentChar seg r)
      | [] \<Rightarrow> check_segments segs)"

definition validateJSONBPath :: "string \<Rightarrow> (path_error, unit) outcome" where
  "validateJSONBPath p =
     (if p = [] then Err EmptyPath
      else if CHR 0x27 \<in> set p \<or> CHR 0x22 \<in> set p then Err QuoteInPath
      else if CHR 0x5C \<in> set p then Err BackslashInPath
      else case filter (\<lambda>r. r < 32 \<or> r = 127) (map fst (runes p)) of
        r # _ \<Rightarrow> Err (ControlInPath r)
      | [] \<Rightarrow> check_segments (split_on CHR ''.'' p))"

definition quoted :: "string \<Rightarrow> string" where
  "quoted s = [CHR 0x27] @ s @ [CHR 0x27]"

fun path_hops :: "string list \<Rightarrow> string" where
  "path_hops [] = []"
| "path_hops [seg] = ''->>'' @ quoted seg"
| "path_hops (seg # segs) = ''->'' @ quoted seg @ path_hops segs"

definition jsonbPathExpr :: "string \<Rightarrow> string \<Rightarrow> string" where
  "jsonbPathExpr col path =
     (let segs = split_on CHR ''.'' path in
      if length segs = 1 then col @ ''->>'' @ quoted (segs ! 0) else col @ path_hops segs)"

definition jsonbPathIndexName :: "string \<Rightarrow> string \<Rightarrow> string \<Rightarrow> string" where
  "jsonbPathIndexName table col path =
     lower_ascii (''idx_'' @ table @ ''_'' @ col @ ''_'' @ replace_byte CHR ''.'' ''_'' path)"

section \<open>Case conversion\<close>

definition isUpper :: "rune \<Rightarrow> bool" where
  "isUpper r \<longleftrightarrow> 65 \<le> r \<and> r \<le> 90"

definition isLower :: "rune \<Rightarrow> bool" where
  "isLower r \<longleftrightarrow> 97 \<le> r \<and> r \<le> 122"

text \<open>\<^verbatim>\<open>WriteRune(toLower(r))\<close>; an undecodable byte is written as U+FFFD.\<close>

definition write_lower :: "rune \<times> string \<Rightarrow> string" where
  "write_lower c =
     (if isUpper (fst c) then [char_of (fst c + 32)]
      else if fst c = rune_error then [CHR 0xEF, CHR 0xBF, CHR 0xBD]
      else snd c)"

definition next_lower :: "(rune \<times> string) list \<Rightarrow> bool" where
  "next_lower cs = (case cs of (r, b # bs) # _ \<Rightarrow> isLower (byte b) | _ \<Rightarrow> False)"

fun snake_runes :: "char option \<Rightarrow> (rune \<times> string) list \<Rightarrow> string" where
  "snake_runes prev [] = []"
| "snake_runes prev (c # cs) =
     (if prev \<noteq> None \<and> isUpper (fst c) \<and> (isLower (byte (the prev)) \<or> next_lower cs)
      then ''_'' else []) @ write_lower c @ snake_runes (Some (last (snd c))) cs"

definition toSnake :: "string \<Rightarrow> string" where
  "toSnake s = (if s = [] then s else snake_runes None (runes s))"

definition jetSnakeExceptions :: "string \<rightharpoonup> string" where
  "jetSnakeExceptions = [''oauth'' \<mapsto> ''OAuth'']"

definition jetAcronyms :: "string list" where
  "jetAcronyms =
     [''ACL'', ''API'', ''ASCII'', ''CPU'', ''CSS'', ''DNS'', ''EOF'', ''ETA'', ''GPU'', ''GUID'',
      ''HTML'', ''HTTP'', ''HTTPS'', ''ID'', ''IP'', ''JSON'', ''LHS'', ''OS'', ''QPS'', ''RAM'',
      ''RHS'', ''RPC'', ''SLA'', ''SMTP'', ''SQL'', ''SSH'', ''TCP'', ''TLS'', ''TTL'', ''UDP'',
      ''UI'', ''UID'', ''UUID'', ''URI'', ''URL'', ''UTF8'', ''VM'', ''XML'', ''XMPP'', ''XSRF'',
      ''XSS'']"

definition upper_ascii :: "string \<Rightarrow> string" where
  "upper_ascii s = map upper_byte s"

definition pascal_part :: "string \<Rightarrow> string" where
  "pascal_part p =
     (case p of
        [] \<Rightarrow> []
      | c # cs \<Rightarrow>
          (case jetSnakeExceptions p of
             Some e \<Rightarrow> e
           | None \<Rightarrow>
               if upper_ascii p \<in> set jetAcronyms then upper_ascii p else upper_byte c # cs))"

definition snakeToPascal :: "string \<Rightarrow> string" where
  "snakeToPascal s = concat (map pascal_part (split_on CHR ''_'' s))"

definition jetFieldNameFromDB :: "string \<Rightarrow> string" where
  "jetFieldNameFromDB col = snakeToPascal col"

definition goJetStructName :: "string \<Rightarrow> string" where
  "goJetStructName table = snakeToPascal table"

definition normaliseProtoComment :: "string \<Rightarrow> string" where
  "normaliseProtoComment raw =
     (if raw = [] then []
      else foldl (\<lambda>b line0. let line = trim_space line0 in
               if line = [] then b else (if b \<noteq> [] then b @ '' '' else b) @ line)
             [] (split_on CHR 0x0A raw))"

definition checkRejectsEmptyString :: "string \<Rightarrow> string \<Rightarrow> bool" where
  "checkRejectsEmptyString check dbName =
     (if check = [] then False
      else \<exists>pattern \<in> set [dbName @ '' <> '' @ quoted [], dbName @ ''<>'' @ quoted [],
                          quoted [] @ '' <> '' @ dbName, quoted [] @ ''<>'' @ dbName].
             sublist pattern check)"

section \<open>Quoting\<close>

text \<open>The tag grows until \<open>$tag$\<close> does not occur in the text.\<close>

function dollar_tag :: "string \<Rightarrow> string \<Rightarrow> string" where
  "dollar_tag s tag =
     (if sublist (''$'' @ tag @ ''$'') s then dollar_tag s (tag @ ''x'') else tag)"
  by pat_completeness auto
termination
proof (relation "measure (\<lambda>(s, tag). length s - length tag)")
  fix s tag :: string
  assume "sublist (''$'' @ tag @ ''$'') s"
  then have "length (''$'' @ tag @ ''$'') \<le> length s" by (rule sublist_length_le)
  then show "((s, tag @ ''x''), s, tag) \<in> measure (\<lambda>(s, tag). length s - length tag)" by simp
qed simp

declare dollar_tag.simps [simp del]

definition sqlDollarQuote :: "string \<Rightarrow> string" where
  "sqlDollarQuote s = (let q = ''$'' @ dollar_tag s [] @ ''$'' in q @ s @ q)"

definition pgIdent :: "string \<Rightarrow> string" where
  "pgIdent s =
     [CHR 0x22] @ concat (map (\<lambda>c. if c = CHR 0x22 then [CHR 0x22, CHR 0x22] else [c]) s)
     @ [CHR 0x22]"

section \<open>Legal identifiers\<close>

definition ident_byte :: "char \<Rightarrow> bool" where
  "ident_byte c \<longleftrightarrow> lower_rune (byte c) \<or> digit_rune (byte c)"

definition legal_ident :: "string \<Rightarrow> bool" where
  "legal_ident s \<longleftrightarrow>
     s \<noteq> [] \<and> length s \<le> 63 \<and> lower_rune (byte (hd s)) \<and> (\<forall>c \<in> set s. ident_byte c)"

lemma ident_byte_ascii: "ident_byte c \<Longrightarrow> byte c < 128"
  by (auto simp: ident_byte_def lower_rune_def digit_rune_def)

lemma scan_ident_ascii:
  "\<forall>c \<in> set s. ident_byte c \<Longrightarrow> (i = 0 \<longrightarrow> s \<noteq> [] \<longrightarrow> lower_rune (byte (hd s))) \<Longrightarrow>
   scan_ident i (map (\<lambda>c. (byte c, [c])) s) = Ok ()"
  by (induction s arbitrary: i) (auto simp: ident_byte_def)

lemma scan_ident_runes:
  "scan_ident i cs = Ok () \<Longrightarrow> (r, bs) \<in> set cs \<Longrightarrow> lower_rune r \<or> digit_rune r"
  by (induction i cs rule: scan_ident.induct) (auto split: if_splits)

text \<open>A multi-byte encoding decodes to a rune above 127 or to the error rune.\<close>

lemma three_byte_large:
  assumes "224 \<le> a" "second_ok a d" "128 \<le> e"
  shows "925952 \<le> a * 4096 + (d * 64 + e)"
proof (cases "a = 224")
  case True
  with assms(2) have "160 \<le> d" by (simp add: second_ok_def)
  with True assms(3) show ?thesis by simp
next
  case False
  with assms second_ok_high [OF assms(2)] show ?thesis by simp
qed

lemma four_byte_large:
  assumes "240 \<le> a" "second_ok a d" "128 \<le> e" "128 \<le> f"
  shows "63447296 \<le> a * 262144 + (d * 4096 + (e * 64 + f))"
proof (cases "a = 240")
  case True
  with assms(2) have "144 \<le> d" by (simp add: second_ok_def)
  with True assms(3,4) show ?thesis by simp
next
  case False
  with assms second_ok_high [OF assms(2)] show ?thesis by simp
qed

lemma decode_rune_large:
  assumes "128 \<le> byte c"
  shows "128 \<le> fst (decode_rune (c # s))"
  using assms
  by (auto simp: decode_rune.simps(2) Let_def rune_error_def cont_def split: list.splits
      intro: three_byte_large four_byte_large)

lemma chunk_of_byte: "c \<in> set s \<Longrightarrow> \<exists>ch \<in> set (runes s). c \<in> set (snd ch)"
  using unrunes_runes [of s] by (metis (no_types, lifting) UN_E image_image list.set_map set_concat)

lemma chunk_head:
  "ch \<in> set (runes s) \<Longrightarrow> \<exists>c t. fst ch = fst (decode_rune (c # t)) \<and> (\<exists>bs. snd ch = c # bs)"
proof (induction s rule: runes.induct)
  case (2 x s)
  obtain r w where d: "decode_rune (x # s) = (r, w)" by fastforce
  then have "0 < w" using decode_rune_width [of "x # s"] by simp
  then have "take w (x # s) = x # take (w - 1) s" by (cases w) auto
  with 2 d show ?case by (auto simp: runes.simps(2)) (metis fst_conv)+
qed simp

text \<open>If every rune decoded is below 128, the string is ASCII.\<close>

lemma runes_small_ascii:
  assumes "\<forall>r \<in> set (map fst (runes s)). r < 128"
  shows "ascii s"
  unfolding ascii_def
proof
  fix c assume "c \<in> set s"
  then obtain ch where ch: "ch \<in> set (runes s)" "c \<in> set (snd ch)" using chunk_of_byte by blast
  obtain d t bs where d: "fst ch = fst (decode_rune (d # t))" "snd ch = d # bs"
    using chunk_head [OF ch(1)] by blast
  have "fst ch < 128" using assms ch(1) by simp
  with d(1) have "byte d < 128" using decode_rune_large [of d t] by fastforce
  moreover have "d \<in> set (snd ch)" using d(2) by simp
  ultimately have "ch = (byte d, [d])" using chunk_ascii [OF ch(1)] by blast
  with ch(2) \<open>byte d < 128\<close> show "byte c < 128" by simp
qed

lemma validateSQLIdent_Ok: "validateSQLIdent s = Ok () \<longleftrightarrow> legal_ident s"
proof
  assume ok: "validateSQLIdent s = Ok ()"
  then have s: "s \<noteq> []" "length s \<le> 63" "scan_ident 0 (runes s) = Ok ()"
    by (auto simp: validateSQLIdent_def split: if_splits)
  have "\<forall>r \<in> set (map fst (runes s)). r < 128"
    using scan_ident_runes [OF s(3)] by (fastforce simp: lower_rune_def digit_rune_def)
  then have r: "runes s = map (\<lambda>c. (byte c, [c])) s" by (intro runes_ascii runes_small_ascii)
  have "\<forall>c \<in> set s. ident_byte c"
    using scan_ident_runes [OF s(3)] by (fastforce simp: r ident_byte_def)
  moreover have "lower_rune (byte (hd s))"
    using s(1) s(3) [unfolded r] by (cases s) (auto split: if_splits)
  ultimately show "legal_ident s" using s by (simp add: legal_ident_def)
next
  assume l: "legal_ident s"
  then have "ascii s" by (auto simp: legal_ident_def ascii_def dest: ident_byte_ascii)
  with l show "validateSQLIdent s = Ok ()"
    by (auto simp: validateSQLIdent_def runes_ascii legal_ident_def intro!: scan_ident_ascii)
qed

lemma legal_ident_ascii: "legal_ident s \<Longrightarrow> ascii s"
  by (auto simp: legal_ident_def ascii_def dest: ident_byte_ascii)

section \<open>Legal paths\<close>

definition segment_byte :: "char \<Rightarrow> bool" where
  "segment_byte c \<longleftrightarrow> segment_rune (byte c)"

definition legal_path :: "string \<Rightarrow> bool" where
  "legal_path p \<longleftrightarrow>
     (\<forall>seg \<in> set (split_on CHR ''.'' p). seg \<noteq> [] \<and> (\<forall>c \<in> set seg. segment_byte c))"

lemma segment_ascii:
  "filter (\<lambda>r. \<not> segment_rune r) (map fst (runes seg)) = [] \<longleftrightarrow> (\<forall>c \<in> set seg. segment_byte c)"
proof
  assume "filter (\<lambda>r. \<not> segment_rune r) (map fst (runes seg)) = []"
  then have a: "\<forall>r \<in> set (map fst (runes seg)). segment_rune r" by (simp add: filter_empty_conv)
  then have "\<forall>r \<in> set (map fst (runes seg)). r < 128" by (auto simp: segment_rune_def)
  then have "runes seg = map (\<lambda>c. (byte c, [c])) seg" by (intro runes_ascii runes_small_ascii)
  with a show "\<forall>c \<in> set seg. segment_byte c" by (simp add: segment_byte_def)
next
  assume a: "\<forall>c \<in> set seg. segment_byte c"
  then have "ascii seg" by (auto simp: ascii_def segment_byte_def segment_rune_def)
  with a show "filter (\<lambda>r. \<not> segment_rune r) (map fst (runes seg)) = []"
    by (simp add: runes_ascii filter_empty_conv segment_byte_def)
qed

lemma check_segments_Ok:
  "check_segments segs = Ok () \<longleftrightarrow> (\<forall>seg \<in> set segs. seg \<noteq> [] \<and> (\<forall>c \<in> set seg. segment_byte c))"
proof (induction segs)
  case (Cons seg segs)
  then show ?case using segment_ascii [of seg] by (auto split: list.splits)
qed simp

lemma legal_path_bytes:
  assumes "legal_path p" "c \<in> set p"
  shows "segment_byte c \<or> c = CHR ''.''"
proof -
  have "c \<in> set (join ''.'' (split_on CHR ''.'' p))" using assms(2) by simp
  then show ?thesis
    using assms(1) set_join [of "''.''" "split_on CHR ''.'' p"] by (auto simp: legal_path_def)
qed

lemma validateJSONBPath_Ok: "validateJSONBPath p = Ok () \<longleftrightarrow> legal_path p"
proof
  assume "validateJSONBPath p = Ok ()"
  then show "legal_path p"
    by (auto simp: validateJSONBPath_def check_segments_Ok legal_path_def split: if_splits list.splits)
next
  assume l: "legal_path p"
  have b: "\<forall>c \<in> set p. segment_byte c \<or> c = CHR ''.''" using legal_path_bytes [OF l] by blast
  then have "ascii p" by (auto simp: ascii_def segment_byte_def segment_rune_def)
  moreover have "\<forall>c \<in> set p. \<not> (byte c < 32 \<or> byte c = 127)"
    using b by (auto simp: segment_byte_def segment_rune_def)
  ultimately have "filter (\<lambda>r. r < 32 \<or> r = 127) (map fst (runes p)) = []"
    by (simp add: runes_ascii filter_empty_conv)
  moreover have "p \<noteq> []" using l by (auto simp: legal_path_def)
  moreover have "CHR 0x27 \<notin> set p" "CHR 0x22 \<notin> set p" "CHR 0x5C \<notin> set p"
    using b by (auto simp: segment_byte_def segment_rune_def)
  ultimately show "validateJSONBPath p = Ok ()"
    using l by (simp add: validateJSONBPath_def check_segments_Ok legal_path_def)
qed

section \<open>Reading quoted text back\<close>

text \<open>How PostgreSQL's lexer reads a dollar-quoted string: up to the first closing delimiter.\<close>

fun until :: "string \<Rightarrow> string \<Rightarrow> string option" where
  "until pat [] = (if pat = [] then Some [] else None)"
| "until pat (c # s) = (if prefix pat (c # s) then Some [] else map_option ((#) c) (until pat s))"

definition read_dollar :: "string \<Rightarrow> string option" where
  "read_dollar q =
     (case q of
        c # r \<Rightarrow>
          if c = CHR ''$''
          then (let tag = takeWhile (\<lambda>c. c \<noteq> CHR ''$'') r
                in until (''$'' @ tag @ ''$'') (drop (length tag + 1) r))
          else None
      | [] \<Rightarrow> None)"

lemma until_append:
  "pat \<noteq> [] \<Longrightarrow> until pat (s @ pat) = Some s \<longleftrightarrow> (\<forall>k < length s. \<not> prefix pat (drop k s @ pat))"
proof (induction s)
  case Nil
  then show ?case by (cases pat) auto
next
  case (Cons c s)
  then show ?case by (auto simp: less_Suc_eq_0_disj)
qed

lemma dollar_tag_free: "\<not> sublist (''$'' @ dollar_tag s tag @ ''$'') s"
  by (induction s tag rule: dollar_tag.induct) (subst (1) dollar_tag.simps, simp)

lemma dollar_tag_plain: "CHR ''$'' \<notin> set tag \<Longrightarrow> CHR ''$'' \<notin> set (dollar_tag s tag)"
  by (induction s tag rule: dollar_tag.induct) (subst dollar_tag.simps, simp)

text \<open>The delimiter overlaps itself only in its dollar sign.\<close>

lemma delimiter_overlap:
  assumes tag: "CHR ''$'' \<notin> set tag"
    and p: "prefix (''$'' @ tag @ ''$'') (t @ ''$'' @ tag @ ''$'')"
    and t: "t \<noteq> []" "length t < length tag + 2"
  shows "t = ''$'' @ tag"
proof -
  obtain v where v: "t @ ''$'' @ tag @ ''$'' = (''$'' @ tag @ ''$'') @ v"
    using p by (auto simp: prefix_def)
  obtain t' where t': "t = CHR ''$'' # t'" using v t(1) by (cases t) auto
  with v have eq: "t' @ ''$'' @ tag @ ''$'' = tag @ ''$'' @ v" by simp
  have "length t' \<le> length tag" using t' t(2) by simp
  then obtain w where w: "tag = t' @ w"
    using eq by (auto simp: append_eq_append_conv2)
  with eq have "''$'' @ tag @ ''$'' = w @ ''$'' @ v" by simp
  then have "w = []" using tag w by (cases w) auto
  with w t' show ?thesis by simp
qed

lemma read_dollar_quote:
  "read_dollar (sqlDollarQuote s) = Some s \<longleftrightarrow> \<not> suffix (''$'' @ dollar_tag s []) s"
proof -
  let ?tag = "dollar_tag s []"
  let ?q = "''$'' @ ?tag @ ''$''"
  have tag: "CHR ''$'' \<notin> set ?tag" by (rule dollar_tag_plain) simp
  then have "takeWhile (\<lambda>c. c \<noteq> CHR ''$'') (?tag @ CHR ''$'' # x) = ?tag" for x
    by (subst takeWhile_append2) auto
  then have r: "read_dollar (sqlDollarQuote s) = until ?q (s @ ?q)"
    by (simp add: read_dollar_def sqlDollarQuote_def Let_def)
  have u: "until ?q (s @ ?q) = Some s \<longleftrightarrow> (\<forall>k < length s. \<not> prefix ?q (drop k s @ ?q))"
    by (rule until_append) simp
  have "(\<forall>k < length s. \<not> prefix ?q (drop k s @ ?q)) \<longleftrightarrow> \<not> suffix (''$'' @ ?tag) s"
  proof
    assume a: "\<forall>k < length s. \<not> prefix ?q (drop k s @ ?q)"
    show "\<not> suffix (''$'' @ ?tag) s"
    proof
      assume "suffix (''$'' @ ?tag) s"
      then obtain u where u: "s = u @ ''$'' @ ?tag" by (auto simp: suffix_def)
      then have "length u < length s" by (metis length_append less_add_same_cancel1 length_greater_0_conv append_is_Nil_conv list.distinct(1))
      moreover have "drop (length u) s = ''$'' @ ?tag" by (subst u) simp
      ultimately show False using a by auto
    qed
  next
    assume n: "\<not> suffix (''$'' @ ?tag) s"
    show "\<forall>k < length s. \<not> prefix ?q (drop k s @ ?q)"
    proof (intro allI impI notI)
      fix k assume k: "k < length s" and p: "prefix ?q (drop k s @ ?q)"
      show False
      proof (cases "length (drop k s) < length ?tag + 2")
        case True
        have "drop k s = ''$'' @ ?tag"
          by (rule delimiter_overlap [OF tag p _ True]) (use k in simp)
        with n suffix_drop [of k s] show False by simp
      next
        case False
        then have "prefix ?q (drop k s)"
          by (intro prefix_length_prefix [OF p]) simp_all
        then have "sublist ?q s"
          by (metis append_take_drop_id prefixE sublist_appendI append_assoc)
        with dollar_tag_free [of s "[]"] show False by simp
      qed
    qed
  qed
  then show ?thesis unfolding r u .
qed

text \<open>How it reads a double-quoted identifier: a doubled quote stands for one.\<close>

fun read_quoted :: "string \<Rightarrow> (string \<times> string) option" where
  "read_quoted [] = None"
| "read_quoted (c # s) =
     (if c = CHR 0x22
      then (case s of
              d # s' \<Rightarrow> if d = CHR 0x22 then map_option (\<lambda>(x, r). (CHR 0x22 # x, r)) (read_quoted s')
                       else Some ([], s)
            | [] \<Rightarrow> Some ([], []))
      else map_option (\<lambda>(x, r). (c # x, r)) (read_quoted s))"

definition read_ident :: "string \<Rightarrow> (string \<times> string) option" where
  "read_ident q = (case q of c # s \<Rightarrow> if c = CHR 0x22 then read_quoted s else None | [] \<Rightarrow> None)"

lemma read_quoted_escaped:
  "rest = [] \<or> hd rest \<noteq> CHR 0x22 \<Longrightarrow>
   read_quoted (concat (map (\<lambda>c. if c = CHR 0x22 then [CHR 0x22, CHR 0x22] else [c]) s)
     @ CHR 0x22 # rest) = Some (s, rest)"
proof (induction s)
  case Nil
  then show ?case by (cases rest) auto
qed auto

section \<open>Names the generator makes\<close>

lemma lower_segment_byte: "segment_byte c \<Longrightarrow> ident_byte (lower_byte c)"
  by (auto simp: segment_byte_def segment_rune_def ident_byte_def lower_rune_def digit_rune_def
      lower_byte_def byte_char_of_int)

lemma lower_ident_byte [simp]: "ident_byte c \<Longrightarrow> lower_byte c = c"
  by (auto simp: ident_byte_def lower_rune_def digit_rune_def lower_byte_def)

lemma lower_ascii_ident: "\<forall>c \<in> set s. ident_byte c \<Longrightarrow> lower_ascii s = s"
  by (simp add: lower_ascii_def map_idI)

lemma underscore_path_bytes:
  assumes "legal_path p" "c \<in> set (replace_byte CHR ''.'' ''_'' p)"
  shows "segment_byte c"
proof -
  have "segment_byte CHR ''_''" by (simp add: segment_byte_def segment_rune_def)
  with assms legal_path_bytes [OF assms(1)] show ?thesis
    by (auto simp: replace_byte_def split: if_splits)
qed

lemma jsonbPathIndexName_legal:
  assumes "legal_ident table" "legal_ident col" "legal_path path"
    and "length (jsonbPathIndexName table col path) \<le> 63"
  shows "legal_ident (jsonbPathIndexName table col path)"
proof -
  have i: "ident_byte CHR ''_''" "\<forall>c \<in> set ''idx_''. ident_byte c"
    by (auto simp: ident_byte_def lower_rune_def digit_rune_def)
  have "\<forall>c \<in> set (lower_ascii (replace_byte CHR ''.'' ''_'' path)). ident_byte c"
    using underscore_path_bytes [OF assms(3)] by (auto simp: lower_ascii_def lower_segment_byte)
  moreover have "\<forall>c \<in> set (table @ col). ident_byte c"
    using assms(1,2) by (auto simp: legal_ident_def)
  ultimately show ?thesis
    using assms(4) i lower_ascii_ident [of table] lower_ascii_ident [of col]
    by (auto simp: legal_ident_def jsonbPathIndexName_def lower_ascii_def lower_rune_def)
qed

text \<open>A proto identifier, in snake case, is made of identifier bytes.\<close>

definition proto_ident :: "string \<Rightarrow> bool" where
  "proto_ident s \<longleftrightarrow>
     s \<noteq> [] \<and> (\<forall>c \<in> set s. segment_byte c) \<and> \<not> digit_rune (byte (hd s))"

lemma write_lower_segment:
  "segment_byte c \<Longrightarrow> write_lower (byte c, [c]) = [lower_byte c]"
  by (auto simp: write_lower_def isUpper_def lower_byte_def segment_byte_def segment_rune_def
      rune_error_def)

lemma snake_runes_bytes:
  "\<forall>c \<in> set s. segment_byte c \<Longrightarrow>
   x \<in> set (snake_runes prev (map (\<lambda>c. (byte c, [c])) s)) \<Longrightarrow> ident_byte x"
proof (induction s arbitrary: prev)
  case (Cons c s)
  have "ident_byte CHR ''_''" by (simp add: ident_byte_def lower_rune_def)
  with Cons show ?case
    by (auto simp: write_lower_segment lower_segment_byte split: if_splits)
qed simp

lemma snake_runes_lower:
  "\<forall>c \<in> set s. ident_byte c \<Longrightarrow> snake_runes prev (map (\<lambda>c. (byte c, [c])) s) = s"
proof (induction s arbitrary: prev)
  case (Cons c s)
  then have c: "\<not> isUpper (byte c)" "byte c \<noteq> rune_error"
    by (auto simp: ident_byte_def lower_rune_def digit_rune_def isUpper_def rune_error_def)
  with Cons show ?case by (simp add: write_lower_def)
qed simp

lemma toSnake_bytes:
  assumes "proto_ident s"
  shows "toSnake s \<noteq> []" "\<forall>c \<in> set (toSnake s). ident_byte c"
    "lower_rune (byte (hd (toSnake s)))"
proof -
  have seg: "\<forall>c \<in> set s. segment_byte c" using assms by (simp add: proto_ident_def)
  then have r: "runes s = map (\<lambda>c. (byte c, [c])) s"
    by (intro runes_ascii) (auto simp: ascii_def segment_byte_def segment_rune_def)
  then show "\<forall>c \<in> set (toSnake s). ident_byte c"
    using snake_runes_bytes [OF seg] by (auto simp: toSnake_def)
  obtain c t where s: "s = c # t" using assms by (cases s) (auto simp: proto_ident_def)
  then have "toSnake s = lower_byte c # snake_runes (Some c) (map (\<lambda>c. (byte c, [c])) t)"
    using seg r by (simp add: toSnake_def write_lower_segment)
  moreover have "lower_rune (byte (lower_byte c))"
    using s assms seg by (auto simp: proto_ident_def segment_byte_def segment_rune_def
        lower_rune_def digit_rune_def lower_byte_def byte_char_of_int)
  ultimately show "toSnake s \<noteq> []" "lower_rune (byte (hd (toSnake s)))" by auto
qed

lemma toSnake_idem: "\<forall>c \<in> set s. ident_byte c \<Longrightarrow> toSnake s = s"
  using snake_runes_lower [of s None]
  by (cases "s = []") (simp_all add: toSnake_def runes_ascii ascii_def ident_byte_ascii)

lemma comment_lines:
  assumes "\<forall>w \<in> set ws. CHR 0x0A \<notin> set w" "CHR 0x0A \<notin> set b"
  shows "CHR 0x0A \<notin> set (foldl (\<lambda>b line0. let line = trim_space line0 in
      if line = [] then b else (if b \<noteq> [] then b @ '' '' else b) @ line) b ws)"
  using assms
proof (induction ws arbitrary: b)
  case (Cons w ws)
  have "CHR 0x0A \<notin> set (trim_space w)" using Cons.prems(1) set_trim_space [of w] by auto
  with Cons show ?case by (simp add: Let_def)
qed simp

section \<open>Properties\<close>

text \<open>
  \<open>validateSQLIdent\<close> accepts exactly the snake-case identifiers of at most 63 bytes: a lower-case
  letter or underscore, then lower-case letters, digits and underscores. No quote, blank,
  semicolon, upper-case or multi-byte character gets into the unquoted SQL.
\<close>

theorem validateSQLIdent_iff:
  "validateSQLIdent s = Ok () \<longleftrightarrow>
     s \<noteq> [] \<and> length s \<le> 63
     \<and> (let h = byte (hd s) in h = 95 \<or> 97 \<le> h \<and> h \<le> 122)
     \<and> (\<forall>c \<in> set s. let b = byte c in b = 95 \<or> 97 \<le> b \<and> b \<le> 122 \<or> 48 \<le> b \<and> b \<le> 57)"
  by (auto simp: validateSQLIdent_Ok legal_ident_def Let_def lower_rune_def ident_byte_def digit_rune_def)

theorem validateSQLIdent_iff_witness:
  "validateSQLIdent ''llm_providers2'' = Ok () \<and> validateSQLIdent ''x; drop'' \<noteq> Ok ()"
  using validateSQLIdent_iff [of "''llm_providers2''"] validateSQLIdent_iff [of "''x; drop''"]
  by (simp add: Let_def)

text \<open>
  a synthesised index name is legal: for an accepted table, column and JSON path,
  \<open>jsonbPathIndexName\<close> passes \<open>validateSQLIdent\<close> as soon as it passes the length check.
\<close>

theorem jsonb_index_name_legal:
  assumes "validateSQLIdent table = Ok ()" "validateSQLIdent col = Ok ()"
    and "validateJSONBPath path = Ok ()"
    and "checkSynthIdentLen kind (jsonbPathIndexName table col path) = Ok ()"
  shows "validateSQLIdent (jsonbPathIndexName table col path) = Ok ()"
  using assms jsonbPathIndexName_legal [of table col path]
  by (simp add: validateSQLIdent_Ok validateJSONBPath_Ok checkSynthIdentLen_def split: if_splits)

theorem jsonb_index_name_legal_witness:
  "validateSQLIdent (jsonbPathIndexName ''t'' ''c'' ''aws.accountId'') = Ok ()"
proof (rule jsonb_index_name_legal)
  show "validateJSONBPath ''aws.accountId'' = Ok ()"
    by (simp add: validateJSONBPath_Ok legal_path_def segment_byte_def segment_rune_def)
  show "checkSynthIdentLen [] (jsonbPathIndexName ''t'' ''c'' ''aws.accountId'') = Ok ()"
    by (simp add: checkSynthIdentLen_def jsonbPathIndexName_def lower_ascii_def)
qed (simp_all add: validateSQLIdent_Ok legal_ident_def ident_byte_def lower_rune_def digit_rune_def)

text \<open>
  distinct paths need not get distinct index names: on every table and column the accepted paths
  \<open>a.b\<close> and \<open>a_b\<close>, and \<open>ID\<close> and \<open>id\<close>, share theirs.
\<close>

theorem jsonb_index_name_collisions:
  "validateJSONBPath ''a.b'' = Ok () \<and> validateJSONBPath ''a_b'' = Ok ()
   \<and> jsonbPathIndexName table col ''a.b'' = jsonbPathIndexName table col ''a_b''
   \<and> validateJSONBPath ''ID'' = Ok () \<and> validateJSONBPath ''id'' = Ok ()
   \<and> jsonbPathIndexName table col ''ID'' = jsonbPathIndexName table col ''id''"
proof -
  have "lower_byte (CHR ''I'') = CHR ''i''" "lower_byte (CHR ''D'') = CHR ''d''"
    "lower_byte (CHR ''i'') = CHR ''i''" "lower_byte (CHR ''d'') = CHR ''d''"
    by (simp_all add: lower_byte_def) code_simp+
  then show ?thesis
    by (simp add: validateJSONBPath_Ok legal_path_def segment_byte_def segment_rune_def
        jsonbPathIndexName_def lower_ascii_def)
qed

text \<open>
  \<open>toSnake\<close> turns a proto identifier of which the result has at most 63 bytes into an accepted
  SQL identifier, and leaves identifiers already in that form alone.
\<close>

theorem toSnake_legal:
  assumes "proto_ident s"
  shows "(length (toSnake s) \<le> 63 \<longrightarrow> validateSQLIdent (toSnake s) = Ok ())
    \<and> toSnake (toSnake s) = toSnake s"
  using toSnake_bytes [OF assms] toSnake_idem
  by (simp add: validateSQLIdent_Ok legal_ident_def)

theorem toSnake_legal_witness:
  "toSnake ''LLMProvider'' = ''llm_provider'' \<and> validateSQLIdent (toSnake ''LLMProvider'') = Ok ()"
proof -
  have e: "toSnake ''LLMProvider'' = ''llm_provider''"
    by code_simp
  have "proto_ident ''LLMProvider''"
    by (simp add: proto_ident_def segment_byte_def segment_rune_def digit_rune_def)
  with e toSnake_legal [of "''LLMProvider''"] show ?thesis by simp
qed

text \<open>
  a comment is read back from its dollar-quoted literal exactly when it does not end in the
  opening of the delimiter, a dollar sign and the tag: then the closing delimiter is found one
  position early. With the usual empty tag these are the comments that end in a dollar sign.
\<close>

theorem sqlDollarQuote_reads_back:
  "read_dollar (sqlDollarQuote s) = Some s \<longleftrightarrow> \<not> suffix (''$'' @ dollar_tag s []) s"
  by (rule read_dollar_quote)

text \<open>
  the literal made for the comment \<open>Price in $\<close> is read as \<open>Price in \<close> with a stray dollar sign
  after it.
\<close>

theorem sqlDollarQuote_breaks:
  "read_dollar (sqlDollarQuote ''Price in $'') = Some ''Price in ''"
proof -
  have "\<not> sublist ''$$'' ''Price in $''" by (simp add: sublist_code)
  then have "dollar_tag ''Price in $'' [] = []" by (subst dollar_tag.simps) simp
  then show ?thesis by (simp add: sqlDollarQuote_def read_dollar_def Let_def)
qed

text \<open>
  a role name survives \<open>pgIdent\<close>: whatever bytes it has, PostgreSQL reads back that name and
  continues right after the closing quote, so a name cannot break out of the policy statement.
\<close>

theorem pgIdent_reads_back:
  assumes "rest = [] \<or> hd rest \<noteq> CHR 0x22"
  shows "read_ident (pgIdent s @ rest) = Some (s, rest)"
  using read_quoted_escaped [OF assms, of s] by (simp add: read_ident_def pgIdent_def)

theorem pgIdent_reads_back_witness:
  "read_ident (pgIdent [CHR ''a'', CHR 0x22, CHR '';''] @ '' USING'') = Some ([CHR ''a'', CHR 0x22, CHR '';''], '' USING'')"
  by (rule pgIdent_reads_back) simp

text \<open>C0: a normalised proto comment is one line, whatever the comment was.\<close>

theorem normaliseProtoComment_one_line: "CHR 0x0A \<notin> set (normaliseProtoComment raw)"
  using split_on_free [of _ "CHR 0x0A" raw] comment_lines [of "split_on CHR 0x0A raw" "[]"]
  unfolding normaliseProtoComment_def by (simp split: if_splits)

end
