(* ===== verification/FK_Resolve.thy ===== *)
theory FK_Resolve
  imports Ident
begin

text \<open>
  \<^verbatim>\<open>cmd/protoc-gen-go-jet/resolve_fk.go\<close>: foreign keys. The first pass reads one
  column's annotation; the second runs over all plans, and its pointer updates (the completed
  \<^verbatim>\<open>ForeignKeyPlan\<close>, the unique constraint injected into the target's plan) are updates of
  the list of plans, which keep what was changed before an error.
\<close>

section \<open>Errors and the annotation\<close>

datatype fk_syntax_error =
    TargetRequired | TargetWhitespace | TargetShape | MissingFieldName | BadFieldChar rune
  | MalformedPackage | CrossPackage

datatype fk_error =
    Syntax fk_syntax_error | SetNullOnNotNull string | SetDefaultWithoutDefault string
  | MessageNotFound string | FieldNotFound string string | AsymmetricTenancy string string
  | NotEligible string string | SynthTooLong string string

datatype fk_action =
  ActionUnspecified | ActionRestrict | ActionCascade | ActionSetNull | ActionSetDefault
  | ActionNoAction | ActionUnknown

record fk_option =
  opt_target :: string
  opt_on_delete :: fk_action
  opt_on_update :: fk_action
  opt_index :: "bool option"

section \<open>The local pass\<close>

fun fkActionSQL :: "fk_action \<Rightarrow> bool \<Rightarrow> string" where
  "fkActionSQL ActionUnspecified isDelete = (if isDelete then ''RESTRICT'' else ''NO ACTION'')"
| "fkActionSQL ActionRestrict isDelete = ''RESTRICT''"
| "fkActionSQL ActionCascade isDelete = ''CASCADE''"
| "fkActionSQL ActionSetNull isDelete = ''SET NULL''"
| "fkActionSQL ActionSetDefault isDelete = ''SET DEFAULT''"
| "fkActionSQL ActionNoAction isDelete = ''NO ACTION''"
| "fkActionSQL ActionUnknown isDelete = ''NO ACTION''"

definition validateFKActionsAgainstColumn ::
  "foreign_key_plan \<Rightarrow> column_plan \<Rightarrow> (fk_error, unit) outcome" where
  "validateFKActionsAgainstColumn fk c =
     and_then (map_out (\<lambda>(action, label).
         if action = ''SET NULL'' then assert_that (\<not> NotNull c) (SetNullOnNotNull label)
         else if action = ''SET DEFAULT''
           then assert_that (DefaultExpr c \<noteq> []) (SetDefaultWithoutDefault label)
         else Ok ())
       [(OnDelete fk, ''on_delete''), (OnUpdate fk, ''on_update'')]) (\<lambda>_. Ok ())"

text \<open>\<^verbatim>\<open>strings.LastIndex(s, ".")\<close>, \<open>None\<close> for -1.\<close>

definition lastDot :: "string \<Rightarrow> nat option" where
  "lastDot s =
     (if CHR ''.'' \<in> set s
      then Some (length s - 1 - length (takeWhile (\<lambda>c. c \<noteq> CHR ''.'') (rev s))) else None)"

fun bad_field_rune :: "nat \<Rightarrow> (rune \<times> string) list \<Rightarrow> rune option" where
  "bad_field_rune i [] = None"
| "bad_field_rune i ((r, bs) # cs) =
     (if r = 95 \<or> 97 \<le> r \<and> r \<le> 122 \<or> (48 \<le> r \<and> r \<le> 57 \<and> i > 0) \<or> 65 \<le> r \<and> r \<le> 90
      then bad_field_rune (i + length bs) cs else Some r)"

definition validateFKTargetSyntax :: "string \<Rightarrow> (fk_error, unit) outcome" where
  "validateFKTargetSyntax target =
     (if target = [] then Err (Syntax TargetRequired)
      else if contains_any target [CHR 0x20, CHR 0x09, CHR 0x0A, CHR 0x0D]
        then Err (Syntax TargetWhitespace)
      else case lastDot target of
        None \<Rightarrow> Err (Syntax TargetShape)
      | Some i \<Rightarrow>
          if i = 0 then Err (Syntax TargetShape)
          else let fld = drop (i + 1) target; msgPart = take i target in
            if fld = [] then Err (Syntax MissingFieldName)
            else (case bad_field_rune 0 (runes fld) of
              Some r \<Rightarrow> Err (Syntax (BadFieldChar r))
            | None \<Rightarrow>
                if prefix ''.'' msgPart then
                  (let trimmed = trim_prefix ''.'' msgPart in
                   if trimmed = [] \<or> suffix ''.'' trimmed then Err (Syntax MalformedPackage)
                   else Ok ())
                else if CHR ''.'' \<in> set msgPart then Err (Syntax CrossPackage)
                else Ok ()))"

definition parseFKAnnotation ::
  "fk_option \<Rightarrow> column_plan \<Rightarrow> (fk_error, foreign_key_plan) outcome" where
  "parseFKAnnotation fk c =
     (let target = trim_space (opt_target fk) in
      if target = [] then Err (Syntax TargetRequired)
      else and_then (validateFKTargetSyntax target) (\<lambda>_.
        let plan = empty_fk\<lparr>RawTarget := target, OnDelete := fkActionSQL (opt_on_delete fk) True,
              OnUpdate := fkActionSQL (opt_on_update fk) False,
              BackingIndex := (case opt_index fk of Some b \<Rightarrow> b | None \<Rightarrow> True)\<rparr>
        in and_then (validateFKActionsAgainstColumn plan c) (\<lambda>_. Ok plan)))"

section \<open>The pass over all plans\<close>

definition splitFKTarget :: "string \<Rightarrow> string \<Rightarrow> string \<times> string" where
  "splitFKTarget raw selfFQN =
     (let i = the (lastDot raw); msgPart = take i raw; fieldPart = drop (i + 1) raw in
      if prefix ''.'' msgPart then (trim_prefix ''.'' msgPart, fieldPart)
      else let pkg = (case lastDot selfFQN of
                 Some dot \<Rightarrow> if dot > 0 then take dot selfFQN else [] | None \<Rightarrow> [])
        in if pkg = [] then (msgPart, fieldPart) else (pkg @ ''.'' @ msgPart, fieldPart))"

definition findColumnByProtoField :: "resource_plan \<Rightarrow> string \<Rightarrow> column_plan option" where
  "findColumnByProtoField p fld = find (\<lambda>c. \<not> Synthesized c \<and> ProtoFieldName c = fld) (Columns p)"

definition isFKEligibleTarget :: "resource_plan \<Rightarrow> column_plan \<Rightarrow> bool" where
  "isFKEligibleTarget p c \<longleftrightarrow>
     (length (PrimaryKey p) = 1 \<and> PrimaryKey p ! 0 = DBName c) \<or> Unique c"

fun covers_all :: "string list \<Rightarrow> string list \<Rightarrow> bool" where
  "covers_all [] want \<longleftrightarrow> want = []"
| "covers_all (pk # pks) want \<longleftrightarrow> pk \<in> set want \<and> covers_all pks (removeAll pk want)"

definition targetPKCoversTenantComposite :: "resource_plan \<Rightarrow> string \<Rightarrow> bool" where
  "targetPKCoversTenantComposite target col =
     (case Tenancy target of
        None \<Rightarrow> False
      | Some t \<Rightarrow>
          if length (PrimaryKey target) \<noteq> 2 then False
          else covers_all (PrimaryKey target) (remdups [TenantColumn t, col]))"

definition columnAlreadyCovered :: "resource_plan \<Rightarrow> string \<Rightarrow> bool" where
  "columnAlreadyCovered p col \<longleftrightarrow>
     (PrimaryKey p \<noteq> [] \<and> PrimaryKey p ! 0 = col)
     \<or> (\<exists>idx \<in> set (Indexes p). IdxColumns idx \<noteq> [] \<and> IdxColumns idx ! 0 = col)
     \<or> (\<exists>c \<in> set (Columns p). DBName c = col \<and> Unique c \<and> Tenancy p = None)"

definition addSupplementalUnique :: "resource_plan \<Rightarrow> supplemental_unique \<Rightarrow> resource_plan" where
  "addSupplementalUnique p uq =
     (if \<exists>e \<in> set (SupplementalUniques p). UqName e = UqName uq then p
      else p\<lparr>SupplementalUniques := SupplementalUniques p @ [uq]\<rparr>)"

definition supplementalName :: "string \<Rightarrow> string \<Rightarrow> string \<Rightarrow> string" where
  "supplementalName table tenant col = ''uq_'' @ table @ ''_'' @ tenant @ ''_'' @ col"

text \<open>\<^verbatim>\<open>byFQN\<close>: the last plan of a name wins.\<close>

definition plan_by_fqn :: "resource_plan list \<Rightarrow> string \<Rightarrow> nat option" where
  "plan_by_fqn plans fqn =
     (case filter (\<lambda>i. ResourceFQN (plans ! i) = fqn) [0..<length plans] of
        [] \<Rightarrow> None | j # js \<Rightarrow> Some (last (j # js)))"

definition set_fk :: "resource_plan list \<Rightarrow> nat \<Rightarrow> nat \<Rightarrow> foreign_key_plan \<Rightarrow> resource_plan list" where
  "set_fk plans i ci fk =
     plans[i := (plans ! i)\<lparr>Columns :=
        (Columns (plans ! i))[ci := (Columns (plans ! i) ! ci)\<lparr>ForeignKey := Some fk\<rparr>]\<rparr>]"

text \<open>The last part of \<open>completeFK\<close>: the backing index and the length checks.\<close>

definition finish_index ::
  "resource_plan \<Rightarrow> column_plan \<Rightarrow> foreign_key_plan \<Rightarrow> foreign_key_plan \<times> fk_error option" where
  "finish_index p c fk =
     (let check = (\<lambda>kind name. case checkSynthIdentLen kind name of
            Ok _ \<Rightarrow> None | _ \<Rightarrow> Some (SynthTooLong kind name)) in
      if BackingIndex fk then
        if columnAlreadyCovered p (DBName c)
        then (fk\<lparr>BackingIndex := False\<rparr>, check ''FK constraint'' (ConstraintName fk))
        else let name = ''idx_'' @ TableName p @ ''_'' @ DBName c @ ''_fk''; fk' = fk\<lparr>IndexName := name\<rparr>
          in (fk', case check ''FK backing index'' name of
                     Some e \<Rightarrow> Some e | None \<Rightarrow> check ''FK constraint'' (ConstraintName fk))
      else (fk, check ''FK constraint'' (ConstraintName fk)))"

definition completeFK ::
  "resource_plan list \<Rightarrow> nat \<Rightarrow> nat \<Rightarrow> foreign_key_plan \<Rightarrow> resource_plan list \<times> fk_error option" where
  "completeFK plans i ci fk =
     (let p = plans ! i; c = Columns p ! ci;
          (targetFQN, targetField) = splitFKTarget (RawTarget fk) (ResourceFQN p) in
      case plan_by_fqn plans targetFQN of
        None \<Rightarrow> (plans, Some (MessageNotFound targetFQN))
      | Some ti \<Rightarrow>
          (let target = plans ! ti in
           case findColumnByProtoField target targetField of
             None \<Rightarrow> (plans, Some (FieldNotFound (TableName target) targetField))
           | Some targetCol \<Rightarrow>
               if (Tenancy p = None) \<noteq> (Tenancy target = None)
               then (plans, Some (AsymmetricTenancy (TableName p) (TableName target)))
               else if Tenancy p = None \<and> \<not> isFKEligibleTarget target targetCol
               then (plans, Some (NotEligible targetField (TableName target)))
               else
                 (let fk1 = fk\<lparr>TargetTable := TableName target, TargetColumn := DBName targetCol,
                        ConstraintName := TableName p @ ''_'' @ DBName c @ ''_fkey''\<rparr> in
                  case (Tenancy p, Tenancy target) of
                    (Some t, Some tt) \<Rightarrow>
                      (let fk2 = fk1\<lparr>TenantComposite := True, LocalTenantColumn := TenantColumn t,
                             TargetTenantColumn := TenantColumn tt\<rparr>;
                           plans1 =
                             (if \<not> targetPKCoversTenantComposite target (DBName targetCol)
                                 \<and> \<not> Unique targetCol
                              then plans[ti := addSupplementalUnique target
                                \<lparr>UqName = supplementalName (TableName target) (TenantColumn tt) (DBName targetCol),
                                 UqColumns = [TenantColumn tt, DBName targetCol]\<rparr>]
                              else plans);
                           (fk3, err) = finish_index p c fk2
                       in (set_fk plans1 i ci fk3, err))
                  | _ \<Rightarrow>
                      (let (fk3, err) = finish_index p c fk1 in (set_fk plans i ci fk3, err)))))"

text \<open>
  The loops of \<open>resolveForeignKeys\<close> over the plans and their columns, by position; an error is
  kept with the plan and the column it belongs to.
\<close>

definition fk_positions :: "resource_plan list \<Rightarrow> (nat \<times> nat) list" where
  "fk_positions plans =
     concat (map (\<lambda>i. map (Pair i) [0..<length (Columns (plans ! i))]) [0..<length plans])"

fun resolve_positions ::
  "resource_plan list \<Rightarrow> (nat \<times> nat) list \<Rightarrow> resource_plan list \<times> (string \<times> string \<times> fk_error) list"
where
  "resolve_positions plans [] = (plans, [])"
| "resolve_positions plans ((i, ci) # ps) =
     (let p = plans ! i; c = Columns p ! ci in
      case ForeignKey c of
        None \<Rightarrow> resolve_positions plans ps
      | Some fk \<Rightarrow>
          (let (plans1, err) = completeFK plans i ci fk; (plans2, errs) = resolve_positions plans1 ps
           in (plans2, case err of
                 None \<Rightarrow> errs
               | Some e \<Rightarrow>
                   (ResourceFQN p, if ProtoFieldName c \<noteq> [] then ProtoFieldName c else DBName c, e) # errs)))"

definition resolveForeignKeys ::
  "resource_plan list \<Rightarrow> resource_plan list \<times> (string \<times> string \<times> fk_error) list" where
  "resolveForeignKeys plans = resolve_positions plans (fk_positions plans)"

section \<open>The unique keys of a table\<close>

text \<open>
  The columns of the unique indexes the emitter makes (\<^verbatim>\<open>renderUniqueColumnIndexes\<close>
  of \<^verbatim>\<open>emit_sql.go\<close>): the column, scoped by the tenant and user columns.
\<close>

definition uniqueScope :: "resource_plan \<Rightarrow> string list" where
  "uniqueScope p =
     (case Tenancy p of
        None \<Rightarrow> []
      | Some t \<Rightarrow> TenantColumn t # (if UserScoped t then [UserColumn t] else []))"

definition uniqueIndexColumns :: "resource_plan \<Rightarrow> column_plan \<Rightarrow> string list" where
  "uniqueIndexColumns p c = filter (\<lambda>s. s \<noteq> DBName c) (uniqueScope p) @ [DBName c]"

definition unique_keys :: "resource_plan \<Rightarrow> string list list" where
  "unique_keys p =
     PrimaryKey p # map (uniqueIndexColumns p) (filter Unique (Columns p))
       @ map UqColumns (SupplementalUniques p)"

definition referenced_columns :: "foreign_key_plan \<Rightarrow> string list" where
  "referenced_columns fk =
     (if TenantComposite fk then [TargetTenantColumn fk, TargetColumn fk] else [TargetColumn fk])"

text \<open>What PostgreSQL demands of a foreign key: a unique key on exactly the referenced columns.\<close>

definition backed :: "resource_plan list \<Rightarrow> foreign_key_plan \<Rightarrow> bool" where
  "backed plans fk \<longleftrightarrow>
     (\<exists>t \<in> set plans. TableName t = TargetTable fk
        \<and> (\<exists>k \<in> set (unique_keys t). set k = set (referenced_columns fk)))"

definition fk_at :: "resource_plan list \<Rightarrow> nat \<Rightarrow> nat \<Rightarrow> foreign_key_plan option" where
  "fk_at plans i ci = ForeignKey (Columns (plans ! i) ! ci)"

section \<open>What the pass leaves alone\<close>

definition same_column :: "column_plan \<Rightarrow> column_plan \<Rightarrow> bool" where
  "same_column c d \<longleftrightarrow> d\<lparr>ForeignKey := None\<rparr> = c\<lparr>ForeignKey := None\<rparr>"

definition grows1 :: "resource_plan \<Rightarrow> resource_plan \<Rightarrow> bool" where
  "grows1 p q \<longleftrightarrow>
     TableName q = TableName p \<and> PrimaryKey q = PrimaryKey p \<and> Tenancy q = Tenancy p
     \<and> list_all2 same_column (Columns p) (Columns q)
     \<and> set (SupplementalUniques p) \<subseteq> set (SupplementalUniques q)"

abbreviation grows :: "resource_plan list \<Rightarrow> resource_plan list \<Rightarrow> bool" where
  "grows \<equiv> list_all2 grows1"

text \<open>Constraints on a table are named after their columns.\<close>

definition named_uniques :: "resource_plan \<Rightarrow> bool" where
  "named_uniques p \<longleftrightarrow>
     (\<forall>u \<in> set (SupplementalUniques p). \<exists>t col. Tenancy p = Some t
        \<and> UqName u = supplementalName (TableName p) (TenantColumn t) col
        \<and> UqColumns u = [TenantColumn t, col])"

lemma same_column_refl [simp]: "same_column c c"
  by (simp add: same_column_def)

lemma same_column_fk [simp]: "same_column c (c\<lparr>ForeignKey := fk\<rparr>)"
  by (simp add: same_column_def)

lemma same_column_trans: "same_column c d \<Longrightarrow> same_column d e \<Longrightarrow> same_column c e"
  by (simp add: same_column_def)

lemma same_column_eqs:
  assumes "same_column c d"
  shows "DBName d = DBName c" "Unique d = Unique c"
proof -
  have "DBName (d\<lparr>ForeignKey := None\<rparr>) = DBName (c\<lparr>ForeignKey := None\<rparr>)"
    "Unique (d\<lparr>ForeignKey := None\<rparr>) = Unique (c\<lparr>ForeignKey := None\<rparr>)"
    using assms by (simp_all only: same_column_def)
  then show "DBName d = DBName c" "Unique d = Unique c" by simp_all
qed

lemma grows1_refl [simp]: "grows1 p p"
  by (simp add: grows1_def list_all2_refl)

lemma grows1_trans: "grows1 p q \<Longrightarrow> grows1 q r \<Longrightarrow> grows1 p r"
  using list_all2_trans [of same_column same_column same_column "Columns p" "Columns q" "Columns r"]
    same_column_trans
  by (fastforce simp: grows1_def)

lemma grows_refl [simp]: "grows ps ps"
  by (simp add: list_all2_refl)

lemma grows_trans: "grows ps qs \<Longrightarrow> grows qs rs \<Longrightarrow> grows ps rs"
  using list_all2_trans [of grows1 grows1 grows1 ps qs rs] grows1_trans by blast

lemma grows_update: "grows1 (ps ! i) q \<Longrightarrow> grows ps (ps[i := q])"
  by (cases "i < length ps") (auto simp: list_all2_conv_all_nth nth_list_update)

lemma grows1_keys:
  assumes "grows1 p q"
  shows "set (unique_keys p) \<subseteq> set (unique_keys q)"
proof -
  have cols: "list_all2 same_column (Columns p) (Columns q)" using assms by (simp add: grows1_def)
  have scope: "uniqueScope q = uniqueScope p" using assms by (simp add: grows1_def uniqueScope_def)
  have "uniqueIndexColumns p c \<in> uniqueIndexColumns q ` {d \<in> set (Columns q). Unique d}"
    if c: "c \<in> set (Columns p)" "Unique c" for c
  proof -
    from c(1) obtain k where k: "k < length (Columns p)" "c = Columns p ! k"
      by (auto simp: in_set_conv_nth)
    then have s: "same_column c (Columns q ! k)" and "k < length (Columns q)"
      using cols by (auto simp: list_all2_conv_all_nth)
    then have "Columns q ! k \<in> set (Columns q)" by simp
    moreover have "uniqueIndexColumns p c = uniqueIndexColumns q (Columns q ! k)"
      using same_column_eqs [OF s] scope by (simp add: uniqueIndexColumns_def)
    ultimately show ?thesis using same_column_eqs(2) [OF s] c(2) by blast
  qed
  then show ?thesis using assms by (auto simp: unique_keys_def grows1_def)
qed

lemma backedI:
  assumes "t \<in> set plans" "TableName t = TargetTable fk" "k \<in> set (unique_keys t)"
    and "set k = set (referenced_columns fk)"
  shows "backed plans fk"
  unfolding backed_def using assms by blast

lemma grows_backed:
  assumes "grows ps qs" "backed ps fk"
  shows "backed qs fk"
proof -
  from assms(2) obtain t k where t: "t \<in> set ps" "TableName t = TargetTable fk"
      "k \<in> set (unique_keys t)" "set k = set (referenced_columns fk)"
    unfolding backed_def by blast
  from t(1) obtain i where "i < length ps" "t = ps ! i" by (auto simp: in_set_conv_nth)
  with t have i: "i < length ps" "TableName (ps ! i) = TargetTable fk"
      "k \<in> set (unique_keys (ps ! i))" "set k = set (referenced_columns fk)" by auto
  with assms(1) have "i < length qs" "grows1 (ps ! i) (qs ! i)"
    by (auto simp: list_all2_conv_all_nth)
  then have "qs ! i \<in> set qs" "TableName (qs ! i) = TargetTable fk" "k \<in> set (unique_keys (qs ! i))"
    using i grows1_keys [of "ps ! i" "qs ! i"] by (auto simp: grows1_def)
  then show ?thesis using i(4) by (rule backedI)
qed

lemma grows_columns:
  assumes "grows ps qs" "i < length ps"
  shows "length (Columns (qs ! i)) = length (Columns (ps ! i))"
  using assms by (auto simp: list_all2_conv_all_nth grows1_def)

lemma set_fk_grows: "grows ps (set_fk ps i ci fk)"
  unfolding set_fk_def
proof (rule grows_update)
  have "list_all2 same_column cs (cs[ci := (cs ! ci)\<lparr>ForeignKey := Some fk\<rparr>])" for cs
    by (cases "ci < length cs") (auto simp: list_all2_conv_all_nth nth_list_update)
  then show "grows1 (ps ! i) ((ps ! i)\<lparr>Columns := (Columns (ps ! i))
      [ci := (Columns (ps ! i) ! ci)\<lparr>ForeignKey := Some fk\<rparr>]\<rparr>)"
    by (simp add: grows1_def)
qed

lemma fk_at_set_fk:
  assumes "i < length ps" "ci < length (Columns (ps ! i))"
  shows "fk_at (set_fk ps i ci fk) j cj = (if (j, cj) = (i, ci) then Some fk else fk_at ps j cj)"
  using assms by (auto simp: fk_at_def set_fk_def nth_list_update)

lemma named_set_fk:
  assumes "\<forall>p \<in> set ps. named_uniques p" "i < length ps"
  shows "\<forall>p \<in> set (set_fk ps i ci fk). named_uniques p"
proof -
  have "named_uniques ((ps ! i)\<lparr>Columns := cs\<rparr>)" for cs
    using assms by (simp add: named_uniques_def)
  with assms(1) show ?thesis
    using set_update_subset_insert [of ps i] unfolding set_fk_def by blast
qed

lemma supplementalName_inj: "supplementalName t n c = supplementalName t n d \<longleftrightarrow> c = d"
  by (simp add: supplementalName_def)

lemma addSupplementalUnique_spec:
  fixes col :: string
  assumes "named_uniques p" "Tenancy p = Some t"
  defines "q \<equiv> addSupplementalUnique p
    \<lparr>UqName = supplementalName (TableName p) (TenantColumn t) col, UqColumns = [TenantColumn t, col]\<rparr>"
  shows "grows1 p q" "named_uniques q" "[TenantColumn t, col] \<in> set (unique_keys q)"
    "Columns q = Columns p"
proof -
  show "grows1 p q" "Columns q = Columns p"
    by (auto simp: q_def addSupplementalUnique_def grows1_def list_all2_refl)
  show "named_uniques q"
    using assms(1,2) by (auto simp: q_def addSupplementalUnique_def named_uniques_def)
  show "[TenantColumn t, col] \<in> set (unique_keys q)"
  proof (cases "\<exists>e \<in> set (SupplementalUniques p). UqName e = supplementalName (TableName p) (TenantColumn t) col")
    case True
    then obtain e where "e \<in> set (SupplementalUniques p)" "UqColumns e = [TenantColumn t, col]"
      using assms(1,2) by (fastforce simp: named_uniques_def supplementalName_inj)
    then have "[TenantColumn t, col] \<in> UqColumns ` set (SupplementalUniques p)" by force
    with True show ?thesis by (auto simp: q_def addSupplementalUnique_def unique_keys_def)
  next
    case False
    then show ?thesis by (auto simp: q_def addSupplementalUnique_def unique_keys_def)
  qed
qed

section \<open>One foreign key completed\<close>

lemma plan_by_fqn_Some:
  assumes "plan_by_fqn plans fqn = Some ti"
  shows "ti < length plans" "ResourceFQN (plans ! ti) = fqn"
proof -
  obtain i js where "filter (\<lambda>i. ResourceFQN (plans ! i) = fqn) [0..<length plans] = i # js"
      "ti = last (i # js)"
    using assms by (auto simp: plan_by_fqn_def split: list.splits)
  then have "ti \<in> set (filter (\<lambda>i. ResourceFQN (plans ! i) = fqn) [0..<length plans])"
    by (metis last_in_set list.distinct(1))
  then show "ti < length plans" "ResourceFQN (plans ! ti) = fqn" by auto
qed

lemma finish_index_keeps:
  assumes "finish_index p c fk = (fk', err)"
  shows "TargetTable fk' = TargetTable fk \<and> referenced_columns fk' = referenced_columns fk"
  using assms
  by (auto simp: finish_index_def Let_def referenced_columns_def split: if_splits)

lemma covers_all_set: "covers_all pks want \<Longrightarrow> set pks = set want"
proof (induction pks want rule: covers_all.induct)
  case (2 pk pks want)
  then show ?case by auto
qed simp

lemma targetPKCovers_set:
  assumes "targetPKCoversTenantComposite target col" "Tenancy target = Some t"
  shows "set (PrimaryKey target) = {TenantColumn t, col}"
  using assms covers_all_set [of "PrimaryKey target" "remdups [TenantColumn t, col]"]
  by (auto simp: targetPKCoversTenantComposite_def split: if_splits)

text \<open>Tables scoped by tenant and user declare no column of their own \<^verbatim>\<open>unique\<close>.\<close>

definition no_user_scoped_unique :: "resource_plan list \<Rightarrow> bool" where
  "no_user_scoped_unique plans \<longleftrightarrow>
     (\<forall>p \<in> set plans. case Tenancy p of None \<Rightarrow> True
        | Some t \<Rightarrow> UserScoped t \<longrightarrow> (\<forall>c \<in> set (Columns p). \<not> Unique c))"

lemma grows_no_user_scoped_unique:
  assumes "grows ps qs" "no_user_scoped_unique ps"
  shows "no_user_scoped_unique qs"
proof -
  have "\<not> Unique d" if q: "q \<in> set qs" "Tenancy q = Some t" "UserScoped t" "d \<in> set (Columns q)" for q t d
  proof -
    from q(1) obtain i where "i < length qs" "q = qs ! i" by (auto simp: in_set_conv_nth)
    with assms(1) have p: "ps ! i \<in> set ps" "grows1 (ps ! i) q"
      by (auto simp: list_all2_conv_all_nth)
    let ?p = "ps ! i"
    from p have tp: "Tenancy ?p = Some t" and "list_all2 same_column (Columns ?p) (Columns q)"
      using q(2) by (auto simp: grows1_def)
    moreover from q(4) obtain j where "j < length (Columns q)" "d = Columns q ! j"
      by (auto simp: in_set_conv_nth)
    ultimately have "Columns ?p ! j \<in> set (Columns ?p)" "same_column (Columns ?p ! j) d"
      by (auto simp: list_all2_conv_all_nth)
    with assms(2) p(1) tp q(3) show ?thesis
      by (fastforce simp: no_user_scoped_unique_def dest: same_column_eqs)
  qed
  then show ?thesis by (auto simp: no_user_scoped_unique_def split: option.splits)
qed

lemma find_column:
  assumes "findColumnByProtoField p fld = Some c"
  shows "c \<in> set (Columns p)"
  using assms by (auto simp: findColumnByProtoField_def find_Some_iff)

text \<open>The unique key behind a completed foreign key, without and with tenancy.\<close>

lemma plain_key:
  assumes "isFKEligibleTarget p c" "c \<in> set (Columns p)" "Tenancy p = None"
  shows "\<exists>k \<in> set (unique_keys p). set k = {DBName c}"
proof (cases "Unique c")
  case True
  then have "uniqueIndexColumns p c \<in> set (unique_keys p)"
    using assms(2) by (simp add: unique_keys_def)
  moreover have "set (uniqueIndexColumns p c) = {DBName c}"
    using assms(3) by (simp add: uniqueIndexColumns_def uniqueScope_def)
  ultimately show ?thesis by blast
next
  case False
  with assms(1) have "PrimaryKey p = [DBName c]"
    by (auto simp: isFKEligibleTarget_def length_Suc_conv)
  then show ?thesis by (simp add: unique_keys_def)
qed

lemma tenant_key:
  assumes "Unique c \<or> targetPKCoversTenantComposite p (DBName c)" "c \<in> set (Columns p)"
    and "Tenancy p = Some t" "Unique c \<Longrightarrow> \<not> UserScoped t"
  shows "\<exists>k \<in> set (unique_keys p). set k = {TenantColumn t, DBName c}"
proof (cases "Unique c")
  case True
  then have "uniqueIndexColumns p c \<in> set (unique_keys p)"
    using assms(2) by (simp add: unique_keys_def)
  moreover have "set (uniqueIndexColumns p c) = {TenantColumn t, DBName c}"
    using assms(3,4) True by (auto simp: uniqueIndexColumns_def uniqueScope_def)
  ultimately show ?thesis by blast
next
  case False
  with assms targetPKCovers_set [of p "DBName c" t] show ?thesis by (auto simp: unique_keys_def)
qed

lemma completeFK_ok:
  assumes ok: "completeFK plans i ci fk = (plans', None)"
    and i: "i < length plans" "ci < length (Columns (plans ! i))"
    and named: "\<forall>p \<in> set plans. named_uniques p"
    and scope: "no_user_scoped_unique plans"
    and raw: "\<not> TenantComposite fk"
  shows "grows plans plans' \<and> (\<forall>p \<in> set plans'. named_uniques p)
    \<and> (\<forall>j cj. (j, cj) \<noteq> (i, ci) \<longrightarrow> fk_at plans' j cj = fk_at plans j cj)
    \<and> (\<exists>fk'. fk_at plans' i ci = Some fk' \<and> backed plans' fk')"
proof -
  let ?p = "plans ! i" and ?c = "Columns (plans ! i) ! ci"
  obtain fqn fld where split: "splitFKTarget (RawTarget fk) (ResourceFQN ?p) = (fqn, fld)" by fastforce
  obtain ti where ti: "plan_by_fqn plans fqn = Some ti"
    using ok split by (auto simp: completeFK_def Let_def split: option.splits)
  obtain tc where tc: "findColumnByProtoField (plans ! ti) fld = Some tc"
    using ok split ti by (auto simp: completeFK_def Let_def split: option.splits)
  let ?t = "plans ! ti"
  have tlen: "ti < length plans" using plan_by_fqn_Some [OF ti] by simp
  have tcol: "tc \<in> set (Columns ?t)" using find_column [OF tc] .
  have sym: "(Tenancy ?p = None) = (Tenancy ?t = None)"
    using ok split ti tc by (auto simp: completeFK_def Let_def split: if_splits)
  let ?fk1 = "fk\<lparr>TargetTable := TableName ?t, TargetColumn := DBName tc,
      ConstraintName := TableName ?p @ ''_'' @ DBName ?c @ ''_fkey''\<rparr>"
  show ?thesis
  proof (cases "Tenancy ?p")
    case None
    with sym have tn: "Tenancy ?t = None" by simp
    have el: "isFKEligibleTarget ?t tc"
      using ok split ti tc None tn by (auto simp: completeFK_def Let_def split: if_splits)
    obtain fk3 where f: "finish_index ?p ?c ?fk1 = (fk3, None)" "plans' = set_fk plans i ci fk3"
      using ok split ti tc None tn el by (auto simp: completeFK_def Let_def split: prod.splits)
    have "TargetTable fk3 = TableName ?t" "set (referenced_columns fk3) = {DBName tc}"
      using finish_index_keeps [OF f(1)] raw by (simp_all add: referenced_columns_def)
    then have "backed plans fk3"
      using plain_key [OF el tcol tn] tlen backedI [of ?t plans fk3] by auto
    with f(2) show ?thesis
      using set_fk_grows grows_backed [OF set_fk_grows] named_set_fk [OF named i(1)]
        fk_at_set_fk [OF i] by auto
  next
    case (Some t)
    with sym obtain tt where tt: "Tenancy ?t = Some tt" by auto
    let ?fk2 = "?fk1\<lparr>TenantComposite := True, LocalTenantColumn := TenantColumn t,
        TargetTenantColumn := TenantColumn tt\<rparr>"
    let ?uq = "\<lparr>UqName = supplementalName (TableName ?t) (TenantColumn tt) (DBName tc),
        UqColumns = [TenantColumn tt, DBName tc]\<rparr>"
    let ?need = "\<not> targetPKCoversTenantComposite ?t (DBName tc) \<and> \<not> Unique tc"
    let ?plans1 = "if ?need then plans[ti := addSupplementalUnique ?t ?uq] else plans"
    obtain fk3 where f: "finish_index ?p ?c ?fk2 = (fk3, None)" "plans' = set_fk ?plans1 i ci fk3"
      using ok split ti tc Some tt by (auto simp: completeFK_def Let_def split: prod.splits)
    have ref: "TargetTable fk3 = TableName ?t"
        "set (referenced_columns fk3) = {TenantColumn tt, DBName tc}"
      using finish_index_keeps [OF f(1)] by (simp_all add: referenced_columns_def)
    have nt: "named_uniques ?t" using named tlen by simp
    note sup = addSupplementalUnique_spec [OF nt tt, of "DBName tc"]
    have g1: "grows plans ?plans1" using grows_update [OF sup(1)] by simp
    have named1: "\<forall>p \<in> set ?plans1. named_uniques p"
      using named sup(2) set_update_subset_insert [of plans ti] by auto
    have len1: "i < length ?plans1" "ci < length (Columns (?plans1 ! i))"
      using i grows_columns [OF g1 i(1)] by auto
    have b1: "backed ?plans1 fk3"
    proof (cases ?need)
      case True
      then have "?plans1 ! ti = addSupplementalUnique ?t ?uq" "ti < length ?plans1" using tlen by auto
      moreover have "TableName (addSupplementalUnique ?t ?uq) = TableName ?t"
        using sup(1) by (simp add: grows1_def)
      ultimately show ?thesis
        using backedI [OF nth_mem [of ti ?plans1], of fk3 "[TenantColumn tt, DBName tc]"] sup(3) ref
        by simp
    next
      case False
      have "Unique tc \<Longrightarrow> \<not> UserScoped tt"
        using scope nth_mem [OF tlen] tt tcol by (fastforce simp: no_user_scoped_unique_def)
      with False obtain k where "k \<in> set (unique_keys ?t)" "set k = {TenantColumn tt, DBName tc}"
        using tenant_key [OF _ tcol tt] by blast
      then have "backed plans fk3" using backedI [OF nth_mem [OF tlen], of fk3 k] ref by simp
      with False show ?thesis by auto
    qed
    have same: "fk_at ?plans1 j cj = fk_at plans j cj" for j cj
      using sup(4) tlen by (cases "j = ti") (auto simp: fk_at_def)
    have "grows plans plans'" using grows_trans [OF g1 set_fk_grows] f(2) by simp
    moreover have "backed plans' fk3" using grows_backed [OF set_fk_grows b1] f(2) by simp
    moreover have "\<forall>p \<in> set plans'. named_uniques p" using named_set_fk [OF named1 len1(1)] f(2) by simp
    ultimately show ?thesis using fk_at_set_fk [OF len1] f(2) same by auto
  qed
qed

section \<open>The whole pass\<close>

definition untouched :: "resource_plan list \<Rightarrow> nat \<times> nat \<Rightarrow> bool" where
  "untouched plans = (\<lambda>(i, ci). i < length plans \<and> ci < length (Columns (plans ! i))
     \<and> (\<forall>fk. fk_at plans i ci = Some fk \<longrightarrow> \<not> TenantComposite fk))"

definition fk_ok :: "resource_plan list \<Rightarrow> nat \<times> nat \<Rightarrow> bool" where
  "fk_ok plans = (\<lambda>(i, ci). \<forall>fk. fk_at plans i ci = Some fk \<longrightarrow> backed plans fk)"

lemma untouched_step:
  assumes "grows plans plans'" "untouched plans x" "(\<lambda>(i, ci). fk_at plans' i ci = fk_at plans i ci) x"
  shows "untouched plans' x"
  using assms grows_columns [OF assms(1)]
  by (auto simp: untouched_def list_all2_lengthD split: prod.splits)

lemma resolve_positions_ok:
  assumes "resolve_positions plans ps = (plans', [])" "distinct ps" "\<forall>x \<in> set ps. untouched plans x"
    and "\<forall>p \<in> set plans. named_uniques p" "no_user_scoped_unique plans"
  shows "grows plans plans' \<and> (\<forall>j cj. (j, cj) \<notin> set ps \<longrightarrow> fk_at plans' j cj = fk_at plans j cj)
    \<and> (\<forall>x \<in> set ps. fk_ok plans' x)"
  using assms
proof (induction plans ps arbitrary: plans' rule: resolve_positions.induct)
  case (1 plans)
  then show ?case by simp
next
  case (2 plans i ci ps)
  have u: "untouched plans (i, ci)" using 2(5) by simp
  show ?case
  proof (cases "ForeignKey (Columns (plans ! i) ! ci)")
    case None
    with 2 have "grows plans plans' \<and> (\<forall>j cj. (j, cj) \<notin> set ps \<longrightarrow> fk_at plans' j cj = fk_at plans j cj)
      \<and> (\<forall>x \<in> set ps. fk_ok plans' x)" by simp
    with None 2(4) show ?thesis by (auto simp: fk_ok_def fk_at_def)
  next
    case (Some fk)
    obtain plans1 err where c: "completeFK plans i ci fk = (plans1, err)" by fastforce
    obtain plans2 errs where r: "resolve_positions plans1 ps = (plans2, errs)" by fastforce
    have e: "err = None" "errs = []" "plans2 = plans'"
      using 2(3) c r Some by (auto simp: Let_def split: option.splits)
    have ok: "grows plans plans1 \<and> (\<forall>p \<in> set plans1. named_uniques p)
      \<and> (\<forall>j cj. (j, cj) \<noteq> (i, ci) \<longrightarrow> fk_at plans1 j cj = fk_at plans j cj)
      \<and> (\<exists>fk'. fk_at plans1 i ci = Some fk' \<and> backed plans1 fk')"
      using u Some c e(1) 2(6,7)
      by (intro completeFK_ok [of plans i ci fk plans1]) (auto simp: untouched_def fk_at_def)
    have "untouched plans1 x" if x: "x \<in> set ps" for x
    proof -
      have "x \<noteq> (i, ci)" using x 2(4) by auto
      then have "(\<lambda>(i, ci). fk_at plans1 i ci = fk_at plans i ci) x" using ok by (cases x) auto
      with ok 2(5) x show ?thesis by (intro untouched_step [of plans plans1]) auto
    qed
    then have ih: "grows plans1 plans' \<and> (\<forall>j cj. (j, cj) \<notin> set ps \<longrightarrow> fk_at plans' j cj = fk_at plans1 j cj)
      \<and> (\<forall>x \<in> set ps. fk_ok plans' x)"
      using 2(2) [OF refl refl Some c [symmetric]] r e 2(4,7) ok
        grows_no_user_scoped_unique [of plans plans1] by simp
    have "fk_at plans' i ci = fk_at plans1 i ci" using ih 2(4) by auto
    then have "fk_ok plans' (i, ci)" using ok ih grows_backed [of plans1 plans'] by (auto simp: fk_ok_def)
    with ih ok show ?thesis using grows_trans [of plans plans1 plans'] by auto
  qed
qed

lemma fk_positions_distinct: "distinct (fk_positions plans)"
proof -
  have "distinct (concat (map (\<lambda>i. map (Pair i) [0..<n i]) [0..<k]))" for n k
    by (induction k) (auto simp: distinct_map inj_on_def)
  then show ?thesis by (simp add: fk_positions_def)
qed

lemma fk_positions_set:
  "set (fk_positions plans) = {(i, ci). i < length plans \<and> ci < length (Columns (plans ! i))}"
  by (auto simp: fk_positions_def)

definition freshly_parsed :: "resource_plan \<Rightarrow> bool" where
  "freshly_parsed p \<longleftrightarrow> SupplementalUniques p = []
     \<and> (\<forall>c \<in> set (Columns p). \<forall>fk. ForeignKey c = Some fk
          \<longrightarrow> (\<exists>opt. parseFKAnnotation opt (c\<lparr>ForeignKey := None\<rparr>) = Ok fk))"

lemma parseFKAnnotation_plain: "parseFKAnnotation opt c = Ok fk \<Longrightarrow> \<not> TenantComposite fk"
  by (auto simp: parseFKAnnotation_def Let_def empty_fk_def go_simps split: if_splits)

lemma resolved_keys_backed:
  assumes "resolveForeignKeys plans = (plans', [])"
    and "\<forall>p \<in> set plans. freshly_parsed p"
    and "no_user_scoped_unique plans"
  shows "grows plans plans' \<and>
    (\<forall>p \<in> set plans'. \<forall>c \<in> set (Columns p). \<forall>fk. ForeignKey c = Some fk \<longrightarrow> backed plans' fk)"
proof -
  have "untouched plans (i, ci)" if "i < length plans" "ci < length (Columns (plans ! i))" for i ci
  proof -
    have "freshly_parsed (plans ! i)" "Columns (plans ! i) ! ci \<in> set (Columns (plans ! i))"
      using that assms(2) by auto
    then have "\<not> TenantComposite fk" if "fk_at plans i ci = Some fk" for fk
      using that parseFKAnnotation_plain unfolding fk_at_def freshly_parsed_def by blast
    with that show ?thesis by (simp add: untouched_def)
  qed
  moreover have "\<forall>p \<in> set plans. named_uniques p"
    using assms(2) by (simp add: named_uniques_def freshly_parsed_def)
  ultimately have r: "grows plans plans' \<and> (\<forall>x \<in> set (fk_positions plans). fk_ok plans' x)"
    using resolve_positions_ok [of plans "fk_positions plans" plans'] assms(1,3)
    by (auto simp: resolveForeignKeys_def fk_positions_distinct fk_positions_set)
  have "backed plans' fk"
    if p: "p \<in> set plans'" "c \<in> set (Columns p)" "ForeignKey c = Some fk" for p c fk
  proof -
    obtain i where i: "i < length plans'" "p = plans' ! i" using p(1) by (auto simp: in_set_conv_nth)
    obtain ci where ci: "ci < length (Columns p)" "c = Columns p ! ci"
      using p(2) by (auto simp: in_set_conv_nth)
    have len: "i < length plans" using list_all2_lengthD [OF conjunct1 [OF r]] i by simp
    have "length (Columns (plans' ! i)) = length (Columns (plans ! i))"
      using r len grows_columns by blast
    then have "(i, ci) \<in> set (fk_positions plans)" using len i ci by (simp add: fk_positions_set)
    then have "fk_ok plans' (i, ci)" using r by blast
    with p(3) i ci show ?thesis by (simp add: fk_ok_def fk_at_def)
  qed
  with r show ?thesis by blast
qed

text \<open>
  C7: When the pass over the plans reports no error, every foreign key it completed references
  columns that carry a unique key of exactly those columns on the target table (its primary key, a
  \<^verbatim>\<open>unique: true\<close> index as the emitter scopes it, or a supplemental unique
  constraint injected by the pass), and the pass changed no table name, primary key, tenancy or
  column besides the foreign keys themselves, and dropped no unique constraint. Hypotheses: the
  keys come from \<open>parseFKAnnotation\<close>, and no table scoped by user has a column declared
  \<^verbatim>\<open>unique\<close>.
\<close>

theorem resolveForeignKeys_backed:
  assumes "resolveForeignKeys plans = (plans', [])"
    and "\<forall>p \<in> set plans. freshly_parsed p"
    and "no_user_scoped_unique plans"
  shows "grows plans plans' \<and>
    (\<forall>p \<in> set plans'. \<forall>c \<in> set (Columns p). \<forall>fk. ForeignKey c = Some fk \<longrightarrow> backed plans' fk)"
  by (rule resolved_keys_backed [OF assms])

text \<open>Two tables of one tenant: books refer to authors by their e-mail address.\<close>

definition text_column :: "string \<Rightarrow> column_plan" where
  "text_column name = empty_column\<lparr>DBName := name, ProtoFieldName := name, SQLType := ''text'', NotNull := True\<rparr>"

definition author_ref :: fk_option where
  "author_ref = \<lparr>opt_target = ''Author.email'', opt_on_delete = ActionCascade,
     opt_on_update = ActionUnspecified, opt_index = None\<rparr>"

definition author_fk :: foreign_key_plan where
  "author_fk = empty_fk\<lparr>RawTarget := ''Author.email'', OnDelete := ''CASCADE'',
     OnUpdate := ''NO ACTION'', BackingIndex := True\<rparr>"

definition sample_tables :: "bool \<Rightarrow> resource_plan list" where
  "sample_tables user =
     (let ten = \<lparr>TenantColumn = ''tenant_id'', RuntimeRole = ''app'', UserScoped = user,
            UserColumn = ''user_id''\<rparr>;
          scope = (if user then [''tenant_id'', ''user_id''] else [''tenant_id'']) in
      [empty_plan\<lparr>ResourceFQN := ''lib.v1.Author'', TableName := ''authors'', Tenancy := Some ten,
         PrimaryKey := scope @ [''id''],
         Columns := [text_column ''id'', (text_column ''email'')\<lparr>Unique := user\<rparr>]\<rparr>,
       empty_plan\<lparr>ResourceFQN := ''lib.v1.Book'', TableName := ''books'', Tenancy := Some ten,
         PrimaryKey := scope @ [''id''],
         Columns := [text_column ''id'', (text_column ''author'')\<lparr>ForeignKey := Some author_fk\<rparr>]\<rparr>])"

lemma sample_tables_fresh: "\<forall>p \<in> set (sample_tables b). freshly_parsed p"
proof -
  have "parseFKAnnotation author_ref (text_column ''author'') = Ok author_fk" by code_simp
  moreover have "(text_column ''author'')\<lparr>ForeignKey := None\<rparr> = text_column ''author''"
    by (simp add: text_column_def empty_column_def)
  ultimately have "\<exists>opt. parseFKAnnotation opt ((text_column ''author'')\<lparr>ForeignKey := None\<rparr>) = Ok author_fk"
    by auto
  moreover have "ForeignKey (text_column n) = None" for n by (simp add: text_column_def empty_column_def)
  ultimately show ?thesis by (simp add: sample_tables_def freshly_parsed_def Let_def empty_plan_def)
qed

theorem resolveForeignKeys_backed_witness:
  "\<exists>fk. ForeignKey (Columns (fst (resolveForeignKeys (sample_tables False)) ! 1) ! 1) = Some fk
     \<and> backed (fst (resolveForeignKeys (sample_tables False))) fk
     \<and> referenced_columns fk = [''tenant_id'', ''email'']"
proof -
  let ?r = "fst (resolveForeignKeys (sample_tables False))"
  have ok: "resolveForeignKeys (sample_tables False) = (?r, [])"
    and p: "1 < length ?r" "1 < length (Columns (?r ! 1))"
    and fk: "map_option referenced_columns (ForeignKey (Columns (?r ! 1) ! 1)) = Some [''tenant_id'', ''email'']"
    by code_simp+
  have "no_user_scoped_unique (sample_tables False)" by code_simp
  note all = resolveForeignKeys_backed [OF ok sample_tables_fresh this, THEN conjunct2]
  from fk obtain k where k: "ForeignKey (Columns (?r ! 1) ! 1) = Some k"
      "referenced_columns k = [''tenant_id'', ''email'']" by auto
  from bspec [OF bspec [OF all nth_mem [OF p(1)]] nth_mem [OF p(2)]] k(1) have "backed ?r k" by blast
  with k show ?thesis by blast
qed

text \<open>
  The pass accepts a foreign key to a \<^verbatim>\<open>unique: true\<close> column of a table scoped by
  tenant and user without injecting a constraint, although the index emitted for that column covers
  (tenant, user, column): the key it completes references (tenant, column), and no unique key of the
  target has exactly those columns, so that PostgreSQL refuses the DDL.
\<close>

theorem user_scoped_unique_target_unbacked:
  "snd (resolveForeignKeys (sample_tables True)) = []
   \<and> (case ForeignKey (Columns (fst (resolveForeignKeys (sample_tables True)) ! 1) ! 1) of
        Some fk \<Rightarrow> referenced_columns fk = [''tenant_id'', ''email'']
          \<and> \<not> backed (fst (resolveForeignKeys (sample_tables True))) fk
      | None \<Rightarrow> False)
   \<and> uniqueIndexColumns (fst (resolveForeignKeys (sample_tables True)) ! 0)
        ((text_column ''email'')\<lparr>Unique := True\<rparr>) = [''tenant_id'', ''user_id'', ''email'']"
  by code_simp

end
