(* ===== verification/Column_Resolve.thy ===== *)
theory Column_Resolve
  imports FK_Resolve
begin

text \<open>
  The column part of \<^verbatim>\<open>cmd/protoc-gen-go-jet/resolve.go\<close>: how one proto field with its
  \<^verbatim>\<open>(storage.v1.column)\<close> option becomes a column. A field descriptor is a record of what
  the code asks of \<^verbatim>\<open>protoreflect\<close>; enum values are in declaration order. The import path
  of the jet model type is left out. An absent option, and a nil field, are \<open>None\<close>.
\<close>

section \<open>Fields and options\<close>

datatype behavior = BehaviorIdentifier | BehaviorImmutable | BehaviorOther

datatype storage = StorageUnspecified | JsonbProto | StorageArray | TextEnum | JsonbStrmap

record column_option =
  col_skip :: bool
  col_name :: string
  col_orderable :: bool
  col_immutable :: bool
  col_nullable :: bool
  col_unique :: bool
  col_allow_zero_enum :: bool
  col_jsonb_gin_index :: bool
  col_default_expr :: string
  col_check :: string
  col_rename_from :: string
  col_storage :: storage
  col_jsonb_indexed_paths :: "string list"
  col_generated_expr :: string
  col_foreign_key :: "fk_option option"

definition no_column_option :: column_option where
  "no_column_option = \<lparr>col_skip = False, col_name = [], col_orderable = False, col_immutable = False,
     col_nullable = False, col_unique = False, col_allow_zero_enum = False,
     col_jsonb_gin_index = False, col_default_expr = [], col_check = [], col_rename_from = [],
     col_storage = StorageUnspecified, col_jsonb_indexed_paths = [], col_generated_expr = [],
     col_foreign_key = None\<rparr>"

record proto_field =
  fld_name :: string
  fld_comment :: string
  fld_kind :: proto_kind
  fld_is_list :: bool
  fld_is_map :: bool
  fld_map_key :: proto_kind
  fld_map_value :: proto_kind
  fld_message :: string
  fld_enum_name :: string
  fld_enum_values :: "(string \<times> int) list"
  fld_optional :: bool
  fld_behaviors :: "behavior list"
  fld_column :: "column_option option"
  fld_oneof :: "string option"

section \<open>Errors\<close>

datatype encoding_error =
    StrmapNeedsMap | StrmapNeedsStrings proto_kind proto_kind | ArrayNeedsRepeated
  | TextEnumNeedsEnum | JsonbProtoNeedsMessage | RepeatedBytes | RepeatedKind proto_kind
  | NoPersistableValues string | UnsupportedKind proto_kind
  | MapValueKindUnsupported proto_kind proto_kind

datatype index_fault = BoolColumn | WrongKind column_kind

datatype option_fault =
    Semicolon string | NotJsonb column_kind | BadPath string path_error | BadIndexing index_fault
  | BadTarget fk_error | AlongsideGenerated

datatype column_error =
    SkipImmutable | SkipWith string | BadColumnName string ident_error
  | Encoding encoding_error | NeedsOptional | NullableUnsupported
  | BadRename string ident_error | RenameToSelf string | BadOption string option_fault

section \<open>Kinds\<close>

fun is_32_bit :: "int_kind \<Rightarrow> bool" where
  "is_32_bit Int32 = True"
| "is_32_bit Sint32 = True"
| "is_32_bit Sfixed32 = True"
| "is_32_bit Uint32 = True"
| "is_32_bit Fixed32 = True"
| "is_32_bit Int64 = False"
| "is_32_bit Sint64 = False"
| "is_32_bit Sfixed64 = False"
| "is_32_bit Uint64 = False"
| "is_32_bit Fixed64 = False"

fun isJSONBKind :: "column_kind \<Rightarrow> bool" where
  "isJSONBKind (KindJSONB j) = True"
| "isJSONBKind k = False"

fun defaultsToNullable :: "column_kind \<Rightarrow> bool" where
  "defaultsToNullable (KindRepeated r) = True"
| "defaultsToNullable (KindJSONB j) = (j \<noteq> JProto)"
| "defaultsToNullable k = False"

record wrapper_mapping =
  w_sqlType :: string
  w_goType :: string
  w_ctor :: string

definition wrapperNative :: "string \<Rightarrow> wrapper_mapping option" where
  "wrapperNative = map_of (map (\<lambda>(n, s, g, c). (''google.protobuf.'' @ n, \<lparr>w_sqlType = s, w_goType = g, w_ctor = c\<rparr>))
     [(''StringValue'', ''TEXT'', ''string'', ''String''),
      (''BoolValue'', ''BOOLEAN'', ''bool'', ''Bool''),
      (''Int32Value'', ''INTEGER'', ''int32'', ''Int32''),
      (''UInt32Value'', ''INTEGER'', ''int32'', ''UInt32''),
      (''Int64Value'', ''BIGINT'', ''int64'', ''Int64''),
      (''UInt64Value'', ''BIGINT'', ''int64'', ''UInt64''),
      (''BytesValue'', ''BYTEA'', ''[]byte'', ''Bytes''),
      (''FloatValue'', ''REAL'', ''float32'', ''Float''),
      (''DoubleValue'', ''DOUBLE PRECISION'', ''float64'', ''Double'')])"

definition impliesImmutable :: "proto_field option \<Rightarrow> bool" where
  "impliesImmutable field =
     (case field of
        None \<Rightarrow> False
      | Some f \<Rightarrow> \<exists>b \<in> set (fld_behaviors f). b = BehaviorIdentifier \<or> b = BehaviorImmutable)"

definition otherSkipViolation :: "column_option \<Rightarrow> string" where
  "otherSkipViolation col =
     (if col_immutable col then ''immutable: true''
      else if col_orderable col then ''orderable: true''
      else if col_unique col then ''unique: true''
      else if col_nullable col then ''nullable: true''
      else if col_allow_zero_enum col then ''allow_zero_enum: true''
      else if col_jsonb_gin_index col then ''jsonb_gin_index: true''
      else if col_name col \<noteq> [] then ''name''
      else if col_default_expr col \<noteq> [] then ''default_expr''
      else if col_check col \<noteq> [] then ''check''
      else if col_rename_from col \<noteq> [] then ''rename_from''
      else if col_storage col \<noteq> StorageUnspecified then ''storage''
      else if col_jsonb_indexed_paths col \<noteq> [] then ''jsonb_indexed_paths''
      else if col_generated_expr col \<noteq> [] then ''generated_expr''
      else [])"

section \<open>Encodings\<close>

definition validateStorageOverride :: "proto_field \<Rightarrow> storage \<Rightarrow> (encoding_error, unit) outcome" where
  "validateStorageOverride f override =
     (case override of
        StorageUnspecified \<Rightarrow> Ok ()
      | JsonbStrmap \<Rightarrow>
          if \<not> fld_is_map f then Err StrmapNeedsMap
          else if fld_map_key f \<noteq> StringKind \<or> fld_map_value f \<noteq> StringKind
            then Err (StrmapNeedsStrings (fld_map_key f) (fld_map_value f))
          else Ok ()
      | StorageArray \<Rightarrow> if \<not> fld_is_list f \<or> fld_is_map f then Err ArrayNeedsRepeated else Ok ()
      | TextEnum \<Rightarrow> if fld_kind f \<noteq> EnumKind then Err TextEnumNeedsEnum else Ok ()
      | JsonbProto \<Rightarrow>
          if fld_kind f \<noteq> MessageKind \<or> fld_is_map f then Err JsonbProtoNeedsMessage else Ok ())"

definition encode_as :: "column_kind \<Rightarrow> string \<Rightarrow> string \<Rightarrow> column_plan \<Rightarrow> column_plan" where
  "encode_as k sql go c = c\<lparr>Kind := k, SQLType := sql, JetGoType := go\<rparr>"

definition default_to :: "string \<Rightarrow> column_plan \<Rightarrow> column_plan" where
  "default_to d c = (if DefaultExpr c = [] then c\<lparr>DefaultExpr := d\<rparr> else c)"

fun inferListEncoding :: "proto_kind \<Rightarrow> string \<Rightarrow> column_plan \<Rightarrow> (encoding_error, column_plan) outcome"
where
  "inferListEncoding StringKind msg c = Ok (encode_as (KindRepeated RText) ''TEXT[]'' ''pq.StringArray'' c)"
| "inferListEncoding EnumKind msg c = Ok (encode_as (KindRepeated REnum) ''TEXT[]'' ''pq.StringArray'' c)"
| "inferListEncoding BoolKind msg c = Ok (encode_as (KindRepeated RBool) ''BOOLEAN[]'' ''pq.BoolArray'' c)"
| "inferListEncoding (IntegerKind i) msg c =
     Ok (if is_32_bit i then encode_as (KindRepeated RInt32) ''INTEGER[]'' ''pq.Int32Array'' c
         else encode_as (KindRepeated RInt64) ''BIGINT[]'' ''pq.Int64Array'' c)"
| "inferListEncoding FloatKind msg c = Ok (encode_as (KindRepeated RFloat32) ''REAL[]'' ''pq.Float32Array'' c)"
| "inferListEncoding DoubleKind msg c =
     Ok (encode_as (KindRepeated RFloat64) ''DOUBLE PRECISION[]'' ''pq.Float64Array'' c)"
| "inferListEncoding MessageKind msg c =
     Ok (if msg = ''google.protobuf.Timestamp''
           then encode_as (KindRepeated RTimestamp) ''TIMESTAMPTZ[]'' ''jettypes.TimestampArray'' c
         else if msg = ''google.protobuf.Duration''
           then encode_as (KindRepeated RDuration) ''BIGINT[]'' ''pq.Int64Array'' c
         else encode_as (KindJSONB JProtoList) ''JSONB'' ''string'' c)"
| "inferListEncoding BytesKind msg c = Err RepeatedBytes"
| "inferListEncoding GroupKind msg c = Err (RepeatedKind GroupKind)"
| "inferListEncoding NoKind msg c = Err (RepeatedKind NoKind)"

definition inferMapEncoding :: "proto_field \<Rightarrow> storage \<Rightarrow> column_plan \<Rightarrow> (encoding_error, column_plan) outcome"
where
  "inferMapEncoding f override c0 =
     (let k = fld_map_key f; v = fld_map_value f; c = c0\<lparr>MapKeyKind := k, MapValueKind := v\<rparr>;
          as = (\<lambda>j. Ok (encode_as (KindJSONB j) ''JSONB'' ''string'' c)) in
      if override = JsonbStrmap \<or> k = StringKind \<and> v = StringKind then as JStrMap
      else if v = MessageKind then as JMapMessage
      else case v of
        StringKind \<Rightarrow> as JMapScalar | BoolKind \<Rightarrow> as JMapScalar | BytesKind \<Rightarrow> as JMapScalar
      | IntegerKind i \<Rightarrow> as JMapScalar
      | EnumKind \<Rightarrow> as JMapEnum
      | _ \<Rightarrow> Err (MapValueKindUnsupported k v))"

definition zero_name :: "(string \<times> int) list \<Rightarrow> string" where
  "zero_name vs = foldl (\<lambda>z (n, i). if i = 0 then n else z) [] vs"

definition enumEncoding :: "proto_field \<Rightarrow> column_option \<Rightarrow> column_plan \<Rightarrow> (encoding_error, column_plan) outcome"
where
  "enumEncoding f col c0 =
     (let c = encode_as KindEnumAsText ''TEXT'' ''string'' c0 in
      if CheckExpr c \<noteq> [] then Ok c
      else
        let zero = zero_name (fld_enum_values f);
            names = map (quoted \<circ> fst)
              (filter (\<lambda>(n, i). i \<noteq> 0 \<or> col_allow_zero_enum col) (fld_enum_values f)) in
        if names = [] then Err (NoPersistableValues (fld_enum_name f))
        else
          let c = c\<lparr>CheckExpr := DBName c @ '' IN ('' @ join '','' names @ '')''\<rparr> in
          Ok (if DefaultExpr c = [] \<and> col_allow_zero_enum col \<and> zero \<noteq> []
              then c\<lparr>DefaultExpr := quoted zero\<rparr> else c))"

definition messageEncoding :: "string \<Rightarrow> column_plan \<Rightarrow> column_plan" where
  "messageEncoding msg c =
     (if msg = ''google.protobuf.Timestamp'' then encode_as KindTimestamp ''TIMESTAMPTZ'' ''time.Time'' c
      else if msg = ''google.protobuf.Duration''
        then default_to ''0'' (encode_as KindDuration ''BIGINT'' ''int64'' c)
      else case wrapperNative msg of
        Some w \<Rightarrow> (encode_as KindScalar (w_sqlType w) (w_goType w) c)\<lparr>WrapperCtor := w_ctor w, Nullable := True\<rparr>
      | None \<Rightarrow> default_to (quoted ''{}'' @ ''::jsonb'') (encode_as (KindJSONB JProto) ''JSONB'' ''string'' c))"

fun inferScalarEncoding ::
  "proto_kind \<Rightarrow> proto_field \<Rightarrow> column_option \<Rightarrow> column_plan \<Rightarrow> (encoding_error, column_plan) outcome"
where
  "inferScalarEncoding StringKind f col c =
     (let c = encode_as KindScalar ''TEXT'' ''string'' c in
      Ok (if DefaultExpr c = [] \<and> \<not> checkRejectsEmptyString (CheckExpr c) (DBName c)
          then c\<lparr>DefaultExpr := quoted []\<rparr> else c))"
| "inferScalarEncoding BoolKind f col c = Ok (default_to ''false'' (encode_as KindScalar ''BOOLEAN'' ''bool'' c))"
| "inferScalarEncoding (IntegerKind i) f col c =
     Ok (default_to ''0'' (if is_32_bit i then encode_as KindScalar ''INTEGER'' ''int32'' c
                          else encode_as KindScalar ''BIGINT'' ''int64'' c))"
| "inferScalarEncoding BytesKind f col c =
     Ok (default_to (quoted [] @ ''::bytea'') (encode_as KindScalar ''BYTEA'' ''[]byte'' c))"
| "inferScalarEncoding FloatKind f col c = Ok (default_to ''0'' (encode_as KindScalar ''REAL'' ''float32'' c))"
| "inferScalarEncoding DoubleKind f col c =
     Ok (default_to ''0'' (encode_as KindScalar ''DOUBLE PRECISION'' ''float64'' c))"
| "inferScalarEncoding EnumKind f col c = enumEncoding f col c"
| "inferScalarEncoding MessageKind f col c = Ok (messageEncoding (fld_message f) c)"
| "inferScalarEncoding GroupKind f col c = Err (UnsupportedKind GroupKind)"
| "inferScalarEncoding NoKind f col c = Err (UnsupportedKind NoKind)"

definition inferFieldEncoding ::
  "proto_field \<Rightarrow> column_option \<Rightarrow> column_plan \<Rightarrow> (encoding_error, column_plan) outcome" where
  "inferFieldEncoding f col c =
     and_then (validateStorageOverride f (col_storage col)) (\<lambda>_.
       if fld_is_list f then inferListEncoding (fld_kind f) (fld_message f) c
       else if fld_is_map f then inferMapEncoding f (col_storage col) c
       else inferScalarEncoding (fld_kind f) f col c)"

section \<open>Options of a column\<close>

definition applyNullable ::
  "proto_field option \<Rightarrow> column_plan \<Rightarrow> string \<Rightarrow> (column_error, column_plan) outcome" where
  "applyNullable field c userDefault =
     (let promoted = c\<lparr>JetGoType := ''*'' @ JetGoType c,
            DefaultExpr := (if userDefault = [] then [] else DefaultExpr c)\<rparr> in
      if Kind c \<in> {KindScalar, KindEnumAsText, KindDuration} then
        if WrapperCtor c = [] \<and> (case field of None \<Rightarrow> True | Some f \<Rightarrow> \<not> fld_optional f)
        then (case field of None \<Rightarrow> Panic | Some f \<Rightarrow> Err NeedsOptional)
        else Ok promoted
      else if Kind c = KindSynthesized then Err NullableUnsupported
      else Ok promoted)"

definition indexable :: "column_plan \<Rightarrow> (index_fault, unit) outcome" where
  "indexable c =
     (case Kind c of
        KindScalar \<Rightarrow> assert_that (\<not> (JetGoType c = ''bool'' \<or> JetGoType c = ''*bool'')) BoolColumn
      | KindTimestamp \<Rightarrow> Ok () | KindDuration \<Rightarrow> Ok () | KindEnumAsText \<Rightarrow> Ok ()
      | k \<Rightarrow> Err (WrongKind k))"

definition validateFKIndexable :: "column_plan \<Rightarrow> (index_fault, unit) outcome" where
  "validateFKIndexable c = indexable c"

definition validateUniqueIndexable :: "column_plan \<Rightarrow> (index_fault, unit) outcome" where
  "validateUniqueIndexable c = indexable c"

definition applyGeneratedExpr :: "column_option \<Rightarrow> column_plan \<Rightarrow> (column_error, column_plan) outcome" where
  "applyGeneratedExpr col c =
     (let expr = col_generated_expr col in
      if expr = [] then Ok c
      else if CHR '';'' \<in> set expr then Err (BadOption ''generated_expr'' (Semicolon expr))
      else if col_default_expr col \<noteq> [] then Err (BadOption ''default_expr'' AlongsideGenerated)
      else if col_unique col then Err (BadOption ''unique'' AlongsideGenerated)
      else if col_foreign_key col \<noteq> None then Err (BadOption ''foreign_key'' AlongsideGenerated)
      else Ok (c\<lparr>DefaultExpr := [], GeneratedExpr := expr\<rparr>))"

definition renameOption :: "column_option \<Rightarrow> column_plan \<Rightarrow> (column_error, column_plan) outcome" where
  "renameOption col c =
     (let old = col_rename_from col in
      if old = [] then Ok c
      else and_then (map_err (BadRename old) (validateSQLIdent old)) (\<lambda>_.
        if old = DBName c then Err (RenameToSelf old) else Ok (c\<lparr>RenameFrom := old\<rparr>)))"

definition jsonbOptions :: "column_option \<Rightarrow> column_plan \<Rightarrow> (column_error, column_plan) outcome" where
  "jsonbOptions col c =
     (let paths = col_jsonb_indexed_paths col in
      and_then (if paths = [] then Ok c
                else if \<not> isJSONBKind (Kind c)
                  then Err (BadOption ''jsonb_indexed_paths'' (NotJsonb (Kind c)))
                else and_then (map_out (\<lambda>p. map_err (\<lambda>e. BadOption ''jsonb_indexed_paths'' (BadPath p e))
                                               (validateJSONBPath p)) paths)
                       (\<lambda>_. Ok (c\<lparr>JSONBIndexedPaths := paths\<rparr>))) (\<lambda>c.
        if \<not> col_jsonb_gin_index col then Ok c
        else if \<not> isJSONBKind (Kind c) then Err (BadOption ''jsonb_gin_index'' (NotJsonb (Kind c)))
        else Ok (c\<lparr>JSONBGinIndex := True\<rparr>)))"

definition keyOptions :: "column_option \<Rightarrow> column_plan \<Rightarrow> (column_error, column_plan) outcome" where
  "keyOptions col c =
     and_then (if col_unique col
               then and_then (map_err (\<lambda>e. BadOption ''unique'' (BadIndexing e)) (validateUniqueIndexable c))
                      (\<lambda>_. Ok (c\<lparr>Unique := True\<rparr>))
               else Ok c) (\<lambda>c.
       case col_foreign_key col of
         None \<Rightarrow> Ok c
       | Some fk \<Rightarrow>
           and_then (map_err (\<lambda>e. BadOption ''foreign_key'' (BadIndexing e)) (validateFKIndexable c)) (\<lambda>_.
           and_then (map_err (\<lambda>e. BadOption ''foreign_key'' (BadTarget e)) (parseFKAnnotation fk c))
             (\<lambda>raw. Ok (c\<lparr>ForeignKey := Some raw\<rparr>))))"

definition start_column :: "proto_field \<Rightarrow> column_option \<Rightarrow> column_plan" where
  "start_column f col =
     empty_column\<lparr>ProtoFieldName := fld_name f, Orderable := col_orderable col,
       Immutable := col_immutable col \<or> impliesImmutable (Some f), Nullable := col_nullable col,
       Comment := normaliseProtoComment (fld_comment f),
       DBName := valOr (col_name col) (toSnake (fld_name f)), NotNull := \<not> col_nullable col,
       DefaultExpr := col_default_expr col, CheckExpr := col_check col\<rparr>"

text \<open>The default of collections to nullable, and the promotion of nullable columns.\<close>

definition settleNullable :: "proto_field \<Rightarrow> string \<Rightarrow> column_plan \<Rightarrow> (column_error, column_plan) outcome"
where
  "settleNullable f userDefault c =
     (let c = (if userDefault = [] \<and> defaultsToNullable (Kind c) then c\<lparr>Nullable := True\<rparr> else c);
          c = c\<lparr>NotNull := \<not> Nullable c\<rparr> in
      if Nullable c then applyNullable (Some f) c userDefault else Ok c)"

definition resolveColumn :: "proto_field \<Rightarrow> (column_error, column_plan option) outcome" where
  "resolveColumn f =
     (let col = (case fld_column f of Some col \<Rightarrow> col | None \<Rightarrow> no_column_option) in
      if col_skip col then
        if impliesImmutable (Some f) then Err SkipImmutable
        else if otherSkipViolation col \<noteq> [] then Err (SkipWith (otherSkipViolation col))
        else Ok None
      else
        let c0 = start_column f col in
        and_then (map_err (BadColumnName (DBName c0)) (validateSQLIdent (DBName c0))) (\<lambda>_.
        and_then (assert_that (CHR '';'' \<notin> set (DefaultExpr c0))
                    (BadOption ''default_expr'' (Semicolon (DefaultExpr c0)))) (\<lambda>_.
        and_then (assert_that (CHR '';'' \<notin> set (CheckExpr c0))
                    (BadOption ''check'' (Semicolon (CheckExpr c0)))) (\<lambda>_.
        let c1 = c0\<lparr>JetFieldName := jetFieldNameFromDB (DBName c0)\<rparr> in
        and_then (map_err Encoding (inferFieldEncoding f col c1)) (\<lambda>c2.
        and_then (settleNullable f (col_default_expr col) c2) (\<lambda>c3.
        and_then (renameOption col c3) (\<lambda>c4.
        and_then (jsonbOptions col c4) (\<lambda>c5.
        and_then (keyOptions col c5) (\<lambda>c6.
        and_then (applyGeneratedExpr col c6) (\<lambda>c7. Ok (Some c7)))))))))))"

section \<open>What the stages keep\<close>

text \<open>The Go type go-jet's introspection gives a column of a SQL type, in the model package.\<close>

definition go_type :: "string \<rightharpoonup> string" where
  "go_type = map_of
     [(''TEXT'', ''string''), (''BOOLEAN'', ''bool''), (''INTEGER'', ''int32''), (''BIGINT'', ''int64''),
      (''BYTEA'', ''[]byte''), (''REAL'', ''float32''), (''DOUBLE PRECISION'', ''float64''),
      (''TIMESTAMPTZ'', ''time.Time''), (''JSONB'', ''string''), (''TEXT[]'', ''pq.StringArray''),
      (''BOOLEAN[]'', ''pq.BoolArray''), (''INTEGER[]'', ''pq.Int32Array''),
      (''BIGINT[]'', ''pq.Int64Array''), (''REAL[]'', ''pq.Float32Array''),
      (''DOUBLE PRECISION[]'', ''pq.Float64Array''), (''TIMESTAMPTZ[]'', ''jettypes.TimestampArray'')]"

text \<open>The SQL types of a kind.\<close>

fun kind_sql :: "column_kind \<Rightarrow> string list" where
  "kind_sql KindScalar =
     [''TEXT'', ''BOOLEAN'', ''INTEGER'', ''BIGINT'', ''BYTEA'', ''REAL'', ''DOUBLE PRECISION'']"
| "kind_sql KindTimestamp = [''TIMESTAMPTZ'']"
| "kind_sql KindDuration = [''BIGINT'']"
| "kind_sql KindEnumAsText = [''TEXT'']"
| "kind_sql (KindRepeated r) =
     [case r of RText \<Rightarrow> ''TEXT[]'' | REnum \<Rightarrow> ''TEXT[]'' | RBool \<Rightarrow> ''BOOLEAN[]''
      | RInt32 \<Rightarrow> ''INTEGER[]'' | RInt64 \<Rightarrow> ''BIGINT[]'' | RFloat32 \<Rightarrow> ''REAL[]''
      | RFloat64 \<Rightarrow> ''DOUBLE PRECISION[]'' | RTimestamp \<Rightarrow> ''TIMESTAMPTZ[]'' | RDuration \<Rightarrow> ''BIGINT[]'']"
| "kind_sql (KindJSONB j) = [''JSONB'']"
| "kind_sql KindSynthesized = []"

definition typed :: "column_plan \<Rightarrow> bool" where
  "typed c \<longleftrightarrow> Kind c \<noteq> KindSynthesized \<and> go_type (SQLType c) = Some (JetGoType c)
     \<and> (isJSONBKind (Kind c) \<longleftrightarrow> SQLType c = ''JSONB'') \<and> SQLType c \<in> set (kind_sql (Kind c))"

text \<open>What the encoding may change of a column.\<close>

definition encoding_frame :: "column_plan \<Rightarrow> column_plan \<Rightarrow> bool" where
  "encoding_frame c c' \<longleftrightarrow>
     c' = c\<lparr>Kind := Kind c', SQLType := SQLType c', JetGoType := JetGoType c',
            DefaultExpr := DefaultExpr c', CheckExpr := CheckExpr c', WrapperCtor := WrapperCtor c',
            Nullable := Nullable c', MapKeyKind := MapKeyKind c', MapValueKind := MapValueKind c'\<rparr>"

lemma go_type_values [simp]:
  "go_type ''TEXT'' = Some ''string''" "go_type ''BOOLEAN'' = Some ''bool''"
  "go_type ''INTEGER'' = Some ''int32''" "go_type ''BIGINT'' = Some ''int64''"
  "go_type ''BYTEA'' = Some ''[]byte''" "go_type ''REAL'' = Some ''float32''"
  "go_type ''DOUBLE PRECISION'' = Some ''float64''" "go_type ''TIMESTAMPTZ'' = Some ''time.Time''"
  "go_type ''JSONB'' = Some ''string''" "go_type ''TEXT[]'' = Some ''pq.StringArray''"
  "go_type ''BOOLEAN[]'' = Some ''pq.BoolArray''" "go_type ''INTEGER[]'' = Some ''pq.Int32Array''"
  "go_type ''BIGINT[]'' = Some ''pq.Int64Array''" "go_type ''REAL[]'' = Some ''pq.Float32Array''"
  "go_type ''DOUBLE PRECISION[]'' = Some ''pq.Float64Array''"
  "go_type ''TIMESTAMPTZ[]'' = Some ''jettypes.TimestampArray''"
  by (simp_all add: go_type_def)

lemma typed_encode [simp]:
  "typed (encode_as k sql go c) \<longleftrightarrow>
     k \<noteq> KindSynthesized \<and> go_type sql = Some go \<and> (isJSONBKind k \<longleftrightarrow> sql = ''JSONB'')
     \<and> sql \<in> set (kind_sql k)"
  by (simp add: typed_def encode_as_def)

lemma typed_updates [simp]:
  "typed (default_to d c) \<longleftrightarrow> typed c" "typed (c\<lparr>DefaultExpr := d\<rparr>) \<longleftrightarrow> typed c"
  "typed (c\<lparr>CheckExpr := d\<rparr>) \<longleftrightarrow> typed c"
  "typed (c\<lparr>WrapperCtor := w, Nullable := n\<rparr>) \<longleftrightarrow> typed c"
  by (simp_all add: typed_def default_to_def)

lemma encode_keeps [simp]:
  "DefaultExpr (encode_as k sql go c) = DefaultExpr c" "CheckExpr (encode_as k sql go c) = CheckExpr c"
  "DBName (encode_as k sql go c) = DBName c" "CheckExpr (default_to d c) = CheckExpr c"
  by (simp_all add: encode_as_def default_to_def)

lemma frame_refl [simp]: "encoding_frame c c"
  by (simp add: encoding_frame_def)

lemma frame_encode [simp]: "encoding_frame c (encode_as k sql go c)"
  by (simp add: encoding_frame_def encode_as_def)

lemma frame_trans:
  assumes "encoding_frame c d" "encoding_frame d e"
  shows "encoding_frame c e"
proof -
  obtain k s g de ch w n mk mv where d: "d = c\<lparr>Kind := k, SQLType := s, JetGoType := g,
      DefaultExpr := de, CheckExpr := ch, WrapperCtor := w, Nullable := n, MapKeyKind := mk, MapValueKind := mv\<rparr>"
    using assms(1) unfolding encoding_frame_def by blast
  obtain k s g de ch w n mk mv where "e = d\<lparr>Kind := k, SQLType := s, JetGoType := g,
      DefaultExpr := de, CheckExpr := ch, WrapperCtor := w, Nullable := n, MapKeyKind := mk, MapValueKind := mv\<rparr>"
    using assms(2) unfolding encoding_frame_def by blast
  then show ?thesis by (simp add: d encoding_frame_def)
qed

lemma frame_updates:
  "encoding_frame c (c\<lparr>DefaultExpr := x\<rparr>)" "encoding_frame c (c\<lparr>CheckExpr := x\<rparr>)"
  "encoding_frame c (c\<lparr>WrapperCtor := x, Nullable := y\<rparr>)" "encoding_frame c (default_to x c)"
  "encoding_frame c (c\<lparr>MapKeyKind := k, MapValueKind := l\<rparr>)"
  by (simp_all add: encoding_frame_def default_to_def)

lemma frame_encode_update [simp]:
  "encoding_frame c (default_to x (encode_as k sql go c))"
  "encoding_frame c ((encode_as k sql go c)\<lparr>DefaultExpr := x\<rparr>)"
  "encoding_frame c ((encode_as k sql go c)\<lparr>WrapperCtor := w, Nullable := y\<rparr>)"
  "encoding_frame c (encode_as k sql go (c\<lparr>MapKeyKind := mk, MapValueKind := mv\<rparr>))"
  by (rule frame_trans [OF frame_encode frame_updates(4)],
      rule frame_trans [OF frame_encode frame_updates(1)],
      rule frame_trans [OF frame_encode frame_updates(3)],
      rule frame_trans [OF frame_updates(5) frame_encode])

lemma encode_list:
  "inferListEncoding k msg c = Ok c' \<Longrightarrow> typed c' \<and> encoding_frame c c'
     \<and> DefaultExpr c' = DefaultExpr c \<and> CheckExpr c' = CheckExpr c"
  by (induction k msg c rule: inferListEncoding.induct) (auto split: if_splits)

lemma encode_map:
  "inferMapEncoding f ov c = Ok c' \<Longrightarrow> typed c' \<and> encoding_frame c c'
     \<and> DefaultExpr c' = DefaultExpr c \<and> CheckExpr c' = CheckExpr c"
  by (auto simp: inferMapEncoding_def Let_def split: if_splits proto_kind.splits)

lemma wrapper_types:
  assumes "wrapperNative msg = Some w"
  shows "go_type (w_sqlType w) = Some (w_goType w) \<and> w_sqlType w \<noteq> ''JSONB''
    \<and> w_sqlType w \<in> set (kind_sql KindScalar)"
  using map_of_SomeD [OF assms [unfolded wrapperNative_def]] by auto

lemma encode_message:
  "typed (messageEncoding msg c) \<and> encoding_frame c (messageEncoding msg c)
   \<and> CheckExpr (messageEncoding msg c) = CheckExpr c
   \<and> DefaultExpr (messageEncoding msg c) \<in> {DefaultExpr c, ''0'', quoted ''{}'' @ ''::jsonb''}"
proof (cases "wrapperNative msg")
  case None
  then show ?thesis
    by (auto simp: messageEncoding_def) (auto simp: default_to_def)
next
  case (Some w)
  with wrapper_types [OF Some] show ?thesis
    by (auto simp: messageEncoding_def) (auto simp: default_to_def)
qed

text \<open>The CHECK and default of an enum column, from the values that may be stored.\<close>

definition persistable :: "proto_field \<Rightarrow> column_option \<Rightarrow> string list" where
  "persistable f col =
     map fst (filter (\<lambda>(n, i). i \<noteq> 0 \<or> col_allow_zero_enum col) (fld_enum_values f))"

lemma zero_name_in: "zero_name vs \<noteq> [] \<Longrightarrow> (zero_name vs, 0) \<in> set vs"
proof (induction vs rule: rev_induct)
  case (snoc v vs)
  then show ?case by (cases v) (auto simp: zero_name_def split: if_splits)
qed (simp add: zero_name_def)

lemma encode_enum:
  assumes "enumEncoding f col c = Ok c'"
  shows "typed c' \<and> encoding_frame c c' \<and>
     (if CheckExpr c \<noteq> [] then CheckExpr c' = CheckExpr c \<and> DefaultExpr c' = DefaultExpr c
      else persistable f col \<noteq> []
        \<and> CheckExpr c' = DBName c @ '' IN ('' @ join '','' (map quoted (persistable f col)) @ '')''
        \<and> (DefaultExpr c' = DefaultExpr c
            \<or> DefaultExpr c = [] \<and> (\<exists>z \<in> set (persistable f col). DefaultExpr c' = quoted z)))"
proof (cases "CheckExpr c = []")
  case False
  with assms show ?thesis by (auto simp: enumEncoding_def Let_def)
next
  case True
  let ?zero = "zero_name (fld_enum_values f)"
  have z: "?zero \<in> set (persistable f col)" if "col_allow_zero_enum col" "?zero \<noteq> []"
    using zero_name_in [OF that(2)] that(1) by (force simp: persistable_def)
  have names: "map (quoted \<circ> fst) (filter (\<lambda>(n, i). i \<noteq> 0 \<or> col_allow_zero_enum col) (fld_enum_values f))
      = map quoted (persistable f col)"
    by (simp add: persistable_def)
  let ?c1 = "(encode_as KindEnumAsText ''TEXT'' ''string'' c)
      \<lparr>CheckExpr := DBName c @ '' IN ('' @ join '','' (map quoted (persistable f col)) @ '')''\<rparr>"
  have c': "persistable f col \<noteq> []" "c' = (if DefaultExpr c = [] \<and> col_allow_zero_enum col \<and> ?zero \<noteq> []
        then ?c1\<lparr>DefaultExpr := quoted ?zero\<rparr> else ?c1)"
    using assms True unfolding enumEncoding_def Let_def names
    by (auto split: if_splits)
  have f1: "encoding_frame c ?c1" by (rule frame_trans [OF frame_encode frame_updates(2)])
  have "encoding_frame c c'"
    using f1 frame_trans [OF f1 frame_updates(1)] c'(2) by simp
  moreover have "typed c'" using c'(2) by simp
  ultimately show ?thesis using True c' z by auto
qed

lemma encode_scalar:
  assumes "inferScalarEncoding k f col c = Ok c'"
  shows "typed c' \<and> encoding_frame c c'"
proof -
  have "typed (encode_as KindScalar ''TEXT'' ''string'' c)" by simp
  then show ?thesis
    using assms encode_enum [of f col c c'] encode_message [of "fld_message f" c]
    by (cases k) (auto simp: Let_def split: if_splits)
qed

lemma inferFieldEncoding_shape:
  assumes "inferFieldEncoding f col c = Ok c'"
  shows "typed c' \<and> encoding_frame c c'"
  using assms encode_list encode_map encode_scalar
  by (fastforce simp: inferFieldEncoding_def go_simps split: if_splits)

lemma settleNullable_shape:
  assumes "settleNullable f ud c = Ok c'"
  obtains n where "c' = c\<lparr>Nullable := n, NotNull := \<not> n,
      JetGoType := (if n then ''*'' @ JetGoType c else JetGoType c),
      DefaultExpr := (if n \<and> ud = [] then [] else DefaultExpr c)\<rparr>"
    "n \<longleftrightarrow> Nullable c \<or> ud = [] \<and> defaultsToNullable (Kind c)"
    "n \<and> Kind c \<in> {KindScalar, KindEnumAsText, KindDuration} \<longrightarrow> WrapperCtor c \<noteq> [] \<or> fld_optional f"
proof
  let ?n = "Nullable c \<or> ud = [] \<and> defaultsToNullable (Kind c)"
  show "c' = c\<lparr>Nullable := ?n, NotNull := \<not> ?n,
      JetGoType := (if ?n then ''*'' @ JetGoType c else JetGoType c),
      DefaultExpr := (if ?n \<and> ud = [] then [] else DefaultExpr c)\<rparr>"
    using assms by (auto simp: settleNullable_def applyNullable_def Let_def split: if_splits)
  show "?n \<and> Kind c \<in> {KindScalar, KindEnumAsText, KindDuration} \<longrightarrow> WrapperCtor c \<noteq> [] \<or> fld_optional f"
    using assms by (auto simp: settleNullable_def applyNullable_def Let_def split: if_splits)
qed simp

lemma renameOption_shape:
  assumes "renameOption col c = Ok c'"
  shows "c' = c\<lparr>RenameFrom := RenameFrom c'\<rparr>
    \<and> (RenameFrom c' = RenameFrom c \<or> legal_ident (RenameFrom c') \<and> RenameFrom c' \<noteq> DBName c)"
  using assms by (auto simp: renameOption_def Let_def go_simps validateSQLIdent_Ok split: if_splits)

lemma jsonbOptions_shape:
  assumes "jsonbOptions col c = Ok c'"
  shows "c' = c\<lparr>JSONBIndexedPaths := JSONBIndexedPaths c', JSONBGinIndex := JSONBGinIndex c'\<rparr>
    \<and> (JSONBIndexedPaths c' = JSONBIndexedPaths c
        \<or> isJSONBKind (Kind c) \<and> (\<forall>p \<in> set (JSONBIndexedPaths c'). legal_path p))
    \<and> (JSONBGinIndex c' = JSONBGinIndex c \<or> isJSONBKind (Kind c))"
  using assms
  by (auto simp: jsonbOptions_def Let_def go_simps map_out_Ok_iff validateJSONBPath_Ok list_all2_conv_all_nth
      in_set_conv_nth split: if_splits)

definition btree_column :: "column_plan \<Rightarrow> bool" where
  "btree_column c \<longleftrightarrow> Kind c \<in> {KindScalar, KindTimestamp, KindDuration, KindEnumAsText}
     \<and> \<not> (Kind c = KindScalar \<and> (JetGoType c = ''bool'' \<or> JetGoType c = ''*bool''))"

lemma indexable_Ok: "indexable c = Ok u \<longleftrightarrow> btree_column c"
  by (cases "Kind c") (auto simp: indexable_def btree_column_def go_simps)

definition actions_fit :: "column_plan \<Rightarrow> foreign_key_plan \<Rightarrow> bool" where
  "actions_fit c fk \<longleftrightarrow>
     (''SET NULL'' \<in> {OnDelete fk, OnUpdate fk} \<longrightarrow> \<not> NotNull c)
     \<and> (''SET DEFAULT'' \<in> {OnDelete fk, OnUpdate fk} \<longrightarrow> DefaultExpr c \<noteq> [])"

lemma validateFKActions_Ok:
  "validateFKActionsAgainstColumn fk c = Ok u \<longleftrightarrow> actions_fit c fk"
  by (auto simp: validateFKActionsAgainstColumn_def actions_fit_def go_simps split: if_splits)

lemma parseFK_fit: "parseFKAnnotation fk c = Ok raw \<Longrightarrow> actions_fit c raw"
  by (auto simp: parseFKAnnotation_def Let_def go_simps validateFKActions_Ok split: if_splits)

lemma keyOptions_shape:
  assumes "keyOptions col c = Ok c'"
  shows "c' = c\<lparr>Unique := Unique c', ForeignKey := ForeignKey c'\<rparr>
    \<and> (Unique c' = Unique c \<or> btree_column c) \<and> (Unique c' \<longrightarrow> Unique c \<or> col_unique col)
    \<and> (ForeignKey c' = ForeignKey c \<or> btree_column c \<and> col_foreign_key col \<noteq> None
        \<and> (\<exists>fk. ForeignKey c' = Some fk \<and> actions_fit c fk))"
proof -
  have ix: "btree_column (c\<lparr>Unique := x\<rparr>) = btree_column c" "actions_fit (c\<lparr>Unique := x\<rparr>) fk = actions_fit c fk"
    for x fk by (simp_all add: btree_column_def actions_fit_def)
  show ?thesis
    using assms parseFK_fit [of _ "c\<lparr>Unique := True\<rparr>"] parseFK_fit [of _ c]
    by (auto simp: keyOptions_def go_simps validateUniqueIndexable_def validateFKIndexable_def
        indexable_Ok ix split: if_splits option.splits)
qed

lemma applyGeneratedExpr_shape:
  assumes "applyGeneratedExpr col c = Ok c'"
  shows "(col_generated_expr col = [] \<and> c' = c) \<or>
    (col_generated_expr col \<noteq> [] \<and> \<not> col_unique col \<and> col_foreign_key col = None \<and> CHR '';'' \<notin> set (col_generated_expr col)
     \<and> c' = c\<lparr>DefaultExpr := [], GeneratedExpr := col_generated_expr col\<rparr>)"
  using assms by (auto simp: applyGeneratedExpr_def Let_def split: if_splits)

section \<open>Nothing panics\<close>

lemma scan_ident_not_Panic [simp]: "scan_ident i cs \<noteq> Panic"
  by (induction i cs rule: scan_ident.induct) auto

lemma check_segments_not_Panic [simp]: "check_segments ss \<noteq> Panic"
  by (induction ss rule: check_segments.induct) (auto split: list.splits)

lemma ident_not_Panic [simp]: "validateSQLIdent s \<noteq> Panic" "validateJSONBPath p \<noteq> Panic"
  by (auto simp: validateSQLIdent_def validateJSONBPath_def split: list.splits)

lemma fk_not_Panic [simp]: "parseFKAnnotation fk c \<noteq> Panic"
proof -
  have "validateFKTargetSyntax t \<noteq> Panic" for t
    by (auto simp: validateFKTargetSyntax_def Let_def split: option.splits)
  moreover have "validateFKActionsAgainstColumn p c \<noteq> Panic" for p
    by (auto simp: validateFKActionsAgainstColumn_def go_simps)
  ultimately show ?thesis by (auto simp: parseFKAnnotation_def Let_def go_simps)
qed

lemma inferFieldEncoding_not_Panic [simp]: "inferFieldEncoding f col c \<noteq> Panic"
proof -
  have l: "inferListEncoding k msg c \<noteq> Panic" for k msg by (cases k) auto
  have m: "inferMapEncoding f ov c \<noteq> Panic" for ov
    by (cases "fld_map_value f") (auto simp: inferMapEncoding_def Let_def)
  have s: "inferScalarEncoding k f col c \<noteq> Panic" for k
    by (cases k) (auto simp: Let_def enumEncoding_def)
  have "validateStorageOverride f ov \<noteq> Panic" for ov
    by (cases ov) (auto simp: validateStorageOverride_def)
  with l m s show ?thesis by (auto simp: inferFieldEncoding_def go_simps)
qed

lemma resolveColumn_not_Panic: "resolveColumn f \<noteq> Panic"
proof -
  have n: "settleNullable f ud c \<noteq> Panic" for ud c
    by (auto simp: settleNullable_def applyNullable_def Let_def)
  have r: "renameOption col c \<noteq> Panic" for col c by (auto simp: renameOption_def Let_def go_simps)
  have j: "jsonbOptions col c \<noteq> Panic" for col c
  proof -
    have "map_out (\<lambda>p. map_err (\<lambda>e. BadOption ''jsonb_indexed_paths'' (BadPath p e))
        (validateJSONBPath p)) ps \<noteq> Panic" for ps
      by (rule map_out_not_Panic) (simp add: go_simps)
    then show ?thesis by (auto simp: jsonbOptions_def Let_def go_simps)
  qed
  have i: "indexable c \<noteq> Panic" for c by (cases "Kind c") (auto simp: indexable_def)
  then have k: "keyOptions col c \<noteq> Panic" for col c
    by (auto simp: keyOptions_def go_simps validateUniqueIndexable_def validateFKIndexable_def
        split: option.splits)
  have g: "applyGeneratedExpr col c \<noteq> Panic" for col c by (auto simp: applyGeneratedExpr_def Let_def)
  show ?thesis by (auto simp: resolveColumn_def Let_def go_simps n r j k g)
qed

section \<open>A resolved column\<close>

definition option_of :: "proto_field \<Rightarrow> column_option" where
  "option_of f = (case fld_column f of Some col \<Rightarrow> col | None \<Rightarrow> no_column_option)"

definition named_column :: "proto_field \<Rightarrow> column_plan" where
  "named_column f =
     (let c = start_column f (option_of f) in c\<lparr>JetFieldName := jetFieldNameFromDB (DBName c)\<rparr>)"

lemma resolveColumn_stages:
  assumes "resolveColumn f = Ok (Some c)"
  obtains c2 c3 c4 c5 c6 where
    "\<not> col_skip (option_of f)" "legal_ident (DBName (named_column f))"
    "CHR '';'' \<notin> set (col_default_expr (option_of f))" "CHR '';'' \<notin> set (col_check (option_of f))"
    "inferFieldEncoding f (option_of f) (named_column f) = Ok c2"
    "settleNullable f (col_default_expr (option_of f)) c2 = Ok c3" "renameOption (option_of f) c3 = Ok c4"
    "jsonbOptions (option_of f) c4 = Ok c5" "keyOptions (option_of f) c5 = Ok c6"
    "applyGeneratedExpr (option_of f) c6 = Ok c"
proof -
  have start: "DefaultExpr (start_column f col) = col_default_expr col"
    "CheckExpr (start_column f col) = col_check col" for col
    by (simp_all add: start_column_def)
  show thesis
    using assms that
    by (auto simp: resolveColumn_def option_of_def [symmetric] named_column_def Let_def go_simps
        validateSQLIdent_Ok start split: if_splits)
qed

text \<open>The consistency of a column's parts that the emitters rely on.\<close>

definition column_wf :: "column_plan \<Rightarrow> bool" where
  "column_wf c \<longleftrightarrow>
     \<not> Synthesized c \<and> Kind c \<noteq> KindSynthesized
     \<and> (NotNull c \<longleftrightarrow> \<not> Nullable c)
     \<and> map_option (\<lambda>g. if Nullable c then ''*'' @ g else g) (go_type (SQLType c)) = Some (JetGoType c)
     \<and> SQLType c \<in> set (kind_sql (Kind c))
     \<and> (JSONBIndexedPaths c \<noteq> [] \<or> JSONBGinIndex c \<longrightarrow> isJSONBKind (Kind c))
     \<and> (Unique c \<or> ForeignKey c \<noteq> None \<longrightarrow> btree_column c)
     \<and> (\<forall>fk. ForeignKey c = Some fk \<longrightarrow> actions_fit c fk)
     \<and> (GeneratedExpr c \<noteq> [] \<longrightarrow> DefaultExpr c = [] \<and> \<not> Unique c \<and> ForeignKey c = None)"

lemma named_column_empty:
  "\<not> Synthesized (named_column f)" "JSONBIndexedPaths (named_column f) = []"
  "\<not> JSONBGinIndex (named_column f)" "\<not> Unique (named_column f)" "ForeignKey (named_column f) = None"
  "GeneratedExpr (named_column f) = []" "RenameFrom (named_column f) = []"
  "DefaultExpr (named_column f) = col_default_expr (option_of f)"
  "CheckExpr (named_column f) = col_check (option_of f)"
  "Nullable (named_column f) = col_nullable (option_of f)"
  by (simp_all add: named_column_def start_column_def empty_column_def Let_def)

lemma encoding_frame_keeps:
  assumes "encoding_frame c d"
  shows "Synthesized d = Synthesized c" "JSONBIndexedPaths d = JSONBIndexedPaths c"
    "JSONBGinIndex d = JSONBGinIndex c" "Unique d = Unique c" "ForeignKey d = ForeignKey c"
    "GeneratedExpr d = GeneratedExpr c" "RenameFrom d = RenameFrom c" "DBName d = DBName c"
  by (subst assms [unfolded encoding_frame_def], simp)+

text \<open>Everything up to the foreign key, in one step.\<close>

lemma resolved_parts:
  assumes "resolveColumn f = Ok (Some c)"
  obtains c2 n c6 where
    "inferFieldEncoding f (option_of f) (named_column f) = Ok c2"
    "n \<longleftrightarrow> Nullable c2 \<or> col_default_expr (option_of f) = [] \<and> defaultsToNullable (Kind c2)"
    "n \<and> Kind c2 \<in> {KindScalar, KindEnumAsText, KindDuration} \<longrightarrow> WrapperCtor c2 \<noteq> [] \<or> fld_optional f"
    "Nullable c6 = n" "NotNull c6 = (\<not> n)" "Kind c6 = Kind c2" "SQLType c6 = SQLType c2"
    "JetGoType c6 = (if n then ''*'' @ JetGoType c2 else JetGoType c2)" "\<not> Synthesized c6"
    "DefaultExpr c6 = (if n \<and> col_default_expr (option_of f) = [] then [] else DefaultExpr c2)"
    "CheckExpr c6 = CheckExpr c2" "DBName c6 = DBName (named_column f)" "WrapperCtor c6 = WrapperCtor c2"
    "RenameFrom c6 = [] \<or> legal_ident (RenameFrom c6) \<and> RenameFrom c6 \<noteq> DBName c6"
    "JSONBIndexedPaths c6 = [] \<or> isJSONBKind (Kind c6) \<and> (\<forall>p \<in> set (JSONBIndexedPaths c6). legal_path p)"
    "JSONBGinIndex c6 \<longrightarrow> isJSONBKind (Kind c6)" "GeneratedExpr c6 = []"
    "Unique c6 \<longrightarrow> btree_column c6 \<and> col_unique (option_of f)"
    "ForeignKey c6 = None \<or> btree_column c6 \<and> col_foreign_key (option_of f) \<noteq> None
       \<and> (\<exists>fk. ForeignKey c6 = Some fk \<and> actions_fit c6 fk)"
    "applyGeneratedExpr (option_of f) c6 = Ok c"
proof -
  obtain c2 c3 c4 c5 c6 where
    inf: "inferFieldEncoding f (option_of f) (named_column f) = Ok c2"
    and st: "settleNullable f (col_default_expr (option_of f)) c2 = Ok c3"
    and rn: "renameOption (option_of f) c3 = Ok c4" and jb: "jsonbOptions (option_of f) c4 = Ok c5"
    and ky: "keyOptions (option_of f) c5 = Ok c6" and gen: "applyGeneratedExpr (option_of f) c6 = Ok c"
    using resolveColumn_stages [OF assms] by metis
  note keep = encoding_frame_keeps [OF inferFieldEncoding_shape [OF inf, THEN conjunct2]]
  obtain n where c3: "c3 = c2\<lparr>Nullable := n, NotNull := \<not> n,
        JetGoType := (if n then ''*'' @ JetGoType c2 else JetGoType c2),
        DefaultExpr := (if n \<and> col_default_expr (option_of f) = [] then [] else DefaultExpr c2)\<rparr>"
      "n \<longleftrightarrow> Nullable c2 \<or> col_default_expr (option_of f) = [] \<and> defaultsToNullable (Kind c2)"
      "n \<and> Kind c2 \<in> {KindScalar, KindEnumAsText, KindDuration} \<longrightarrow> WrapperCtor c2 \<noteq> [] \<or> fld_optional f"
    using settleNullable_shape [OF st] by metis
  obtain r where c4: "c4 = c3\<lparr>RenameFrom := r\<rparr>" "r = [] \<or> legal_ident r \<and> r \<noteq> DBName c2"
    using renameOption_shape [OF rn] c3(1) keep(7) by (force simp: named_column_empty)
  obtain ps g where c5: "c5 = c4\<lparr>JSONBIndexedPaths := ps, JSONBGinIndex := g\<rparr>"
      "ps = [] \<or> isJSONBKind (Kind c2) \<and> (\<forall>p \<in> set ps. legal_path p)" "g \<longrightarrow> isJSONBKind (Kind c2)"
    using jsonbOptions_shape [OF jb] c4(1) c3(1) keep(2,3) by (force simp: named_column_empty)
  obtain u fk where c6: "c6 = c5\<lparr>Unique := u, ForeignKey := fk\<rparr>"
      "u \<longrightarrow> btree_column c5 \<and> col_unique (option_of f)"
      "fk = None \<or> btree_column c5 \<and> col_foreign_key (option_of f) \<noteq> None
        \<and> (\<exists>k. fk = Some k \<and> actions_fit c5 k)"
    using keyOptions_shape [OF ky] c5(1) c4(1) c3(1) keep(4,5) by (force simp: named_column_empty)
  have same: "btree_column c6 = btree_column c5" "actions_fit c6 k = actions_fit c5 k" for k
    using c6(1) by (simp_all add: btree_column_def actions_fit_def)
  have sel: "Unique c6 = u" "ForeignKey c6 = fk" by (simp_all add: c6(1))
  have key: "Unique c6 \<longrightarrow> btree_column c6 \<and> col_unique (option_of f)"
    "ForeignKey c6 = None \<or> btree_column c6 \<and> col_foreign_key (option_of f) \<noteq> None
       \<and> (\<exists>fk. ForeignKey c6 = Some fk \<and> actions_fit c6 fk)"
    using c6(2,3) by (auto simp: sel same)
  show thesis
    by (rule that [OF inf c3(2,3) _ _ _ _ _ _ _ _ _ _ _ _ _ _ key gen])
       (use keep c4(2) c5(2,3) in \<open>simp_all add: c6(1) c5(1) c4(1) c3(1) named_column_empty\<close>)
qed

section \<open>Properties\<close>

lemma resolved_column_wf:
  assumes ok: "resolveColumn f = Ok (Some c)"
  shows "column_wf c"
proof (rule resolved_parts [OF ok])
    fix c2 n c6
    assume inf: "inferFieldEncoding f (option_of f) (named_column f) = Ok c2"
      and eqs: "Nullable c6 = n" "NotNull c6 = (\<not> n)" "Kind c6 = Kind c2" "SQLType c6 = SQLType c2"
        "JetGoType c6 = (if n then ''*'' @ JetGoType c2 else JetGoType c2)" "\<not> Synthesized c6"
      and jsonb: "JSONBIndexedPaths c6 = [] \<or> isJSONBKind (Kind c6) \<and> (\<forall>p \<in> set (JSONBIndexedPaths c6). legal_path p)"
        "JSONBGinIndex c6 \<longrightarrow> isJSONBKind (Kind c6)" "GeneratedExpr c6 = []"
      and keys: "Unique c6 \<longrightarrow> btree_column c6 \<and> col_unique (option_of f)"
        "ForeignKey c6 = None \<or> btree_column c6 \<and> col_foreign_key (option_of f) \<noteq> None
           \<and> (\<exists>fk. ForeignKey c6 = Some fk \<and> actions_fit c6 fk)"
      and gen: "applyGeneratedExpr (option_of f) c6 = Ok c"
    have "typed c2" using inferFieldEncoding_shape [OF inf] by simp
    then have ty: "Kind c6 \<noteq> KindSynthesized" "SQLType c6 \<in> set (kind_sql (Kind c6))"
      "map_option (\<lambda>g. if Nullable c6 then ''*'' @ g else g) (go_type (SQLType c6)) = Some (JetGoType c6)"
      by (simp_all add: typed_def eqs)
    then have wf: "column_wf c6" unfolding column_wf_def using eqs(1,2,6) jsonb keys by auto
    from applyGeneratedExpr_shape [OF gen] show "column_wf c"
    proof (elim disjE conjE)
      assume "col_generated_expr (option_of f) \<noteq> []" "\<not> col_unique (option_of f)"
        "col_foreign_key (option_of f) = None"
        and c: "c = c6\<lparr>DefaultExpr := [], GeneratedExpr := col_generated_expr (option_of f)\<rparr>"
      then have "\<not> Unique c6" "ForeignKey c6 = None" using keys by auto
      with wf show "column_wf c" by (auto simp: c column_wf_def)
    qed (use wf in simp)
qed

text \<open>
  C22: A column the resolver accepts is consistent: \<^verbatim>\<open>NotNull\<close> is the negation of
  \<^verbatim>\<open>Nullable\<close>; the model's Go type is the one go-jet derives from the SQL type, behind a
  pointer exactly when the column is nullable; the SQL type is one of the kind's, and only a JSONB column has
  path or GIN indexes; only scalars (no bool), timestamps, durations and enums are
  unique or foreign keys; referential actions fit the column (\<^verbatim>\<open>SET NULL\<close> only if it
  may be null, \<^verbatim>\<open>SET DEFAULT\<close> only with a default); and a generated column has no
  default, uniqueness or foreign key. The resolver never panics.
\<close>

theorem resolveColumn_wf:
  "resolveColumn f \<noteq> Panic \<and> (\<forall>c. resolveColumn f = Ok (Some c) \<longrightarrow> column_wf c)"
  using resolved_column_wf resolveColumn_not_Panic by blast

definition plain_field :: "string \<Rightarrow> proto_kind \<Rightarrow> column_option \<Rightarrow> proto_field" where
  "plain_field name k col = \<lparr>fld_name = name, fld_comment = [], fld_kind = k, fld_is_list = False,
     fld_is_map = False, fld_map_key = NoKind, fld_map_value = NoKind, fld_message = [],
     fld_enum_name = [], fld_enum_values = [], fld_optional = False, fld_behaviors = [],
     fld_column = Some col, fld_oneof = None\<rparr>"

definition state_field :: proto_field where
  "state_field = (plain_field ''runState'' EnumKind
       (no_column_option\<lparr>col_allow_zero_enum := True, col_unique := True, col_rename_from := ''state''\<rparr>))
     \<lparr>fld_enum_name := ''State'', fld_enum_values := [(''IDLE'', 0), (''BUSY'', 1)]\<rparr>"

definition state_column :: column_plan where
  "state_column = empty_column\<lparr>DBName := ''run_state'', SQLType := ''TEXT'', NotNull := True,
     DefaultExpr := quoted ''IDLE'', CheckExpr := ''run_state IN ('' @ quoted ''IDLE'' @ '','' @ quoted ''BUSY'' @ '')'',
     JetFieldName := ''RunState'', JetGoType := ''string'', ProtoFieldName := ''runState'',
     Kind := KindEnumAsText, RenameFrom := ''state'', Unique := True\<rparr>"

lemma state_column_resolved: "resolveColumn state_field = Ok (Some state_column)"
  by code_simp

theorem resolveColumn_wf_witness: "column_wf state_column \<and> btree_column state_column"
  using resolveColumn_wf [of state_field] state_column_resolved
  by (simp add: btree_column_def state_column_def)

definition no_semicolon :: "string \<Rightarrow> bool" where
  "no_semicolon s \<longleftrightarrow> CHR '';'' \<notin> set s"

lemma legal_no_semicolon: "legal_ident s \<Longrightarrow> no_semicolon s"
  by (auto simp: legal_ident_def no_semicolon_def ident_byte_def lower_rune_def digit_rune_def)

lemma enum_no_semicolon:
  assumes "enumEncoding f col c = Ok c'" "\<forall>v \<in> set (fld_enum_values f). no_semicolon (fst v)"
    and "no_semicolon (DefaultExpr c)" "no_semicolon (CheckExpr c)" "no_semicolon (DBName c)"
  shows "no_semicolon (DefaultExpr c') \<and> no_semicolon (CheckExpr c')"
proof -
  have q: "no_semicolon (quoted z)" if "z \<in> set (persistable f col)" for z
    using that assms(2) by (auto simp: persistable_def no_semicolon_def quoted_def)
  have "set (join '','' (map quoted (persistable f col)))
      \<subseteq> {CHR '',''} \<union> (\<Union>z \<in> set (persistable f col). set (quoted z))"
    using set_join [of "'',''" "map quoted (persistable f col)"] by auto
  then have "no_semicolon (join '','' (map quoted (persistable f col)))"
    using q by (auto simp: no_semicolon_def)
  then have "no_semicolon (DBName c @ '' IN ('' @ join '','' (map quoted (persistable f col)) @ '')'')"
    using assms(5) by (simp add: no_semicolon_def)
  with encode_enum [OF assms(1)] assms(3,4) q show ?thesis
    by (cases "CheckExpr c = []") auto
qed

lemma encoding_no_semicolon:
  assumes "inferFieldEncoding f col c = Ok c'" "\<forall>v \<in> set (fld_enum_values f). no_semicolon (fst v)"
    and "no_semicolon (DefaultExpr c)" "no_semicolon (CheckExpr c)" "no_semicolon (DBName c)"
  shows "no_semicolon (DefaultExpr c') \<and> no_semicolon (CheckExpr c')"
proof -
  have lits: "no_semicolon ''0''" "no_semicolon (quoted ''{}'' @ ''::jsonb'')" "no_semicolon ''false''"
      "no_semicolon (quoted [])" "no_semicolon (quoted [] @ ''::bytea'')"
    by code_simp+
  have d: "no_semicolon (DefaultExpr (default_to x e))" if "no_semicolon x" "no_semicolon (DefaultExpr e)"
    for x e using that by (simp add: default_to_def)
  have "no_semicolon (DefaultExpr c') \<and> no_semicolon (CheckExpr c')"
    if s: "inferScalarEncoding k f col c = Ok c'" for k
  proof (cases k)
    case EnumKind
    with s enum_no_semicolon [OF _ assms(2-5)] show ?thesis by simp
  next
    case MessageKind
    with s encode_message [of "fld_message f" c] lits assms(3,4) show ?thesis by auto
  qed (use s assms(3,4) lits d in \<open>auto simp: Let_def split: if_splits\<close>)
  with assms encode_list encode_map show ?thesis
    by (fastforce simp: inferFieldEncoding_def go_simps split: if_splits)
qed

lemma resolved_column_safe:
  assumes "resolveColumn f = Ok (Some c)" "\<forall>v \<in> set (fld_enum_values f). no_semicolon (fst v)"
  shows "legal_ident (DBName c)
    \<and> (RenameFrom c = [] \<or> legal_ident (RenameFrom c) \<and> RenameFrom c \<noteq> DBName c)
    \<and> (\<forall>p \<in> set (JSONBIndexedPaths c). legal_path p)
    \<and> no_semicolon (DefaultExpr c) \<and> no_semicolon (CheckExpr c) \<and> no_semicolon (GeneratedExpr c)"
proof -
  have name: "legal_ident (DBName (named_column f))" and semi: "no_semicolon (DefaultExpr (named_column f))"
      "no_semicolon (CheckExpr (named_column f))"
    using resolveColumn_stages [OF assms(1)] by (auto simp: named_column_empty no_semicolon_def)
  show ?thesis
  proof (rule resolved_parts [OF assms(1)])
    fix c2 n c6
    assume inf: "inferFieldEncoding f (option_of f) (named_column f) = Ok c2"
      and d: "DefaultExpr c6 = (if n \<and> col_default_expr (option_of f) = [] then [] else DefaultExpr c2)"
      and ch: "CheckExpr c6 = CheckExpr c2" "DBName c6 = DBName (named_column f)" "GeneratedExpr c6 = []"
      and r: "RenameFrom c6 = [] \<or> legal_ident (RenameFrom c6) \<and> RenameFrom c6 \<noteq> DBName c6"
      and j: "JSONBIndexedPaths c6 = [] \<or> isJSONBKind (Kind c6) \<and> (\<forall>p \<in> set (JSONBIndexedPaths c6). legal_path p)"
      and gen: "applyGeneratedExpr (option_of f) c6 = Ok c"
    note e = encoding_no_semicolon [OF inf assms(2) semi legal_no_semicolon [OF name]]
    have "no_semicolon (DefaultExpr c6)" "no_semicolon (CheckExpr c6)" "no_semicolon (GeneratedExpr c6)"
      using e by (auto simp: d ch no_semicolon_def)
    with applyGeneratedExpr_shape [OF gen] r j name ch(2) show ?thesis
      by (auto simp: no_semicolon_def)
  qed
qed

text \<open>
  C23: Nothing a column contributes to the DDL ends a statement early: its name, and the name it is
  renamed from, are lower-case PostgreSQL identifiers, each JSON path is made of word segments, and
  default, check and generation expression contain no semicolon, also where the resolver writes
  them itself. Proto enum value names are assumed free of semicolons.
\<close>

theorem resolveColumn_sql_safe:
  assumes "resolveColumn f = Ok (Some c)" "\<forall>v \<in> set (fld_enum_values f). no_semicolon (fst v)"
  shows "legal_ident (DBName c)
    \<and> (RenameFrom c = [] \<or> legal_ident (RenameFrom c) \<and> RenameFrom c \<noteq> DBName c)
    \<and> (\<forall>p \<in> set (JSONBIndexedPaths c). legal_path p)
    \<and> no_semicolon (DefaultExpr c) \<and> no_semicolon (CheckExpr c) \<and> no_semicolon (GeneratedExpr c)"
  using assms by (rule resolved_column_safe)

theorem resolveColumn_sql_safe_witness:
  "legal_ident ''run_state'' \<and> legal_ident ''state''
   \<and> no_semicolon (''run_state IN ('' @ quoted ''IDLE'' @ '','' @ quoted ''BUSY'' @ '')'')"
proof -
  have "\<forall>v \<in> set (fld_enum_values state_field). no_semicolon (fst v)" by code_simp
  from resolveColumn_sql_safe [OF state_column_resolved this] show ?thesis
    by (auto simp: state_column_def)
qed

text \<open>
  An enum field that declares neither check nor default gets a CHECK over exactly the quoted
  names of its values, without the zero value unless \<^verbatim>\<open>allow_zero_enum\<close> is set, and an
  inferred default only if the CHECK admits it.
\<close>

theorem enum_default_admitted:
  assumes "resolveColumn f = Ok (Some c)" "fld_kind f = EnumKind" "\<not> fld_is_list f" "\<not> fld_is_map f"
    and "col_check (option_of f) = []" "col_default_expr (option_of f) = []"
  shows "persistable f (option_of f) \<noteq> []
    \<and> CheckExpr c = DBName c @ '' IN ('' @ join '','' (map quoted (persistable f (option_of f))) @ '')''
    \<and> (DefaultExpr c = [] \<or> (\<exists>z \<in> set (persistable f (option_of f)). DefaultExpr c = quoted z))"
proof (rule resolved_parts [OF assms(1)])
  fix c2 n c6
  assume inf: "inferFieldEncoding f (option_of f) (named_column f) = Ok c2"
    and d: "DefaultExpr c6 = (if n \<and> col_default_expr (option_of f) = [] then [] else DefaultExpr c2)"
    and ch: "CheckExpr c6 = CheckExpr c2" "DBName c6 = DBName (named_column f)"
    and gen: "applyGeneratedExpr (option_of f) c6 = Ok c"
  have "enumEncoding f (option_of f) (named_column f) = Ok c2"
    using inf assms(2-4) by (simp add: inferFieldEncoding_def go_simps)
  from encode_enum [OF this] have e: "persistable f (option_of f) \<noteq> []"
    "CheckExpr c6 = DBName c6 @ '' IN ('' @ join '','' (map quoted (persistable f (option_of f))) @ '')''"
    "DefaultExpr c6 = [] \<or> (\<exists>z \<in> set (persistable f (option_of f)). DefaultExpr c6 = quoted z)"
    using assms(5,6) by (auto simp: d ch named_column_empty)
  with applyGeneratedExpr_shape [OF gen] show ?thesis by auto
qed

theorem enum_default_admitted_witness:
  "CheckExpr state_column = ''run_state IN ('' @ join '','' (map quoted [''IDLE'', ''BUSY'']) @ '')''"
proof -
  have h: "fld_kind state_field = EnumKind" "\<not> fld_is_list state_field" "\<not> fld_is_map state_field"
    "col_check (option_of state_field) = []" "col_default_expr (option_of state_field) = []"
    "persistable state_field (option_of state_field) = [''IDLE'', ''BUSY'']"
    by code_simp+
  from enum_default_admitted [OF state_column_resolved h(1-5)] h(6) show ?thesis
    by (simp add: state_column_def)
qed

text \<open>
  A field is left out of storage exactly when its option says \<^verbatim>\<open>skip: true\<close>, it is no
  identifier or immutable field, and every other option has its default, with one exception: a
  \<^verbatim>\<open>foreign_key\<close> beside \<^verbatim>\<open>skip\<close> is not refused.
\<close>

theorem resolveColumn_skips_iff:
  "resolveColumn f = Ok None \<longleftrightarrow>
     (\<exists>fk. option_of f = no_column_option\<lparr>col_skip := True, col_foreign_key := fk\<rparr>)
     \<and> \<not> impliesImmutable (Some f)"
proof -
  have o: "otherSkipViolation col = [] \<and> col_skip col \<longleftrightarrow>
      (\<exists>fk. col = no_column_option\<lparr>col_skip := True, col_foreign_key := fk\<rparr>)" for col
    by (cases col) (auto simp: otherSkipViolation_def no_column_option_def)
  have "resolveColumn f = Ok None \<longleftrightarrow> col_skip (option_of f) \<and> \<not> impliesImmutable (Some f)
      \<and> otherSkipViolation (option_of f) = []"
    by (auto simp: resolveColumn_def option_of_def [symmetric] Let_def go_simps split: if_splits)
  with o [of "option_of f"] show ?thesis by blast
qed

text \<open>
  The storage override \<^verbatim>\<open>JSONB_PROTO\<close> passes the check that is to refuse hints without
  effect on timestamp, duration and wrapper fields, and has no effect there: the column keeps its
  native type.
\<close>

theorem jsonb_override_ignored:
  "map (\<lambda>msg. let f = (plain_field ''x'' MessageKind (no_column_option\<lparr>col_storage := JsonbProto\<rparr>))\<lparr>fld_message := msg\<rparr>
        in case resolveColumn f of Ok (Some c) \<Rightarrow> (SQLType c, JetGoType c) | _ \<Rightarrow> ([], []))
     [''google.protobuf.Timestamp'', ''google.protobuf.Duration'', ''google.protobuf.Int64Value'', ''lib.v1.Spec'']
   = [(''TIMESTAMPTZ'', ''time.Time''), (''BIGINT'', ''int64''), (''BIGINT'', ''*int64''), (''JSONB'', ''string'')]"
  by code_simp

end
