(* ===== verification/Plan_Validate.thy ===== *)
theory Plan_Validate
  imports FK_Resolve
begin

text \<open>
  \<^verbatim>\<open>validatePlan\<close> of \<^verbatim>\<open>cmd/protoc-gen-go-jet/resolve.go\<close>: the checks on a
  resolved plan, one after the other. The Go sets of names are lists here; each loop is a function
  that threads the set it extends. Errors carry what the Go messages name.
\<close>

section \<open>Errors\<close>

datatype column_role = PrimaryKeyCol | PartitionCol | IndexCol string | DefaultOrderCol | TieBreakerCol

datatype scope_kind = TenantScope | UserScope

datatype plan_error =
    SynthesizedCollision string | ColumnTwice string | OneofCollision string string
  | PrimaryKeyRequired | UnknownColumn column_role string
  | ScopeNotInPK scope_kind string | ScopeNotInIndex string scope_kind string
  | PartitionNotInPK string | NameTwice string | PathTwice string string
  | NameTooLong string string | UniqueRedundant string
  | NotOrderable column_role string

section \<open>The columns and their sets\<close>

record column_sets =
  known :: "string list"
  synthesized :: "string list"
  orderable_cols :: "string list"

fun scan_columns :: "column_plan list \<Rightarrow> column_sets \<Rightarrow> (plan_error, column_sets) outcome" where
  "scan_columns [] st = Ok st"
| "scan_columns (c # cs) st =
     (if DBName c \<in> set (known st)
      then Err (if DBName c \<in> set (synthesized st) \<and> \<not> Synthesized c
                then SynthesizedCollision (DBName c) else ColumnTwice (DBName c))
      else scan_columns cs
        (st\<lparr>known := DBName c # known st,
            synthesized := (if Synthesized c then DBName c # synthesized st else synthesized st),
            orderable_cols := (if Orderable c \<or> Synthesized c then DBName c # orderable_cols st
                               else orderable_cols st)\<rparr>))"

fun scan_oneofs :: "oneof_column_plan list \<Rightarrow> column_sets \<Rightarrow> (plan_error, column_sets) outcome" where
  "scan_oneofs [] st = Ok st"
| "scan_oneofs (oc # ocs) st =
     (if KindColumn oc \<in> set (known st) then Err (OneofCollision (BaseName oc) (KindColumn oc))
      else if JSONColumn oc \<in> set (known st) then Err (OneofCollision (BaseName oc) (JSONColumn oc))
      else scan_oneofs ocs (st\<lparr>known := JSONColumn oc # KindColumn oc # known st\<rparr>))"

section \<open>Keys, partitions and indexes\<close>

fun check_known :: "column_role \<Rightarrow> string list \<Rightarrow> string list \<Rightarrow> (plan_error, unit) outcome" where
  "check_known r ks [] = Ok ()"
| "check_known r ks (c # cs) = (if c \<in> set ks then check_known r ks cs else Err (UnknownColumn r c))"

definition requireColumnInPK :: "string list \<Rightarrow> string \<Rightarrow> scope_kind \<Rightarrow> (plan_error, unit) outcome" where
  "requireColumnInPK pk col k = assert_that (col \<in> set pk) (ScopeNotInPK k col)"

definition requireColumnInIndex :: "index_plan \<Rightarrow> string \<Rightarrow> scope_kind \<Rightarrow> (plan_error, unit) outcome" where
  "requireColumnInIndex idx col k =
     assert_that (col \<in> set (IdxColumns idx)) (ScopeNotInIndex (IdxName idx) k col)"

definition check_pk_scope :: "resource_plan \<Rightarrow> (plan_error, unit) outcome" where
  "check_pk_scope p =
     (case Tenancy p of
        None \<Rightarrow> Ok ()
      | Some t \<Rightarrow>
          and_then (requireColumnInPK (PrimaryKey p) (TenantColumn t) TenantScope) (\<lambda>_.
            if UserScoped t then requireColumnInPK (PrimaryKey p) (UserColumn t) UserScope
            else Ok ()))"

fun check_partition_cols :: "string list \<Rightarrow> string list \<Rightarrow> string list \<Rightarrow> (plan_error, unit) outcome"
where
  "check_partition_cols ks pk [] = Ok ()"
| "check_partition_cols ks pk (c # cs) =
     (if c \<notin> set ks then Err (UnknownColumn PartitionCol c)
      else if c \<notin> set pk then Err (PartitionNotInPK c)
      else check_partition_cols ks pk cs)"

definition check_index_scope :: "tenancy_plan option \<Rightarrow> index_plan \<Rightarrow> (plan_error, unit) outcome" where
  "check_index_scope ten idx =
     (case ten of
        None \<Rightarrow> Ok ()
      | Some t \<Rightarrow>
          if IdxUnique idx \<and> IdxWhere idx = [] then
            and_then (requireColumnInIndex idx (TenantColumn t) TenantScope) (\<lambda>_.
              if UserScoped t then requireColumnInIndex idx (UserColumn t) UserScope else Ok ())
          else Ok ())"

fun check_indexes ::
  "tenancy_plan option \<Rightarrow> string list \<Rightarrow> index_plan list \<Rightarrow> string list
     \<Rightarrow> (plan_error, string list) outcome" where
  "check_indexes ten ks [] names = Ok names"
| "check_indexes ten ks (idx # idxs) names =
     (if IdxName idx \<in> set names then Err (NameTwice (IdxName idx))
      else and_then (check_known (IndexCol (IdxName idx)) ks (IdxColumns idx)) (\<lambda>_.
           and_then (check_index_scope ten idx) (\<lambda>_.
           check_indexes ten ks idxs (IdxName idx # names))))"

section \<open>Synthesised names\<close>

definition check_len :: "string \<Rightarrow> string \<Rightarrow> (plan_error, unit) outcome" where
  "check_len kind name = map_err (\<lambda>_. NameTooLong kind name) (checkSynthIdentLen kind name)"

definition claim_name :: "string \<Rightarrow> string \<Rightarrow> string list \<Rightarrow> (plan_error, string list) outcome" where
  "claim_name kind name names =
     and_then (check_len kind name) (\<lambda>_.
       if name \<in> set names then Err (NameTwice name) else Ok (name # names))"

fun claim_paths ::
  "string \<Rightarrow> string \<Rightarrow> string \<Rightarrow> string \<Rightarrow> string list \<Rightarrow> string list \<Rightarrow> string list
     \<Rightarrow> (plan_error, string list) outcome" where
  "claim_paths kind table owner col seen [] names = Ok names"
| "claim_paths kind table owner col seen (path # paths) names =
     (if path \<in> set seen then Err (PathTwice owner path)
      else and_then (claim_name kind (jsonbPathIndexName table col path) names)
             (claim_paths kind table owner col (path # seen) paths))"

fun claim_column_paths :: "string \<Rightarrow> column_plan list \<Rightarrow> string list \<Rightarrow> (plan_error, string list) outcome"
where
  "claim_column_paths table [] names = Ok names"
| "claim_column_paths table (c # cs) names =
     and_then (claim_paths ''jsonb_indexed_paths index'' table (DBName c) (DBName c) []
                 (JSONBIndexedPaths c) names) (claim_column_paths table cs)"

fun claim_oneof_paths ::
  "string \<Rightarrow> oneof_column_plan list \<Rightarrow> string list \<Rightarrow> (plan_error, string list) outcome" where
  "claim_oneof_paths table [] names = Ok names"
| "claim_oneof_paths table (oc # ocs) names =
     and_then (claim_paths ''oneof jsonb_indexed_paths index'' table (BaseName oc) (JSONColumn oc) []
                 (OneofIndexedPaths oc) names) (claim_oneof_paths table ocs)"

definition ginIndexName :: "string \<Rightarrow> string \<Rightarrow> string" where
  "ginIndexName table col = ''idx_'' @ table @ ''_'' @ col @ ''_gin''"

definition uniqueIndexName :: "string \<Rightarrow> string \<Rightarrow> string" where
  "uniqueIndexName table col = ''idx_'' @ table @ ''_'' @ col @ ''_unique''"

fun claim_synthesised :: "resource_plan \<Rightarrow> column_plan list \<Rightarrow> string list \<Rightarrow> (plan_error, string list) outcome"
where
  "claim_synthesised p [] names = Ok names"
| "claim_synthesised p (c # cs) names =
     and_then (if JSONBGinIndex c then claim_name ''jsonb_gin_index'' (ginIndexName (TableName p) (DBName c)) names
               else Ok names) (\<lambda>names.
     and_then (if \<not> Unique c then Ok names
               else if length (PrimaryKey p) = 1 \<and> PrimaryKey p ! 0 = DBName c
                 then Err (UniqueRedundant (DBName c))
               else claim_name ''unique index'' (uniqueIndexName (TableName p) (DBName c)) names) (\<lambda>names.
     and_then (if CheckExpr c \<noteq> []
               then check_len ''CHECK constraint'' (TableName p @ ''_'' @ DBName c @ ''_check'')
               else Ok ()) (\<lambda>_.
     claim_synthesised p cs names)))"

fun check_oneof_lens :: "string \<Rightarrow> oneof_column_plan list \<Rightarrow> (plan_error, unit) outcome" where
  "check_oneof_lens table [] = Ok ()"
| "check_oneof_lens table (oc # ocs) =
     and_then (check_len ''oneof kind CHECK'' (table @ ''_'' @ BaseName oc @ ''_kind_valid''))
       (\<lambda>_. check_oneof_lens table ocs)"

section \<open>Orders, and the whole check\<close>

fun check_order :: "column_role \<Rightarrow> string list \<Rightarrow> string list \<Rightarrow> order_part list \<Rightarrow> (plan_error, unit) outcome"
where
  "check_order r ks ords [] = Ok ()"
| "check_order r ks ords (part # parts) =
     (if FieldPath part \<notin> set ks then Err (UnknownColumn r (FieldPath part))
      else if FieldPath part \<notin> set ords then Err (NotOrderable r (FieldPath part))
      else check_order r ks ords parts)"

definition validatePlan :: "resource_plan \<Rightarrow> (plan_error, unit) outcome" where
  "validatePlan p =
     and_then (scan_columns (Columns p) \<lparr>known = [], synthesized = [], orderable_cols = []\<rparr>) (\<lambda>st1.
     and_then (scan_oneofs (OneofColumns p) st1) (\<lambda>st.
     and_then (assert_that (PrimaryKey p \<noteq> []) PrimaryKeyRequired) (\<lambda>_.
     and_then (check_known PrimaryKeyCol (known st) (PrimaryKey p)) (\<lambda>_.
     and_then (check_pk_scope p) (\<lambda>_.
     and_then (case Partition p of None \<Rightarrow> Ok ()
               | Some pp \<Rightarrow> check_partition_cols (known st) (PrimaryKey p) (PartColumns pp)) (\<lambda>_.
     and_then (check_indexes (Tenancy p) (known st) (Indexes p) []) (\<lambda>names1.
     and_then (claim_column_paths (TableName p) (Columns p) names1) (\<lambda>names2.
     and_then (claim_oneof_paths (TableName p) (OneofColumns p) names2) (\<lambda>names3.
     and_then (claim_synthesised p (Columns p) names3) (\<lambda>_.
     and_then (check_oneof_lens (TableName p) (OneofColumns p)) (\<lambda>_.
     and_then (check_order DefaultOrderCol (known st) (orderable_cols st) (PlanDefaultOrder p)) (\<lambda>_.
     check_order TieBreakerCol (known st) (orderable_cols st) (TieBreaker p)))))))))))))"

section \<open>What an accepted plan satisfies\<close>

definition column_names :: "resource_plan \<Rightarrow> string list" where
  "column_names p =
     map DBName (Columns p) @ concat (map (\<lambda>oc. [KindColumn oc, JSONColumn oc]) (OneofColumns p))"

definition pageable_names :: "resource_plan \<Rightarrow> string list" where
  "pageable_names p = map DBName (filter (\<lambda>c. Orderable c \<or> Synthesized c) (Columns p))"

definition path_index_names :: "resource_plan \<Rightarrow> string list" where
  "path_index_names p =
     concat (map (\<lambda>c. map (jsonbPathIndexName (TableName p) (DBName c)) (JSONBIndexedPaths c)) (Columns p))
     @ concat (map (\<lambda>oc. map (jsonbPathIndexName (TableName p) (JSONColumn oc)) (OneofIndexedPaths oc))
         (OneofColumns p))"

definition column_index_names :: "string \<Rightarrow> column_plan \<Rightarrow> string list" where
  "column_index_names table c =
     (if JSONBGinIndex c then [ginIndexName table (DBName c)] else [])
     @ (if Unique c then [uniqueIndexName table (DBName c)] else [])"

definition synthesised_names :: "resource_plan \<Rightarrow> string list" where
  "synthesised_names p =
     path_index_names p @ concat (map (column_index_names (TableName p)) (Columns p))"

definition constraint_names :: "resource_plan \<Rightarrow> string list" where
  "constraint_names p =
     map (\<lambda>c. TableName p @ ''_'' @ DBName c @ ''_check'') (filter (\<lambda>c. CheckExpr c \<noteq> []) (Columns p))
     @ map (\<lambda>oc. TableName p @ ''_'' @ BaseName oc @ ''_kind_valid'') (OneofColumns p)"

definition plan_ok :: "resource_plan \<Rightarrow> bool" where
  "plan_ok p \<longleftrightarrow>
     distinct (column_names p)
     \<and> PrimaryKey p \<noteq> [] \<and> set (PrimaryKey p) \<subseteq> set (column_names p)
     \<and> set (uniqueScope p) \<subseteq> set (PrimaryKey p)
     \<and> (case Partition p of None \<Rightarrow> True | Some pp \<Rightarrow> set (PartColumns pp) \<subseteq> set (PrimaryKey p))
     \<and> (\<forall>idx \<in> set (Indexes p). set (IdxColumns idx) \<subseteq> set (column_names p)
          \<and> (IdxUnique idx \<and> IdxWhere idx = [] \<longrightarrow> set (uniqueScope p) \<subseteq> set (IdxColumns idx)))
     \<and> distinct (map IdxName (Indexes p) @ synthesised_names p)
     \<and> (\<forall>n \<in> set (synthesised_names p @ constraint_names p). length n \<le> 63)
     \<and> (\<forall>c \<in> set (Columns p). Unique c \<longrightarrow> PrimaryKey p \<noteq> [DBName c])
     \<and> FieldPath ` set (PlanDefaultOrder p @ TieBreaker p) \<subseteq> set (pageable_names p)"

subsection \<open>The loops\<close>

definition fresh :: "string list \<Rightarrow> string list \<Rightarrow> bool" where
  "fresh ns taken \<longleftrightarrow> distinct ns \<and> set ns \<inter> set taken = {} \<and> (\<forall>n \<in> set ns. length n \<le> 63)"

lemma fresh_Nil [simp]: "fresh [] taken"
  by (simp add: fresh_def)

lemma fresh_Cons: "fresh (n # ns) taken \<longleftrightarrow> length n \<le> 63 \<and> n \<notin> set taken \<and> fresh ns (n # taken)"
  by (auto simp: fresh_def)

lemma fresh_append: "fresh (ms @ ns) taken \<longleftrightarrow> fresh ms taken \<and> fresh ns (rev ms @ taken)"
  by (auto simp: fresh_def)

lemma scan_columns_Ok:
  "scan_columns cs st = Ok st' \<longleftrightarrow>
     distinct (map DBName cs) \<and> set (map DBName cs) \<inter> set (known st) = {}
     \<and> st' = st\<lparr>known := rev (map DBName cs) @ known st,
               synthesized := rev (map DBName (filter Synthesized cs)) @ synthesized st,
               orderable_cols := rev (map DBName (filter (\<lambda>c. Orderable c \<or> Synthesized c) cs)) @ orderable_cols st\<rparr>"
  by (induction cs st rule: scan_columns.induct) auto

lemma scan_oneofs_Ok:
  assumes "\<forall>oc \<in> set ocs. KindColumn oc \<noteq> JSONColumn oc"
  shows "scan_oneofs ocs st = Ok st' \<longleftrightarrow>
     distinct (concat (map (\<lambda>oc. [KindColumn oc, JSONColumn oc]) ocs))
     \<and> set (concat (map (\<lambda>oc. [KindColumn oc, JSONColumn oc]) ocs)) \<inter> set (known st) = {}
     \<and> st' = st\<lparr>known := rev (concat (map (\<lambda>oc. [KindColumn oc, JSONColumn oc]) ocs)) @ known st\<rparr>"
  using assms by (induction ocs st rule: scan_oneofs.induct) auto

lemma check_known_Ok [go_simps]: "check_known r ks cs = Ok u \<longleftrightarrow> set cs \<subseteq> set ks"
  by (induction r ks cs rule: check_known.induct) auto

lemma check_partition_cols_Ok:
  "check_partition_cols ks pk cs = Ok u \<longleftrightarrow> set cs \<subseteq> set ks \<inter> set pk"
  by (induction ks pk cs rule: check_partition_cols.induct) auto

lemma check_order_Ok:
  "check_order r ks ords parts = Ok u \<longleftrightarrow> FieldPath ` set parts \<subseteq> set ks \<inter> set ords"
  by (induction r ks ords parts rule: check_order.induct) auto

lemma check_pk_scope_Ok [go_simps]: "check_pk_scope p = Ok u \<longleftrightarrow> set (uniqueScope p) \<subseteq> set (PrimaryKey p)"
  by (auto simp: check_pk_scope_def requireColumnInPK_def uniqueScope_def go_simps split: option.splits)

lemma check_index_scope_Ok:
  "check_index_scope (Tenancy p) idx = Ok u \<longleftrightarrow>
     (IdxUnique idx \<and> IdxWhere idx = [] \<longrightarrow> set (uniqueScope p) \<subseteq> set (IdxColumns idx))"
  by (auto simp: check_index_scope_def requireColumnInIndex_def uniqueScope_def go_simps
      split: option.splits)

lemma check_indexes_Ok:
  "check_indexes (Tenancy p) ks idxs names = Ok names' \<longleftrightarrow>
     distinct (map IdxName idxs) \<and> set (map IdxName idxs) \<inter> set names = {}
     \<and> (\<forall>idx \<in> set idxs. set (IdxColumns idx) \<subseteq> set ks
          \<and> (IdxUnique idx \<and> IdxWhere idx = [] \<longrightarrow> set (uniqueScope p) \<subseteq> set (IdxColumns idx)))
     \<and> names' = rev (map IdxName idxs) @ names"
  by (induction idxs arbitrary: names) (auto simp: go_simps check_index_scope_Ok)

lemma check_len_Ok [go_simps]: "check_len k n = Ok u \<longleftrightarrow> length n \<le> 63"
  by (auto simp: check_len_def checkSynthIdentLen_def)

lemma claim_name_Ok [go_simps]:
  "claim_name k n names = Ok names' \<longleftrightarrow> fresh [n] names \<and> names' = n # names"
  by (auto simp: claim_name_def go_simps fresh_def split: if_splits)

lemma claim_paths_Ok:
  "claim_paths k t owner col seen paths names = Ok names' \<longleftrightarrow>
     set paths \<inter> set seen = {} \<and> fresh (map (jsonbPathIndexName t col) paths) names
     \<and> names' = rev (map (jsonbPathIndexName t col) paths) @ names"
proof (induction paths arbitrary: seen names)
  case (Cons path paths)
  have "path \<notin> set paths" if "fresh (map (jsonbPathIndexName t col) (path # paths)) names"
    using that by (auto simp: fresh_def)
  with Cons show ?case by (auto simp: go_simps fresh_Cons)
qed auto

lemma claim_column_paths_Ok [go_simps]:
  "claim_column_paths t cs names = Ok names' \<longleftrightarrow>
     fresh (concat (map (\<lambda>c. map (jsonbPathIndexName t (DBName c)) (JSONBIndexedPaths c)) cs)) names
     \<and> names' = rev (concat (map (\<lambda>c. map (jsonbPathIndexName t (DBName c)) (JSONBIndexedPaths c)) cs)) @ names"
  by (induction cs arbitrary: names) (auto simp: go_simps claim_paths_Ok fresh_append)

lemma claim_oneof_paths_Ok [go_simps]:
  "claim_oneof_paths t ocs names = Ok names' \<longleftrightarrow>
     fresh (concat (map (\<lambda>oc. map (jsonbPathIndexName t (JSONColumn oc)) (OneofIndexedPaths oc)) ocs)) names
     \<and> names' = rev (concat (map (\<lambda>oc. map (jsonbPathIndexName t (JSONColumn oc)) (OneofIndexedPaths oc)) ocs)) @ names"
  by (induction ocs arbitrary: names) (auto simp: go_simps claim_paths_Ok fresh_append)

lemma sole_key_iff: "length xs = 1 \<and> xs ! 0 = x \<longleftrightarrow> xs = [x]"
  by (cases xs) auto

lemma claim_synthesised_Ok [go_simps]:
  "claim_synthesised p cs names = Ok names' \<longleftrightarrow>
     fresh (concat (map (column_index_names (TableName p)) cs)) names
     \<and> (\<forall>c \<in> set cs. Unique c \<longrightarrow> PrimaryKey p \<noteq> [DBName c])
     \<and> (\<forall>c \<in> set cs. CheckExpr c \<noteq> [] \<longrightarrow> length (TableName p @ ''_'' @ DBName c @ ''_check'') \<le> 63)
     \<and> names' = rev (concat (map (column_index_names (TableName p)) cs)) @ names"
proof (induction cs arbitrary: names)
  case (Cons c cs)
  then show ?case
    unfolding claim_synthesised.simps sole_key_iff
    by (cases "JSONBGinIndex c"; cases "Unique c"; cases "CheckExpr c = []")
       (auto simp: go_simps column_index_names_def fresh_append fresh_Cons split: if_splits)
qed auto

lemma check_oneof_lens_Ok [go_simps]:
  "check_oneof_lens t ocs = Ok u \<longleftrightarrow>
     (\<forall>oc \<in> set ocs. length (t @ ''_'' @ BaseName oc @ ''_kind_valid'') \<le> 63)"
  by (induction t ocs rule: check_oneof_lens.induct) (auto simp: go_simps)

section \<open>Properties\<close>

lemma validatePlan_spec:
  assumes "\<forall>oc \<in> set (OneofColumns p). KindColumn oc \<noteq> JSONColumn oc"
  shows "validatePlan p = Ok () \<longleftrightarrow> plan_ok p"
proof -
  let ?st = "\<lparr>known = rev (column_names p), synthesized = rev (map DBName (filter Synthesized (Columns p))),
    orderable_cols = rev (pageable_names p)\<rparr>"
  let ?part = "case Partition p of None \<Rightarrow> Ok ()
    | Some pp \<Rightarrow> check_partition_cols (known ?st) (PrimaryKey p) (PartColumns pp)"
  have cols: "(\<exists>st1. scan_columns (Columns p) \<lparr>known = [], synthesized = [], orderable_cols = []\<rparr> = Ok st1
      \<and> (\<exists>st. scan_oneofs (OneofColumns p) st1 = Ok st \<and> Q st))
    \<longleftrightarrow> distinct (column_names p) \<and> Q ?st" for Q
    by (simp add: scan_columns_Ok scan_oneofs_Ok [OF assms] column_names_def pageable_names_def)
       (auto simp: Int_commute)
  have part: "?part = Ok u \<longleftrightarrow>
      (case Partition p of None \<Rightarrow> True | Some pp \<Rightarrow> set (PartColumns pp) \<subseteq> set (PrimaryKey p))"
    if "set (PrimaryKey p) \<subseteq> set (column_names p)" for u
    using that by (auto simp: check_partition_cols_Ok split: option.splits)
  have pageable: "set (pageable_names p) \<subseteq> set (column_names p)"
    by (auto simp: pageable_names_def column_names_def)
  have names: "distinct (map IdxName (Indexes p))
      \<and> fresh (synthesised_names p) (rev (map IdxName (Indexes p)))
    \<longleftrightarrow> distinct (map IdxName (Indexes p) @ synthesised_names p)
      \<and> (\<forall>n \<in> set (synthesised_names p). length n \<le> 63)"
    by (auto simp: fresh_def)
  have lens: "(\<forall>c \<in> set (Columns p). CheckExpr c \<noteq> []
        \<longrightarrow> length (TableName p @ ''_'' @ DBName c @ ''_check'') \<le> 63)
      \<and> (\<forall>oc \<in> set (OneofColumns p). length (TableName p @ ''_'' @ BaseName oc @ ''_kind_valid'') \<le> 63)
    \<longleftrightarrow> (\<forall>n \<in> set (constraint_names p). length n \<le> 63)"
    by (simp add: constraint_names_def ball_Un) blast
  have order: "FieldPath ` set parts \<subseteq> set (known ?st) \<inter> set (orderable_cols ?st)
    \<longleftrightarrow> FieldPath ` set parts \<subseteq> set (pageable_names p)" for parts
    using pageable by auto
  have "validatePlan p = Ok () \<longleftrightarrow>
      distinct (column_names p) \<and> PrimaryKey p \<noteq> [] \<and> set (PrimaryKey p) \<subseteq> set (column_names p)
      \<and> set (uniqueScope p) \<subseteq> set (PrimaryKey p) \<and> ?part = Ok ()
      \<and> distinct (map IdxName (Indexes p))
      \<and> (\<forall>idx \<in> set (Indexes p). set (IdxColumns idx) \<subseteq> set (column_names p)
          \<and> (IdxUnique idx \<and> IdxWhere idx = [] \<longrightarrow> set (uniqueScope p) \<subseteq> set (IdxColumns idx)))
      \<and> fresh (synthesised_names p) (rev (map IdxName (Indexes p)))
      \<and> (\<forall>c \<in> set (Columns p). Unique c \<longrightarrow> PrimaryKey p \<noteq> [DBName c])
      \<and> ((\<forall>c \<in> set (Columns p). CheckExpr c \<noteq> []
            \<longrightarrow> length (TableName p @ ''_'' @ DBName c @ ''_check'') \<le> 63)
        \<and> (\<forall>oc \<in> set (OneofColumns p). length (TableName p @ ''_'' @ BaseName oc @ ''_kind_valid'') \<le> 63))
      \<and> FieldPath ` set (PlanDefaultOrder p) \<subseteq> set (known ?st) \<inter> set (orderable_cols ?st)
      \<and> FieldPath ` set (TieBreaker p) \<subseteq> set (known ?st) \<inter> set (orderable_cols ?st)"
    unfolding validatePlan_def synthesised_names_def path_index_names_def fresh_append
    by (simp add: go_simps cols check_indexes_Ok check_order_Ok)
  also have "\<dots> \<longleftrightarrow> plan_ok p"
    unfolding plan_ok_def lens order using names part by (auto simp: image_Un)
  finally show ?thesis .
qed

text \<open>
  C20: \<open>validatePlan\<close> accepts exactly the plans that satisfy a declarative specification: all
  column names (synthesized, proto and oneof pair) distinct; a non-empty primary key of known
  columns that contains the tenant (and user) column; partition columns inside the primary key;
  indexes over known columns, the unconditional unique ones scoped; all index names, explicit and
  synthesised, distinct, and the synthesised ones within PostgreSQL's 63 bytes; no redundant
  \<^verbatim>\<open>unique\<close>; and default order and tie-breaker over orderable columns. The
  hypothesis is what \<^verbatim>\<open>resolveOneof\<close> builds.
\<close>

theorem validatePlan_iff:
  assumes "\<forall>oc \<in> set (OneofColumns p). KindColumn oc \<noteq> JSONColumn oc"
  shows "validatePlan p = Ok () \<longleftrightarrow> plan_ok p"
  using assms by (rule validatePlan_spec)

text \<open>A tenant-scoped table that passes every check, for the witnesses.\<close>

definition sample_plan :: resource_plan where
  "sample_plan = empty_plan\<lparr>ResourceFQN := ''lib.v1.Book'', TableName := ''books'',
     Tenancy := Some \<lparr>TenantColumn = ''tenant_id'', RuntimeRole = ''app'', UserScoped = True,
       UserColumn = ''user_id''\<rparr>,
     PrimaryKey := [''tenant_id'', ''user_id'', ''id''],
     Columns := [(text_column ''tenant_id'')\<lparr>Synthesized := True\<rparr>,
                 (text_column ''user_id'')\<lparr>Synthesized := True\<rparr>,
                 (text_column ''id'')\<lparr>Orderable := True\<rparr>,
                 (text_column ''isbn'')\<lparr>Unique := True\<rparr>,
                 (text_column ''spec'')\<lparr>JSONBGinIndex := True, JSONBIndexedPaths := [''a.b'', ''a.c'']\<rparr>],
     Indexes := [\<lparr>IdxName = ''by_isbn'', IdxColumns = [''tenant_id'', ''user_id'', ''isbn''],
       IdxOrder = [''ASC'', ''ASC'', ''ASC''], IdxUnique = True, IdxWhere = []\<rparr>],
     OneofColumns := [\<lparr>BaseName = ''body'', KindColumn = ''body_kind'', JSONColumn = ''body'',
       OneofComment = [], Optional = True, Variants = [''text'', ''url''], JetKindField = ''BodyKind'',
       JetJSONField = ''Body'', OneofIndexedPaths = [''lang'']\<rparr>],
     TieBreaker := [\<lparr>FieldPath = ''id'', OrderDesc = False\<rparr>]\<rparr>"

lemma sample_plan_accepted: "validatePlan sample_plan = Ok ()"
  by code_simp

lemma sample_plan_oneofs: "\<forall>oc \<in> set (OneofColumns sample_plan). KindColumn oc \<noteq> JSONColumn oc"
  by code_simp

theorem validatePlan_iff_witness: "plan_ok sample_plan"
  using validatePlan_iff [OF sample_plan_oneofs] sample_plan_accepted by blast

definition declared_keys :: "resource_plan \<Rightarrow> string list list" where
  "declared_keys p =
     PrimaryKey p # map (uniqueIndexColumns p) (filter Unique (Columns p))
       @ map IdxColumns (filter (\<lambda>idx. IdxUnique idx \<and> IdxWhere idx = []) (Indexes p))"



definition user_scoped_tables :: "resource_plan list" where
  "user_scoped_tables =
     map (\<lambda>p. p\<lparr>Columns := [(text_column ''tenant_id'')\<lparr>Synthesized := True\<rparr>,
                (text_column ''user_id'')\<lparr>Synthesized := True\<rparr>]
              @ map (\<lambda>c. c\<lparr>Unique := False\<rparr>) (Columns p)\<rparr>) (sample_tables True)"

text \<open>
  The constraint the foreign key pass injects for a tenant-composite reference covers (tenant,
  column) also on a user-scoped table: after \<open>validatePlan\<close> has accepted both plans and the pass
  has reported nothing, the target carries a unique index without the user column, the leak between
  users of one tenant that \<open>validatePlan\<close> refuses when it is declared.
\<close>

theorem injected_unique_crosses_users:
  "map validatePlan user_scoped_tables = [Ok (), Ok ()]
   \<and> snd (resolveForeignKeys user_scoped_tables) = []
   \<and> uniqueScope (fst (resolveForeignKeys user_scoped_tables) ! 0) = [''tenant_id'', ''user_id'']
   \<and> map UqColumns (SupplementalUniques (fst (resolveForeignKeys user_scoped_tables) ! 0))
       = [[''tenant_id'', ''email'']]"
  by code_simp

definition clashing_tables :: "resource_plan list" where
  "clashing_tables =
     map (\<lambda>p. p\<lparr>PrimaryKey := [''id''], Tenancy := None,
               Columns := map (\<lambda>c. c\<lparr>Unique := (DBName c = ''email'')\<rparr>) (Columns p),
               Indexes := (if TableName p = ''books''
                 then [\<lparr>IdxName = ''idx_books_author_fk'', IdxColumns = [''id'', ''author''],
                        IdxOrder = [''ASC'', ''ASC''], IdxUnique = False, IdxWhere = []\<rparr>] else [])\<rparr>)
       (sample_tables False)"

text \<open>
  The names of foreign key indexes are given after \<open>validatePlan\<close> and are not among the names
  it compares: an explicit index may have the name that the pass then gives to the backing index of
  a foreign key of the same table, and the DDL creates two indexes of one name.
\<close>

theorem fk_index_name_clash:
  "map validatePlan clashing_tables = [Ok (), Ok ()]
   \<and> snd (resolveForeignKeys clashing_tables) = []
   \<and> map IdxName (Indexes (fst (resolveForeignKeys clashing_tables) ! 1)) = [''idx_books_author_fk'']
   \<and> (case ForeignKey (Columns (fst (resolveForeignKeys clashing_tables) ! 1) ! 1) of
        Some fk \<Rightarrow> BackingIndex fk \<and> IndexName fk = ''idx_books_author_fk'' | None \<Rightarrow> False)"
  by code_simp

end
