(* ===== verification/Resource_Resolve.thy ===== *)
theory Resource_Resolve
  imports Column_Resolve Plan_Validate Order_By
begin

text \<open>
  \<^verbatim>\<open>resolveResource\<close> of \<^verbatim>\<open>cmd/protoc-gen-go-jet/resolve.go\<close> and the functions
  it calls: from an annotated message to a validated plan. The options of the message are records;
  the Go output paths (\<^verbatim>\<open>GoDir\<close>, the jet imports and the like) are left out of the plan,
  the check that the proto's Go package lies in the module is not.
\<close>

section \<open>Options\<close>

record oneof_option =
  oopt_name :: string
  oopt_optional :: bool
  oopt_paths :: "string list"

record proto_oneof =
  oo_name :: string
  oo_comment :: string
  oo_synthetic :: bool
  oo_option :: "oneof_option option"
  oo_variants :: "(string \<times> proto_kind) list"

record index_option =
  ix_name :: string
  ix_columns :: "string list"
  ix_order :: "string list"
  ix_unique :: bool
  ix_where :: string

datatype partition_method = MethodRange | MethodList | MethodHash | MethodUnspecified | MethodUnknown

record partition_option =
  pt_method :: partition_method
  pt_columns :: "string list"

record tenancy_option =
  tt_column :: string
  tt_runtime_role :: string
  tt_user_scoped :: bool
  tt_user_column :: string

record table_option =
  tb_name :: string
  tb_primary_key :: "string list"
  tb_tenancy :: "tenancy_option option"
  tb_indexes :: "index_option list"
  tb_partition :: "partition_option option"
  tb_custom_sql :: "string list"
  tb_default_order :: string
  tb_tie_breaker :: string

record proto_message =
  msg_file :: string
  msg_fqn :: string
  msg_comment :: string
  msg_go_name :: string
  msg_go_pkg :: string
  msg_fields :: "proto_field list"
  msg_oneofs :: "proto_oneof list"
  msg_table :: "table_option option"

section \<open>Errors\<close>

datatype oneof_error =
  BadBaseName string ident_error | GroupVariant string | UnsupportedVariant string proto_kind
  | NoVariants | BadOneofPath string path_error

datatype index_error =
  NoColumns | RepeatedColumn string | TooManyOrders nat nat | SemicolonInWhere string
  | BadIndexName string ident_error | BadOrder string string

datatype partition_error = MethodRequired | MethodNotKnown | PartitionNoColumns | PartitionRepeats string

datatype order_error = InvalidTerm string | EmptyOrder

datatype resource_error =
    TableMissingName | BadTableName string ident_error | RoleRequired
  | BadScopeColumn scope_kind string ident_error | VariantWithColumn string string
  | FieldError string column_error | OneofError string oneof_error | IndexError index_error
  | PartitionError partition_error | OrderError column_role order_error | OutsideModule string string
  | PlanError plan_error

section \<open>Oneofs, indexes, partitions\<close>

fun check_variants :: "(string \<times> proto_kind) list \<Rightarrow> (oneof_error, unit) outcome" where
  "check_variants [] = Ok ()"
| "check_variants ((n, k) # vs) =
     (if k = GroupKind then Err (GroupVariant n)
      else if k = NoKind then Err (UnsupportedVariant n k)
      else check_variants vs)"

definition resolveOneof :: "proto_oneof \<Rightarrow> (oneof_error, oneof_column_plan option) outcome" where
  "resolveOneof oneof =
     (case oo_option oneof of
        None \<Rightarrow> Ok None
      | Some opt \<Rightarrow>
          (let base = valOr (oopt_name opt) (toSnake (oo_name oneof)) in
           and_then (map_err (BadBaseName base) (validateSQLIdent base)) (\<lambda>_.
           and_then (check_variants (oo_variants oneof)) (\<lambda>_.
           and_then (assert_that (oo_variants oneof \<noteq> []) NoVariants) (\<lambda>_.
           and_then (map_out (\<lambda>p. map_err (BadOneofPath p) (validateJSONBPath p)) (oopt_paths opt)) (\<lambda>_.
           Ok (Some \<lparr>BaseName = base, KindColumn = base @ ''_kind'', JSONColumn = base,
                     OneofComment = normaliseProtoComment (oo_comment oneof),
                     Optional = oopt_optional opt,
                     Variants = map (toSnake \<circ> fst) (oo_variants oneof),
                     JetKindField = jetFieldNameFromDB (base @ ''_kind''),
                     JetJSONField = jetFieldNameFromDB base,
                     OneofIndexedPaths = oopt_paths opt\<rparr>)))))))"

fun first_repeated :: "string list \<Rightarrow> string list \<Rightarrow> string option" where
  "first_repeated seen [] = None"
| "first_repeated seen (c # cs) = (if c \<in> set seen then Some c else first_repeated (c # seen) cs)"

text \<open>
  \<^verbatim>\<open>strings.EqualFold\<close> with a word of lower-case ASCII letters. Beside the two ASCII
  cases, only U+017F folds to \<open>s\<close> and U+212A to \<open>k\<close>. The upper case of a string is
  \<^verbatim>\<open>ASC\<close> or \<^verbatim>\<open>DESC\<close> for the same strings, as U+017F is the one other rune whose
  upper case is among their letters.
\<close>

definition fold_rune :: "rune \<Rightarrow> char \<Rightarrow> bool" where
  "fold_rune r c \<longleftrightarrow> r = byte c \<or> r = byte c - 32 \<or> (c = CHR ''s'' \<and> r = 383) \<or> (c = CHR ''k'' \<and> r = 8490)"

definition EqualFold :: "string \<Rightarrow> string \<Rightarrow> bool" where
  "EqualFold t w \<longleftrightarrow> list_all2 fold_rune (map fst (runes t)) w"

definition index_order :: "string list \<Rightarrow> nat \<times> string \<Rightarrow> (index_error, string) outcome" where
  "index_order ord = (\<lambda>(i, col).
     if i < length ord \<and> ord ! i \<noteq> [] then
       if EqualFold (ord ! i) ''asc'' then Ok ''ASC''
       else if EqualFold (ord ! i) ''desc'' then Ok ''DESC''
       else Err (BadOrder col (ord ! i))
     else Ok ''ASC'')"

definition resolveIndex :: "string \<Rightarrow> index_option \<Rightarrow> (index_error, index_plan) outcome" where
  "resolveIndex table idx =
     (let cols = ix_columns idx; ord = ix_order idx in
      if cols = [] then Err NoColumns
      else case first_repeated [] cols of
        Some c \<Rightarrow> Err (RepeatedColumn c)
      | None \<Rightarrow>
          if length ord > length cols then Err (TooManyOrders (length ord) (length cols))
          else if CHR '';'' \<in> set (ix_where idx) then Err (SemicolonInWhere (ix_where idx))
          else
            let name = valOr (ix_name idx) (''idx_'' @ table @ ''_'' @ join ''_'' cols) in
            and_then (map_err (BadIndexName name) (validateSQLIdent name)) (\<lambda>_.
            and_then (map_out (index_order ord) (zip [0..<length cols] cols)) (\<lambda>orders.
            Ok \<lparr>IdxName = name, IdxColumns = cols, IdxOrder = orders, IdxUnique = ix_unique idx,
                IdxWhere = ix_where idx\<rparr>)))"

definition resolvePartition :: "partition_option \<Rightarrow> (partition_error, partition_plan) outcome" where
  "resolvePartition p =
     and_then (case pt_method p of
         MethodRange \<Rightarrow> Ok ''RANGE'' | MethodList \<Rightarrow> Ok ''LIST'' | MethodHash \<Rightarrow> Ok ''HASH''
       | MethodUnspecified \<Rightarrow> Err MethodRequired | MethodUnknown \<Rightarrow> Err MethodNotKnown) (\<lambda>method.
       if pt_columns p = [] then Err PartitionNoColumns
       else case first_repeated [] (pt_columns p) of
         Some c \<Rightarrow> Err (PartitionRepeats c)
       | None \<Rightarrow> Ok \<lparr>Method = method, PartColumns = pt_columns p\<rparr>)"

section \<open>Orders\<close>

fun parse_terms :: "string list \<Rightarrow> (order_error, order_part list) outcome" where
  "parse_terms [] = Ok []"
| "parse_terms (term0 # terms) =
     (let term = trim_space term0 in
      if term = [] then parse_terms terms
      else case str_fields term of
        [] \<Rightarrow> Panic
      | [p] \<Rightarrow> and_then (parse_terms terms) (\<lambda>ps. Ok (\<lparr>FieldPath = p, OrderDesc = False\<rparr> # ps))
      | [p, d] \<Rightarrow>
          if EqualFold d ''asc''
          then and_then (parse_terms terms) (\<lambda>ps. Ok (\<lparr>FieldPath = p, OrderDesc = False\<rparr> # ps))
          else if EqualFold d ''desc''
          then and_then (parse_terms terms) (\<lambda>ps. Ok (\<lparr>FieldPath = p, OrderDesc = True\<rparr> # ps))
          else Err (InvalidTerm term)
      | _ \<Rightarrow> Err (InvalidTerm term))"

definition parseOrderBy :: "string \<Rightarrow> (order_error, order_part list) outcome" where
  "parseOrderBy s =
     and_then (parse_terms (split_on CHR '','' s)) (\<lambda>parts.
       if parts = [] then Err EmptyOrder else Ok parts)"

section \<open>The resource\<close>

definition synthesised_column :: "string \<Rightarrow> column_plan" where
  "synthesised_column name =
     empty_column\<lparr>DBName := name, SQLType := ''TEXT'', NotNull := True, Kind := KindSynthesized,
       Synthesized := True, JetFieldName := jetFieldNameFromDB name, JetGoType := ''string''\<rparr>"

definition resolveTenancy :: "tenancy_option \<Rightarrow> (resource_error, tenancy_plan) outcome" where
  "resolveTenancy tt =
     (let tp = \<lparr>TenantColumn = valOr (tt_column tt) ''tenant_id'', RuntimeRole = tt_runtime_role tt,
                UserScoped = tt_user_scoped tt,
                UserColumn = (if tt_user_scoped tt \<and> tt_user_column tt = [] then ''user_id''
                              else tt_user_column tt)\<rparr> in
      and_then (assert_that (RuntimeRole tp \<noteq> []) RoleRequired) (\<lambda>_.
      and_then (map_err (BadScopeColumn TenantScope (TenantColumn tp)) (validateSQLIdent (TenantColumn tp))) (\<lambda>_.
      and_then (if UserScoped tp
                then map_err (BadScopeColumn UserScope (UserColumn tp)) (validateSQLIdent (UserColumn tp))
                else Ok ()) (\<lambda>_. Ok tp))))"

definition scope_columns :: "tenancy_plan option \<Rightarrow> column_plan list" where
  "scope_columns ten =
     (case ten of
        None \<Rightarrow> []
      | Some t \<Rightarrow> synthesised_column (TenantColumn t)
                  # (if UserScoped t then [synthesised_column (UserColumn t)] else []))"

fun resolve_fields :: "proto_field list \<Rightarrow> (resource_error, column_plan list) outcome" where
  "resolve_fields [] = Ok []"
| "resolve_fields (f # fs) =
     (case fld_oneof f of
        Some oneof \<Rightarrow>
          if fld_column f \<noteq> None then Err (VariantWithColumn (fld_name f) oneof) else resolve_fields fs
      | None \<Rightarrow>
          and_then (map_err (FieldError (fld_name f)) (resolveColumn f)) (\<lambda>col.
          and_then (resolve_fields fs) (\<lambda>cols.
          Ok (case col of None \<Rightarrow> cols | Some c \<Rightarrow> c # cols))))"

fun resolve_oneofs :: "proto_oneof list \<Rightarrow> (resource_error, oneof_column_plan list) outcome" where
  "resolve_oneofs [] = Ok []"
| "resolve_oneofs (oneof # oneofs) =
     (if oo_synthetic oneof then resolve_oneofs oneofs
      else and_then (map_err (OneofError (oo_name oneof)) (resolveOneof oneof)) (\<lambda>oc.
           and_then (resolve_oneofs oneofs) (\<lambda>ocs.
           Ok (case oc of None \<Rightarrow> ocs | Some c \<Rightarrow> c # ocs))))"

text \<open>\<^verbatim>\<open>strings.TrimRight(stmt, "; \t\r\n")\<close>, then \<^verbatim>\<open>strings.TrimSpace\<close>.\<close>

definition statement_end :: "char \<Rightarrow> bool" where
  "statement_end c \<longleftrightarrow> c \<in> set '';'' \<union> {CHR 0x20, CHR 0x09, CHR 0x0D, CHR 0x0A}"

definition trim_statement :: "string \<Rightarrow> string" where
  "trim_statement stmt = trim_space (trim_end statement_end stmt)"

definition resolveCustomSQL :: "string list \<Rightarrow> string list" where
  "resolveCustomSQL stmts = filter (\<lambda>s. s \<noteq> []) (map trim_statement stmts)"

definition resolveOrder :: "column_role \<Rightarrow> string \<Rightarrow> (resource_error, order_part list) outcome" where
  "resolveOrder role raw =
     (let s = trim_space raw in
      if s = [] then Ok [] else map_err (OrderError role) (parseOrderBy s))"

definition resolveResource ::
  "string \<Rightarrow> proto_message \<Rightarrow> (resource_error, resource_plan option) outcome" where
  "resolveResource modulePath m =
     (case msg_table m of
        None \<Rightarrow> Ok None
      | Some table \<Rightarrow>
          and_then (assert_that (tb_name table \<noteq> []) TableMissingName) (\<lambda>_.
          and_then (map_err (BadTableName (tb_name table)) (validateSQLIdent (tb_name table))) (\<lambda>_.
          and_then (case tb_tenancy table of
                      None \<Rightarrow> Ok None | Some tt \<Rightarrow> and_then (resolveTenancy tt) (\<lambda>tp. Ok (Some tp))) (\<lambda>ten.
          and_then (resolve_fields (msg_fields m)) (\<lambda>cols.
          and_then (resolve_oneofs (msg_oneofs m)) (\<lambda>oneofs.
          and_then (map_err IndexError (map_out (resolveIndex (tb_name table)) (tb_indexes table))) (\<lambda>indexes.
          and_then (case tb_partition table of
                      None \<Rightarrow> Ok None
                    | Some pb \<Rightarrow> and_then (map_err PartitionError (resolvePartition pb)) (\<lambda>pp. Ok (Some pp))) (\<lambda>partition.
          and_then (resolveOrder DefaultOrderCol (tb_default_order table)) (\<lambda>default_order.
          and_then (resolveOrder TieBreakerCol (tb_tie_breaker table)) (\<lambda>tie_breaker.
          and_then (assert_that (msg_go_pkg m = modulePath \<or> prefix (modulePath @ ''/'') (msg_go_pkg m))
                      (OutsideModule (msg_go_pkg m) modulePath)) (\<lambda>_.
          let plan = \<lparr>ProtoFile = msg_file m, ResourceFQN = msg_fqn m, TableName = tb_name table,
                TableComment = normaliseProtoComment (msg_comment m), PrimaryKey = tb_primary_key table,
                Indexes = indexes, Tenancy = ten, Partition = partition,
                PlanDefaultOrder = default_order, TieBreaker = tie_breaker,
                Columns = scope_columns ten @ cols, OneofColumns = oneofs,
                CustomSQL = resolveCustomSQL (tb_custom_sql table), SupplementalUniques = [],
                JetStructName = goJetStructName (tb_name table), ProtoGoName = msg_go_name m\<rparr> in
          and_then (map_err PlanError (validatePlan plan)) (\<lambda>_. Ok (Some plan)))))))))))))"

section \<open>What the parts satisfy\<close>

lemma legal_kind_bytes: "legal_ident b \<Longrightarrow> length b \<le> 58 \<Longrightarrow> legal_ident (b @ ''_kind'')"
  by (auto simp: legal_ident_def ident_byte_def lower_rune_def digit_rune_def)

lemma resolveOneof_shape:
  assumes "resolveOneof x = Ok (Some oc)"
  shows "legal_ident (BaseName oc) \<and> KindColumn oc = BaseName oc @ ''_kind'' \<and> JSONColumn oc = BaseName oc
    \<and> Variants oc \<noteq> [] \<and> (\<forall>p \<in> set (OneofIndexedPaths oc). legal_path p)"
  using assms
  by (auto simp: resolveOneof_def Let_def go_simps validateSQLIdent_Ok validateJSONBPath_Ok map_out_Ok_iff
      list_all2_conv_all_nth in_set_conv_nth split: option.splits)

lemma first_repeated_None: "first_repeated seen cs = None \<longleftrightarrow> distinct cs \<and> set cs \<inter> set seen = {}"
  by (induction seen cs rule: first_repeated.induct) auto

definition index_wf :: "index_plan \<Rightarrow> bool" where
  "index_wf idx \<longleftrightarrow> legal_ident (IdxName idx) \<and> IdxColumns idx \<noteq> [] \<and> distinct (IdxColumns idx)
     \<and> length (IdxOrder idx) = length (IdxColumns idx) \<and> set (IdxOrder idx) \<subseteq> {''ASC'', ''DESC''}
     \<and> no_semicolon (IdxWhere idx)"

lemma index_order_word: "index_order ord ic = Ok w \<Longrightarrow> w \<in> {''ASC'', ''DESC''}"
  by (auto simp: index_order_def split: prod.splits if_splits)

lemma resolveIndex_wf:
  assumes "resolveIndex t x = Ok idx"
  shows "index_wf idx"
proof -
  obtain orders where o: "map_out (index_order (ix_order x)) (zip [0..<length (ix_columns x)] (ix_columns x)) = Ok orders"
    and idx: "IdxColumns idx = ix_columns x" "IdxOrder idx = orders" "IdxWhere idx = ix_where x"
    and rest: "legal_ident (IdxName idx)" "ix_columns x \<noteq> []" "distinct (ix_columns x)" "no_semicolon (ix_where x)"
    using assms
    by (auto simp: resolveIndex_def Let_def go_simps validateSQLIdent_Ok first_repeated_None no_semicolon_def
        split: if_splits option.splits)
  from o have "length orders = length (ix_columns x)" "set orders \<subseteq> {''ASC'', ''DESC''}"
    using index_order_word
    by (fastforce simp: map_out_Ok_iff list_all2_conv_all_nth in_set_conv_nth)+
  with idx rest show ?thesis by (simp add: index_wf_def)
qed

lemma resolvePartition_shape:
  assumes "resolvePartition x = Ok pp"
  shows "Method pp \<in> {''RANGE'', ''LIST'', ''HASH''} \<and> PartColumns pp \<noteq> [] \<and> distinct (PartColumns pp)"
  using assms
  by (auto simp: resolvePartition_def go_simps first_repeated_None
      split: if_splits option.splits partition_method.splits)

lemma resolveTenancy_shape:
  assumes "resolveTenancy tt = Ok tp"
  shows "legal_ident (TenantColumn tp) \<and> RuntimeRole tp \<noteq> [] \<and> (UserScoped tp \<longrightarrow> legal_ident (UserColumn tp))"
  using assms by (auto simp: resolveTenancy_def Let_def go_simps validateSQLIdent_Ok split: if_splits)

lemma resolve_fields_members:
  "resolve_fields fs = Ok cols \<Longrightarrow> c \<in> set cols \<Longrightarrow> \<exists>f \<in> set fs. fld_oneof f = None \<and> resolveColumn f = Ok (Some c)"
  by (induction fs arbitrary: cols) (auto simp: go_simps split: option.splits if_splits)

lemma resolve_oneofs_members:
  "resolve_oneofs xs = Ok ocs \<Longrightarrow> oc \<in> set ocs \<Longrightarrow> \<exists>x \<in> set xs. resolveOneof x = Ok (Some oc)"
  by (induction xs arbitrary: ocs) (auto simp: go_simps split: option.splits if_splits)

lemma resolveResource_stages:
  assumes "resolveResource mp m = Ok (Some p)"
  obtains table cols where
    "msg_table m = Some table" "TableName p = tb_name table" "legal_ident (TableName p)"
    "\<forall>t. Tenancy p = Some t \<longrightarrow> (\<exists>tt. resolveTenancy tt = Ok t)"
    "resolve_fields (msg_fields m) = Ok cols" "Columns p = scope_columns (Tenancy p) @ cols"
    "resolve_oneofs (msg_oneofs m) = Ok (OneofColumns p)"
    "\<forall>idx \<in> set (Indexes p). \<exists>x. resolveIndex (TableName p) x = Ok idx"
    "\<forall>pp. Partition p = Some pp \<longrightarrow> (\<exists>pb. resolvePartition pb = Ok pp)"
    "CustomSQL p = resolveCustomSQL (tb_custom_sql table)" "SupplementalUniques p = []"
    "resolveOrder DefaultOrderCol (tb_default_order table) = Ok (PlanDefaultOrder p)"
    "resolveOrder TieBreakerCol (tb_tie_breaker table) = Ok (TieBreaker p)"
    "validatePlan p = Ok ()"
proof -
  obtain table where t: "msg_table m = Some table"
    using assms by (cases "msg_table m") (auto simp: resolveResource_def)
  show thesis
    using assms that [OF t]
    by (auto simp: resolveResource_def t Let_def go_simps validateSQLIdent_Ok
        dest!: map_out_image split: option.splits; blast)
qed

section \<open>Properties\<close>

lemma oneof_columns_differ:
  assumes "resolveResource mp m = Ok (Some p)"
  shows "\<forall>oc \<in> set (OneofColumns p). KindColumn oc \<noteq> JSONColumn oc"
  by (rule resolveResource_stages [OF assms]) (use resolve_oneofs_members resolveOneof_shape in fastforce)

lemma resolved_plan_ok:
  assumes "resolveResource mp m = Ok (Some p)"
  shows "plan_ok p"
  using validatePlan_spec [OF oneof_columns_differ [OF assms]] resolveResource_stages [OF assms] by blast

lemma resolved_column:
  assumes "resolveResource mp m = Ok (Some p)" "c \<in> set (Columns p)"
  shows "(Synthesized c \<and> (\<exists>t. Tenancy p = Some t \<and> c \<in> set (scope_columns (Some t))))
    \<or> (\<exists>f \<in> set (msg_fields m). fld_oneof f = None \<and> resolveColumn f = Ok (Some c))"
  by (rule resolveResource_stages [OF assms(1)])
     (use assms(2) resolve_fields_members in
       \<open>auto simp: scope_columns_def synthesised_column_def split: option.splits if_splits\<close>)

lemma scope_column_legal:
  assumes "resolveResource mp m = Ok (Some p)" "Tenancy p = Some t" "c \<in> set (scope_columns (Some t))"
  shows "legal_ident (DBName c) \<and> JSONBIndexedPaths c = []"
  by (rule resolveResource_stages [OF assms(1)])
     (use assms(2,3) resolveTenancy_shape in
       \<open>fastforce simp: scope_columns_def synthesised_column_def empty_column_def split: if_splits\<close>)

lemma resolved_field_safe:
  assumes "resolveColumn f = Ok (Some c)"
  shows "legal_ident (DBName c) \<and> (\<forall>p \<in> set (JSONBIndexedPaths c). legal_path p)"
proof (rule resolved_parts [OF assms])
  fix c2 n c6
  assume "DBName c6 = DBName (named_column f)" and gen: "applyGeneratedExpr (option_of f) c6 = Ok c"
    and "JSONBIndexedPaths c6 = [] \<or> isJSONBKind (Kind c6) \<and> (\<forall>p \<in> set (JSONBIndexedPaths c6). legal_path p)"
  moreover have "legal_ident (DBName (named_column f))" using resolveColumn_stages [OF assms] by blast
  ultimately show ?thesis using applyGeneratedExpr_shape [OF gen] by auto
qed

lemma resolved_column_legal:
  assumes "resolveResource mp m = Ok (Some p)" "c \<in> set (Columns p)"
  shows "legal_ident (DBName c) \<and> (\<forall>p \<in> set (JSONBIndexedPaths c). legal_path p)"
  using resolved_column [OF assms] scope_column_legal [OF assms(1)] resolved_field_safe by fastforce

lemma resolved_oneof_legal:
  assumes "resolveResource mp m = Ok (Some p)" "oc \<in> set (OneofColumns p)"
  shows "legal_ident (BaseName oc)" "legal_ident (KindColumn oc)" "JSONColumn oc = BaseName oc"
    "\<forall>p \<in> set (OneofIndexedPaths oc). legal_path p"
proof -
  obtain x where "resolveOneof x = Ok (Some oc)"
    by (rule resolveResource_stages [OF assms(1)]) (use assms(2) resolve_oneofs_members in blast)
  note sh = resolveOneof_shape [OF this]
  then show "legal_ident (BaseName oc)" "JSONColumn oc = BaseName oc"
    "\<forall>p \<in> set (OneofIndexedPaths oc). legal_path p" by auto
  have "TableName p @ ''_'' @ BaseName oc @ ''_kind_valid'' \<in> set (constraint_names p)"
    using assms(2) by (auto simp: constraint_names_def)
  then have "length (TableName p @ ''_'' @ BaseName oc @ ''_kind_valid'') \<le> 63"
    using resolved_plan_ok [OF assms(1)] by (simp only: plan_ok_def set_append Un_iff ball_Un)
  then have "length (BaseName oc) \<le> 58" by simp
  then show "legal_ident (KindColumn oc)" using sh legal_kind_bytes by simp
qed

lemma legal_index_name:
  assumes "legal_ident t" "legal_ident c" "s = ''_gin'' \<or> s = ''_unique''"
    and "length (''idx_'' @ t @ ''_'' @ c @ s) \<le> 63"
  shows "legal_ident (''idx_'' @ t @ ''_'' @ c @ s)"
proof -
  have "\<forall>x \<in> set ''idx_'' \<union> set ''_'' \<union> set s. ident_byte x"
    using assms(3) by (auto simp: ident_byte_def lower_rune_def digit_rune_def)
  then show ?thesis using assms by (auto simp: legal_ident_def lower_rune_def)
qed

lemma resolved_names_legal:
  assumes res: "resolveResource mp m = Ok (Some p)"
  shows "\<forall>n \<in> set (column_names p @ map IdxName (Indexes p) @ synthesised_names p). legal_ident n"
proof -
  have table: "legal_ident (TableName p)" and idx: "\<forall>x \<in> set (Indexes p). legal_ident (IdxName x)"
    by (rule resolveResource_stages [OF res], use resolveIndex_wf in \<open>fastforce simp: index_wf_def\<close>)+
  note col = resolved_column_legal [OF res] and oneof = resolved_oneof_legal [OF res]
  have len: "length n \<le> 63" if "n \<in> set (synthesised_names p)" for n
    using resolved_plan_ok [OF res] that by (simp add: plan_ok_def ball_Un)
  have "legal_ident n" if n: "n \<in> set (path_index_names p)" for n
  proof -
    have "length n \<le> 63" using len n by (simp add: synthesised_names_def)
    with n table col oneof show ?thesis
      by (fastforce simp: path_index_names_def intro: jsonbPathIndexName_legal)
  qed
  moreover have "legal_ident n"
    if c: "c \<in> set (Columns p)" and n: "n \<in> set (column_index_names (TableName p) c)" for c n
  proof -
    have "length n \<le> 63" using len c n by (auto simp: synthesised_names_def)
    with n table col [OF c] legal_index_name [of "TableName p" "DBName c"] show ?thesis
      by (auto simp: column_index_names_def ginIndexName_def uniqueIndexName_def split: if_splits)
  qed
  ultimately show ?thesis
    using col oneof idx by (auto simp: column_names_def synthesised_names_def)
qed

text \<open>
  C6: A message the resolver accepts gives a plan that satisfies the declarative specification, in
  which every name the SQL uses without quotes (columns, explicit indexes, synthesised indexes) is a
  legal lower-case identifier of at most 63 bytes, every index is well-formed, and every column is
  either a tenancy column or the consistent column of one of the message's fields.
\<close>

theorem resolveResource_sound:
  assumes "resolveResource modulePath m = Ok (Some p)"
  shows "plan_ok p \<and> legal_ident (TableName p)
    \<and> (\<forall>n \<in> set (column_names p @ map IdxName (Indexes p) @ synthesised_names p). legal_ident n)
    \<and> (\<forall>idx \<in> set (Indexes p). index_wf idx)
    \<and> (\<forall>c \<in> set (Columns p). Synthesized c \<or>
         (\<exists>f \<in> set (msg_fields m). resolveColumn f = Ok (Some c) \<and> column_wf c))"
proof -
  have "\<forall>idx \<in> set (Indexes p). index_wf idx" "legal_ident (TableName p)"
    by (rule resolveResource_stages [OF assms], use resolveIndex_wf in fastforce)+
  moreover have "Synthesized c \<or> (\<exists>f \<in> set (msg_fields m). resolveColumn f = Ok (Some c) \<and> column_wf c)"
    if "c \<in> set (Columns p)" for c
    using resolved_column [OF assms that] resolved_column_wf by blast
  ultimately show ?thesis
    using resolved_plan_ok [OF assms] resolved_names_legal [OF assms] by blast
qed

definition sample_message :: proto_message where
  "sample_message = \<lparr>msg_file = ''lib/v1/run.proto'', msg_fqn = ''lib.v1.Run'', msg_comment = ''A run.'',
     msg_go_name = ''Run'', msg_go_pkg = ''example.com/lib/v1'',
     msg_fields = [plain_field ''id'' StringKind (no_column_option\<lparr>col_orderable := True, col_check := ''id <> '' @ quoted []\<rparr>),
                   state_field],
     msg_oneofs = [\<lparr>oo_name = ''bodyPart'', oo_comment = [], oo_synthetic = False,
        oo_option = Some \<lparr>oopt_name = [], oopt_optional = True, oopt_paths = [''a.b'']\<rparr>,
        oo_variants = [(''text'', StringKind), (''spec'', MessageKind)]\<rparr>],
     msg_table = Some \<lparr>tb_name = ''runs'', tb_primary_key = [''tenant_id'', ''id''],
        tb_tenancy = Some \<lparr>tt_column = [], tt_runtime_role = ''app'', tt_user_scoped = False, tt_user_column = []\<rparr>,
        tb_indexes = [\<lparr>ix_name = [], ix_columns = [''tenant_id'', ''id''], ix_order = [''desc''], ix_unique = True,
          ix_where = []\<rparr>],
        tb_partition = None, tb_custom_sql = [''ALTER TABLE runs SET (x = 1) ;; ''],
        tb_default_order = '' id DESC'', tb_tie_breaker = ''id''\<rparr>\<rparr>"

definition sample_resource :: resource_plan where
  "sample_resource = (case resolveResource ''example.com/lib'' sample_message of Ok (Some p) \<Rightarrow> p | _ \<Rightarrow> empty_plan)"

lemma sample_resource_resolved: "resolveResource ''example.com/lib'' sample_message = Ok (Some sample_resource)"
proof -
  have "case resolveResource ''example.com/lib'' sample_message of Ok (Some p) \<Rightarrow> True | _ \<Rightarrow> False"
    by code_simp
  then show ?thesis
    by (auto simp: sample_resource_def split: outcome.splits option.splits)
qed

theorem resolveResource_sound_witness:
  "plan_ok sample_resource
   \<and> column_names sample_resource = [''tenant_id'', ''id'', ''run_state'', ''body_part_kind'', ''body_part'']
   \<and> legal_ident ''idx_runs_body_part_a_b'' \<and> CustomSQL sample_resource = [''ALTER TABLE runs SET (x = 1)'']"
proof -
  have names: "column_names sample_resource = [''tenant_id'', ''id'', ''run_state'', ''body_part_kind'', ''body_part'']"
    "synthesised_names sample_resource = [''idx_runs_body_part_a_b'', ''idx_runs_run_state_unique'']"
    "CustomSQL sample_resource = [''ALTER TABLE runs SET (x = 1)'']"
    by code_simp+
  from resolveResource_sound [OF sample_resource_resolved] show ?thesis by (simp add: names)
qed

definition as_part :: "order_field \<Rightarrow> order_part" where
  "as_part f = \<lparr>FieldPath = Path f, OrderDesc = (Direction f = Desc)\<rparr>"

lemma fold_of_lower: "lower_byte c = d \<Longrightarrow> byte d < 128 \<Longrightarrow> fold_rune (byte c) d \<and> byte c < 128"
proof -
  assume l: "lower_byte c = d" "byte d < 128"
  show ?thesis
  proof (cases "65 \<le> byte c \<and> byte c \<le> 90")
    case True
    then have "byte d = byte c + 32"
      using l(1) byte_char_of_int [of "byte c + 32"] by (simp add: lower_byte_def)
    with True show ?thesis by (simp add: fold_rune_def)
  next
    case False
    then have "d = c" using l(1) by (auto simp: lower_byte_def split: if_splits)
    with l(2) show ?thesis by (simp add: fold_rune_def)
  qed
qed

lemma EqualFold_lower:
  assumes "lower_ascii t = w" "ascii w"
  shows "EqualFold t w"
proof -
  have m: "map lower_byte t = w" using assms(1) by (simp add: lower_ascii_def)
  have all: "fold_rune (byte (t ! i)) (w ! i) \<and> byte (t ! i) < 128" if "i < length t" for i
    using that m assms(2) fold_of_lower [of "t ! i" "w ! i"] by (auto simp: ascii_def)
  then have "ascii t" by (auto simp: ascii_def in_set_conv_nth)
  then have "map fst (runes t) = map byte t" by (simp add: runes_ascii comp_def)
  with all m show ?thesis by (auto simp: EqualFold_def list_all2_conv_all_nth)
qed

lemma EqualFold_words: "lower_ascii d = ''desc'' \<Longrightarrow> \<not> EqualFold d ''asc''"
proof -
  assume d: "lower_ascii d = ''desc''"
  then have "EqualFold d ''desc''" by (intro EqualFold_lower) (simp_all add: ascii_def)
  then have "length (runes d) = 4" by (auto simp: EqualFold_def dest: list_all2_lengthD)
  then show ?thesis by (auto simp: EqualFold_def dest: list_all2_lengthD)
qed

lemma parse_terms_agrees:
  "parse_specs specs seen = Ok fs \<Longrightarrow> parse_terms specs = Ok (map as_part fs)"
proof (induction specs arbitrary: seen fs)
  case (Cons spec0 specs)
  let ?spec = "trim_space spec0"
  obtain p rest dir fs' where p: "?spec \<noteq> []" "str_fields ?spec = p # rest"
      "parse_direction ?spec rest = Ok dir" "parse_specs specs (insert p seen) = Ok fs'"
      "fs = \<lparr>Path = p, Direction = dir\<rparr> # fs'"
    using Cons.prems by (auto simp: Let_def go_simps split: list.splits if_splits)
  have ih: "parse_terms specs = Ok (map as_part fs')" using Cons.IH p(4) by blast
  show ?case
  proof (cases rest)
    case Nil
    with p ih show ?thesis by (simp add: Let_def as_part_def)
  next
    case (Cons d ds)
    with p(3) have ds: "ds = []" by (cases ds) auto
    have "lower_ascii d = ''asc'' \<and> dir = Asc \<or> lower_ascii d = ''desc'' \<and> dir = Desc"
      using p(3) Cons ds by (auto split: if_splits)
    then show ?thesis
      using p(1,2,5) ih Cons ds EqualFold_lower [of d "''asc''"] EqualFold_lower [of d "''desc''"]
        EqualFold_words [of d]
      by (auto simp: Let_def as_part_def ascii_def)
  qed
qed simp

text \<open>
  C38: The generator's reader of orderings agrees with the run-time one: an ordering
  \<open>ParseOrderBy\<close> accepts is accepted by \<open>parseOrderBy\<close>, with the same paths and directions.
\<close>

theorem parseOrderBy_agrees:
  assumes "ParseOrderBy uni s = Ok ord" "Fields ord \<noteq> []"
  shows "parseOrderBy (trim_space s) = Ok (map as_part (Fields ord))"
proof -
  have "parse_specs (split_on CHR '','' (trim_space s)) {} = Ok (Fields ord)"
    using assms by (auto simp: ParseOrderBy_def Let_def go_simps split: if_splits list.splits)
  from parse_terms_agrees [OF this] show ?thesis using assms(2) by (simp add: parseOrderBy_def)
qed

theorem parseOrderBy_agrees_witness:
  "parseOrderBy ''name desc,age'' = Ok [\<lparr>FieldPath = ''name'', OrderDesc = True\<rparr>, \<lparr>FieldPath = ''age'', OrderDesc = False\<rparr>]"
proof -
  have "ParseOrderBy (\<lambda>_. False) ''name desc,age'' =
      Ok \<lparr>Fields = [\<lparr>Path = ''name'', Direction = Desc\<rparr>, \<lparr>Path = ''age'', Direction = Asc\<rparr>]\<rparr>"
    by code_simp
  moreover have "trim_space ''name desc,age'' = ''name desc,age''" by code_simp
  ultimately show ?thesis using parseOrderBy_agrees [of "\<lambda>_. False" "''name desc,age''"]
    by (simp add: as_part_def)
qed

text \<open>
  An entry of \<^verbatim>\<open>custom_sql\<close> that ends in a semicolon and a Unicode blank (here
  U+00A0) keeps its semicolon: the cut of semicolons comes before the cut of Unicode white space,
  and the emitter adds a second one.
\<close>

theorem custom_sql_keeps_semicolon:
  "resolveCustomSQL [''ANALYZE runs;'' @ [CHR 0xC2, CHR 0xA0], ''ANALYZE runs ; '', '' ;'']
   = [''ANALYZE runs;'', ''ANALYZE runs'']"
  by code_simp

end
