(* ===== verification/Emit_Schema.thy ===== *)
theory Emit_Schema
  imports Resource_Resolve Keyset
begin

text \<open>
  \<^verbatim>\<open>cmd/protoc-gen-go-jet/emit_schema.go\<close>: the generated declaration of a resource's list
  schema. The emitted Go source is the record of what it declares, and \<open>run_schema\<close> is what the
  declaration does when the generated package is initialised: a call of \<open>NewSchema\<close>. The
  generated go-jet model and table are parameters: the getter of a model field and the type of a
  column expression.
\<close>

section \<open>The emitter\<close>

datatype orderable_error = OrderableNullable | OrderableBool | NoCodec string | OrderableKind column_kind

definition validateOrderable :: "column_plan \<Rightarrow> (orderable_error, unit) outcome" where
  "validateOrderable c =
     (if Nullable c then Err OrderableNullable
      else case Kind c of
        KindTimestamp \<Rightarrow> Ok () | KindDuration \<Rightarrow> Ok () | KindEnumAsText \<Rightarrow> Ok ()
      | KindScalar \<Rightarrow>
          if JetGoType c \<in> {''string'', ''int32'', ''int64'', ''float32'', ''float64''} then Ok ()
          else if JetGoType c = ''bool'' then Err OrderableBool
          else Err (NoCodec (JetGoType c))
      | k \<Rightarrow> Err (OrderableKind k))"

definition codecNameForColumn :: "column_plan \<Rightarrow> string" where
  "codecNameForColumn c =
     (if Kind c = KindTimestamp then ''TimestampCodec''
      else if Kind c = KindDuration then ''Int64Codec''
      else if Kind c = KindScalar \<and> (JetGoType c = ''int32'' \<or> JetGoType c = ''int64'') then ''Int64Codec''
      else if Kind c = KindScalar \<and> (JetGoType c = ''float32'' \<or> JetGoType c = ''float64'') then ''Float64Codec''
      else ''StringCodec'')"

record schema_field =
  sf_key :: string
  sf_column :: string
  sf_codec :: string

record schema_decl =
  sd_resource :: string
  sd_fields :: "schema_field list"
  sd_defaults :: "order_part list"
  sd_ties :: "order_part list"

definition pageable_columns :: "resource_plan \<Rightarrow> column_plan list" where
  "pageable_columns p = filter (\<lambda>c. Orderable c \<and> \<not> Synthesized c) (Columns p)"

definition schema_field_of :: "column_plan \<Rightarrow> schema_field" where
  "schema_field_of c = \<lparr>sf_key = DBName c, sf_column = JetFieldName c, sf_codec = codecNameForColumn c\<rparr>"

definition emitSchema :: "resource_plan \<Rightarrow> (string \<times> orderable_error, schema_decl) outcome" where
  "emitSchema p =
     and_then (map_out (\<lambda>c. map_err (Pair (DBName c)) (validateOrderable c)) (pageable_columns p)) (\<lambda>_.
     Ok \<lparr>sd_resource = ResourceFQN p, sd_fields = map schema_field_of (pageable_columns p),
         sd_defaults = PlanDefaultOrder p, sd_ties = TieBreaker p\<rparr>)"

section \<open>The declaration, run\<close>

definition codec_of :: "go_std \<Rightarrow> string \<Rightarrow> cursor_codec" where
  "codec_of std name =
     (if name = ''TimestampCodec'' then TimestampCodec std
      else if name = ''Int64Codec'' then Int64Codec
      else if name = ''Float64Codec'' then Float64Codec std
      else StringCodec)"

definition dir_of :: "order_part \<Rightarrow> sort_direction" where
  "dir_of part = (if OrderDesc part then Desc else Asc)"

definition run_schema ::
  "go_std \<Rightarrow> (string \<Rightarrow> sql_expr) \<Rightarrow> (string \<Rightarrow> 'm \<Rightarrow> gval) \<Rightarrow> schema_decl \<Rightarrow> (unit, 'm schema) outcome" where
  "run_schema std table getter d =
     NewSchema (sd_resource d)
       (map (\<lambda>f. (sf_key f, \<lparr>Column = Some (table (sf_column f)), Codec = Some (codec_of std (sf_codec f)),
                             DisableOrdering = False, GetValue = Some (getter (sf_column f))\<rparr>)) (sd_fields d))
       (map (\<lambda>part. WithDefaultOrder (FieldPath part) (dir_of part)) (sd_defaults d)
        @ map (\<lambda>part. WithTieBreaker (FieldPath part) (dir_of part)) (sd_ties d))"

text \<open>The Go values of a model field, and the go-jet interface of a column of a SQL type.\<close>

definition has_go_type :: "string \<Rightarrow> gval \<Rightarrow> bool" where
  "has_go_type ty v \<longleftrightarrow>
     (case v of
        VString _ \<Rightarrow> ty = ''string'' | VBool _ \<Rightarrow> ty = ''bool'' | VInt32 _ \<Rightarrow> ty = ''int32''
      | VInt64 _ \<Rightarrow> ty = ''int64'' | VFloat32 _ \<Rightarrow> ty = ''float32'' | VFloat64 _ \<Rightarrow> ty = ''float64''
      | VTime _ \<Rightarrow> ty = ''time.Time'' | VOther _ \<Rightarrow> False)"

definition jet_interface :: "string \<Rightarrow> expr_type" where
  "jet_interface sql =
     (if sql = ''TEXT'' then TyString else if sql = ''BOOLEAN'' then TyBool
      else if sql = ''INTEGER'' \<or> sql = ''BIGINT'' then TyInteger
      else if sql = ''REAL'' \<or> sql = ''DOUBLE PRECISION'' then TyFloat
      else if sql = ''TIMESTAMPTZ'' then TyTimestampz else TyOther)"

definition order_fields_of :: "order_part list \<Rightarrow> order_field list" where
  "order_fields_of parts = map (\<lambda>part. \<lparr>Path = FieldPath part, Direction = dir_of part\<rparr>) parts"

section \<open>Lemmas\<close>

lemma fold_options:
  "fold (\<lambda>opt b. opt b) (map (\<lambda>part. WithDefaultOrder (FieldPath part) (dir_of part)) ds
      @ map (\<lambda>part. WithTieBreaker (FieldPath part) (dir_of part)) ts) b
   = b\<lparr>b_defaultOrder := b_defaultOrder b @ order_fields_of ds,
       b_tieBreakerFields := b_tieBreakerFields b @ order_fields_of ts\<rparr>"
proof -
  have d: "fold (\<lambda>opt b. opt b) (map (\<lambda>part. WithDefaultOrder (FieldPath part) (dir_of part)) ds) b
      = b\<lparr>b_defaultOrder := b_defaultOrder b @ order_fields_of ds\<rparr>" for b
    by (induction ds arbitrary: b) (auto simp: WithDefaultOrder_def order_fields_of_def)
  have t: "fold (\<lambda>opt b. opt b) (map (\<lambda>part. WithTieBreaker (FieldPath part) (dir_of part)) ts) b
      = b\<lparr>b_tieBreakerFields := b_tieBreakerFields b @ order_fields_of ts\<rparr>" for b
    by (induction ts arbitrary: b) (auto simp: WithTieBreaker_def order_fields_of_def)
  show ?thesis by (simp add: d t)
qed

lemma emitSchema_Ok:
  "emitSchema p = Ok d \<longleftrightarrow>
     (\<forall>c \<in> set (pageable_columns p). validateOrderable c = Ok ())
     \<and> d = \<lparr>sd_resource = ResourceFQN p, sd_fields = map schema_field_of (pageable_columns p),
           sd_defaults = PlanDefaultOrder p, sd_ties = TieBreaker p\<rparr>"
proof -
  have "(\<exists>us. map_out (\<lambda>c. map_err (Pair (DBName c)) (validateOrderable c)) cs = Ok us)
      \<longleftrightarrow> (\<forall>c \<in> set cs. validateOrderable c = Ok ())" for cs
    by (induction cs) (auto simp: go_simps)
  then show ?thesis by (auto simp: emitSchema_def go_simps)
qed

text \<open>Every part of an order names a field of the declaration.\<close>

definition parts_declared :: "resource_plan \<Rightarrow> bool" where
  "parts_declared p \<longleftrightarrow>
     FieldPath ` set (PlanDefaultOrder p @ TieBreaker p) \<subseteq> DBName ` set (pageable_columns p)"

lemma run_schema_iff:
  assumes "emitSchema p = Ok d"
  shows "(\<exists>s. run_schema std table getter d = Ok s) \<longleftrightarrow> parts_declared p"
proof -
  let ?mk = "\<lambda>f. \<lparr>Column = Some (table (sf_column f)), Codec = Some (codec_of std (sf_codec f)),
      DisableOrdering = False, GetValue = Some (getter (sf_column f))\<rparr>"
  let ?fs = "map (\<lambda>f. (sf_key f, ?mk f)) (sd_fields d)"
  have d: "sd_fields d = map schema_field_of (pageable_columns p)" "sd_defaults d = PlanDefaultOrder p"
    "sd_ties d = TieBreaker p"
    using assms by (simp_all add: emitSchema_Ok)
  have vals: "fd \<in> snd ` set ?fs \<Longrightarrow> \<not> DisableOrdering fd" for fd by auto
  have "map_of ?fs n = Some fd \<Longrightarrow> \<not> DisableOrdering fd" for n fd
    using vals map_of_SomeD by fastforce
  then have lookup: "(\<exists>fd. map_of ?fs n = Some fd \<and> \<not> DisableOrdering fd) \<longleftrightarrow> n \<in> DBName ` set (pageable_columns p)" for n
    using map_of_eq_None_iff [of ?fs n] by (auto simp: d(1) schema_field_of_def image_iff) 
  have order: "validate_order what ?fs (order_fields_of parts) = Ok ()
      \<longleftrightarrow> FieldPath ` set parts \<subseteq> DBName ` set (pageable_columns p)" for what parts
    by (auto simp: validate_order_Ok lookup order_fields_of_def)
  have sizes: "\<not> (1000 :: int32) <s 1" "\<not> (50 :: int32) <s 1" by (simp_all add: word_sless_alt)
  have flds: "validate_fields ?fs = Ok ()" by (auto simp: validate_fields_Ok)
  have "(\<exists>s. run_schema std table getter d = Ok s) \<longleftrightarrow>
      validate_order ''default order'' ?fs (order_fields_of (PlanDefaultOrder p)) = Ok ()
      \<and> validate_order ''tie-breaker'' ?fs (order_fields_of (TieBreaker p)) = Ok ()"
    unfolding run_schema_def NewSchema_def fold_options d(2,3)
    using flds sizes by (auto simp: Let_def validate_def go_simps split: outcome.splits)
  then show ?thesis by (auto simp: order parts_declared_def)
qed

lemma synthesised_not_pageable:
  assumes res: "resolveResource mp m = Ok (Some p)"
  shows "parts_declared p \<longleftrightarrow>
    FieldPath ` set (PlanDefaultOrder p @ TieBreaker p) \<inter> DBName ` {c \<in> set (Columns p). Synthesized c} = {}"
proof -
  have ok: "FieldPath ` set (PlanDefaultOrder p @ TieBreaker p) \<subseteq> set (pageable_names p)"
    and dist: "distinct (map DBName (Columns p))"
    using resolved_plan_ok [OF res] by (simp_all add: plan_ok_def column_names_def)
  have "DBName c \<noteq> DBName e" if "c \<in> set (Columns p)" "e \<in> set (Columns p)" "Synthesized c" "\<not> Synthesized e" for c e
    using dist that by (auto simp: distinct_map inj_on_def)
  moreover have "set (pageable_names p) =
      DBName ` set (pageable_columns p) \<union> DBName ` {c \<in> set (Columns p). Synthesized c}"
    by (auto simp: pageable_names_def pageable_columns_def)
  moreover have "DBName ` set (pageable_columns p) \<inter> DBName ` {c \<in> set (Columns p). Synthesized c} = {}"
    using calculation(1) by (fastforce simp: pageable_columns_def)
  moreover have "A \<subseteq> P \<longleftrightarrow> A \<inter> S = {}" if "A \<subseteq> P \<union> S" "P \<inter> S = {}" for A P S :: "string set"
    using that by blast
  ultimately show ?thesis using ok unfolding parts_declared_def by simp
qed

lemma NewSchema_Ok_or_Panic: "NewSchema rt fs opts = Panic \<or> (\<exists>s. NewSchema rt fs opts = Ok s)"
  by (auto simp: NewSchema_def Let_def split: outcome.splits)

text \<open>The emitted codec is lawful and supports the values of the model field.\<close>

lemma orderable_shape:
  assumes "column_wf c" "validateOrderable c = Ok ()"
  shows "(Kind c, SQLType c, JetGoType c) \<in>
    {(KindTimestamp, ''TIMESTAMPTZ'', ''time.Time''), (KindDuration, ''BIGINT'', ''int64''),
     (KindEnumAsText, ''TEXT'', ''string''), (KindScalar, ''TEXT'', ''string''),
     (KindScalar, ''INTEGER'', ''int32''), (KindScalar, ''BIGINT'', ''int64''),
     (KindScalar, ''REAL'', ''float32''), (KindScalar, ''DOUBLE PRECISION'', ''float64'')}"
proof -
  have n: "\<not> Nullable c" using assms(2) by (auto simp: validateOrderable_def)
  with assms(1) have ty: "SQLType c \<in> set (kind_sql (Kind c))" "go_type (SQLType c) = Some (JetGoType c)"
    by (auto simp: column_wf_def)
  show ?thesis
  proof (cases "Kind c")
    case KindScalar
    have jet: "JetGoType c \<noteq> ''bool''" "JetGoType c \<noteq> ''[]byte''"
      using assms(2) n KindScalar by (auto simp: validateOrderable_def split: if_splits)
    from ty(1) have "SQLType c \<in> {''TEXT'', ''BOOLEAN'', ''INTEGER'', ''BIGINT'', ''BYTEA'', ''REAL'', ''DOUBLE PRECISION''}"
      by (simp add: KindScalar)
    then show ?thesis
      by (elim insertE emptyE) (use ty(2) jet in \<open>simp_all add: KindScalar\<close>)
  qed (use assms(2) n ty in \<open>simp_all add: validateOrderable_def\<close>)
qed

lemma orderable_codec_lawful:
  assumes wf: "column_wf c" and ok: "validateOrderable c = Ok ()" and v: "has_go_type (JetGoType c) v"
    and nan: "\<And>x. v = VFloat64 x \<Longrightarrow> \<not> is_nan x" "\<And>x. v = VFloat32 x \<Longrightarrow> \<not> is_nan (widen32 std x)"
    and fl: "\<And>x. \<not> is_nan x \<Longrightarrow> ParseFloat std (FormatFloat std x) = Some x"
    and ts: "\<And>t. ParseRFC3339Nano std (FormatRFC3339Nano std t) = Some t"
  shows "\<exists>supp canon. lawful_codec (codec_of std (codecNameForColumn c)) supp canon \<and> supp v
    \<and> fits (canon v) (jet_interface (SQLType c))"
proof -
  let ?P = "\<lambda>k. \<exists>supp canon. lawful_codec k supp canon \<and> supp v \<and> fits (canon v) (jet_interface (SQLType c))"
  have str: "?P StringCodec" if "SQLType c = ''TEXT''" "JetGoType c = ''string''"
    using that v string_codec.lawful_codec_axioms
    by (intro exI [of _ supp_string] exI [of _ "\<lambda>v. v"])
       (auto simp: has_go_type_def supp_string_def jet_interface_def split: gval.splits)
  have int: "?P Int64Codec"
    if "SQLType c = ''BIGINT'' \<and> JetGoType c = ''int64'' \<or> SQLType c = ''INTEGER'' \<and> JetGoType c = ''int32''"
    using that v int64_codec.lawful_codec_axioms
    by (intro exI [of _ supp_int] exI [of _ canon_int])
       (auto simp: has_go_type_def supp_int_def canon_int_def jet_interface_def split: gval.splits)
  have flt: "?P (Float64Codec std)"
    if "SQLType c = ''REAL'' \<and> JetGoType c = ''float32'' \<or> SQLType c = ''DOUBLE PRECISION'' \<and> JetGoType c = ''float64''"
    using that v nan float_codec_lawful [OF fl]
    by (intro exI [of _ "supp_float std"] exI [of _ "canon_float std"])
       (auto simp: has_go_type_def supp_float_def canon_float_def jet_interface_def split: gval.splits)
  have tim: "?P (TimestampCodec std)" if "SQLType c = ''TIMESTAMPTZ''" "JetGoType c = ''time.Time''"
    using that v timestamp_codec_lawful [OF ts]
    by (intro exI [of _ supp_time] exI [of _ "\<lambda>v. v"])
       (auto simp: has_go_type_def supp_time_def jet_interface_def split: gval.splits)
  have name: "codecNameForColumn c =
      (if SQLType c = ''TIMESTAMPTZ'' then ''TimestampCodec'' else if JetGoType c \<in> {''int32'', ''int64''} then ''Int64Codec''
       else if JetGoType c \<in> {''float32'', ''float64''} then ''Float64Codec'' else ''StringCodec'')"
    using orderable_shape [OF wf ok] by (auto simp: codecNameForColumn_def)
  show ?thesis
    unfolding codec_of_def name using orderable_shape [OF wf ok] str int flt tim by auto
qed

section \<open>Properties\<close>

text \<open>
  C18: For a resource the resolver accepts and whose schema is emitted, the generated package
  initialises, \<open>NewSchema\<close> returns a schema, exactly when neither the default order nor the
  tie-breaker names a tenancy column; otherwise it panics. \<open>validatePlan\<close> admits such tie-breakers,
  as it counts the synthesized columns among the orderable ones.
\<close>

theorem generated_schema_initialises:
  assumes "resolveResource modulePath m = Ok (Some p)" "emitSchema p = Ok d"
  shows "if FieldPath ` set (PlanDefaultOrder p @ TieBreaker p) \<inter> DBName ` {c \<in> set (Columns p). Synthesized c} = {}
    then \<exists>s. run_schema std table getter d = Ok s \<and> valid_schema s
    else run_schema std table getter d = Panic"
proof -
  have "(\<exists>s. run_schema std table getter d = Ok s) \<longleftrightarrow>
      FieldPath ` set (PlanDefaultOrder p @ TieBreaker p) \<inter> DBName ` {c \<in> set (Columns p). Synthesized c} = {}"
    using run_schema_iff [OF assms(2)] synthesised_not_pageable [OF assms(1)] by simp
  moreover have "run_schema std table getter d = Ok s \<Longrightarrow> valid_schema s" for s
    unfolding run_schema_def by (rule NewSchema_Ok_valid)
  moreover have "run_schema std table getter d = Panic \<or> (\<exists>s. run_schema std table getter d = Ok s)"
    unfolding run_schema_def by (rule NewSchema_Ok_or_Panic)
  ultimately show ?thesis by auto
qed

definition sample_decl :: schema_decl where
  "sample_decl = \<lparr>sd_resource = ''lib.v1.Run'',
     sd_fields = [\<lparr>sf_key = ''id'', sf_column = ''ID'', sf_codec = ''StringCodec''\<rparr>],
     sd_defaults = [\<lparr>FieldPath = ''id'', OrderDesc = True\<rparr>],
     sd_ties = [\<lparr>FieldPath = ''id'', OrderDesc = False\<rparr>]\<rparr>"

theorem generated_schema_initialises_witness:
  "\<exists>s. run_schema plain_std int_col (\<lambda>_ v. VString v) sample_decl = Ok s \<and> valid_schema s"
proof -
  have e: "emitSchema sample_resource = Ok sample_decl" by code_simp
  have "FieldPath ` set (PlanDefaultOrder sample_resource @ TieBreaker sample_resource)
      \<inter> DBName ` {c \<in> set (Columns sample_resource). Synthesized c} = {}"
  proof -
    have "map FieldPath (PlanDefaultOrder sample_resource @ TieBreaker sample_resource) = [''id'', ''id'']"
      "map DBName (filter Synthesized (Columns sample_resource)) = [''tenant_id'']"
      by code_simp+
    then have "FieldPath ` set (PlanDefaultOrder sample_resource @ TieBreaker sample_resource) = {''id''}"
      "DBName ` set (filter Synthesized (Columns sample_resource)) = {''tenant_id''}"
      by (metis list.set_map list.simps(15) empty_set insert_absorb2) 
         (metis \<open>map DBName (filter Synthesized (Columns sample_resource)) = [''tenant_id'']\<close> list.set_map list.simps(15) empty_set)
    then show ?thesis by simp
  qed
  with generated_schema_initialises [OF sample_resource_resolved e, of plain_std int_col "\<lambda>_ v. VString v"]
  show ?thesis by simp
qed

text \<open>
  A tie-breaker over the tenancy column passes the generator, which emits a schema without that
  field; the generated package panics when it is initialised.
\<close>

theorem tenancy_tie_breaker_panics:
  "\<exists>p d. resolveResource ''example.com/lib''
      (sample_message\<lparr>msg_table := map_option (\<lambda>t. t\<lparr>tb_tie_breaker := ''tenant_id''\<rparr>) (msg_table sample_message)\<rparr>)
        = Ok (Some p)
     \<and> emitSchema p = Ok d \<and> run_schema plain_std int_col (\<lambda>_ v. VString v) d = Panic"
proof -
  let ?m = "sample_message\<lparr>msg_table := map_option (\<lambda>t. t\<lparr>tb_tie_breaker := ''tenant_id''\<rparr>) (msg_table sample_message)\<rparr>"
  let ?p = "sample_resource\<lparr>TieBreaker := [\<lparr>FieldPath = ''tenant_id'', OrderDesc = False\<rparr>]\<rparr>"
  let ?d = "sample_decl\<lparr>sd_ties := [\<lparr>FieldPath = ''tenant_id'', OrderDesc = False\<rparr>]\<rparr>"
  have "resolveResource ''example.com/lib'' ?m = Ok (Some ?p)" by code_simp
  moreover have e: "emitSchema ?p = Ok ?d" by code_simp
  moreover have "\<not> parts_declared ?p" by code_simp
  then have "run_schema plain_std int_col (\<lambda>_ v. VString v) ?d = Panic"
    using run_schema_iff [OF e, of plain_std int_col "\<lambda>_ v. VString v"]
      NewSchema_Ok_or_Panic unfolding run_schema_def by blast
  ultimately show ?thesis by blast
qed


text \<open>Formatting that round-trips: a number as that many bytes, after its sign.\<close>

definition plain_float :: go_std where
  "plain_float = \<lparr>widen32 = ucast, FormatFloat = (\<lambda>f. replicate (unat f) CHR ''1''),
     ParseFloat = (\<lambda>s. Some (of_nat (length s))),
     FormatRFC3339Nano = (\<lambda>t. (if t < 0 then ''-'' else ''+'') @ replicate (nat (abs t)) CHR ''1''),
     ParseRFC3339Nano = (\<lambda>s. Some ((if hd s = CHR ''-'' then - 1 else 1) * int (length (tl s))))\<rparr>"

lemma plain_float_round:
  "ParseFloat plain_float (FormatFloat plain_float x) = Some x"
  "ParseRFC3339Nano plain_float (FormatRFC3339Nano plain_float t) = Some t"
  by (simp_all add: plain_float_def)


end
