(* ===== verification/Emit_SQL.thy ===== *)
theory Emit_SQL
  imports Resource_Resolve Topo_Sort
begin

text \<open>
  \<^verbatim>\<open>cmd/protoc-gen-go-jet/emit_sql.go\<close>: the text of a resource's
  \<^verbatim>\<open>ddl.sql\<close>. Each \<^verbatim>\<open>render\<close> function returns what the Go function of its name
  appends to the builder; writing the file (\<^verbatim>\<open>emitSchemaSQL\<close>) is left out.
\<close>

section \<open>Pieces of text\<close>

abbreviation nl :: string where
  "nl \<equiv> [CHR 0x0A]"

definition line :: "string \<Rightarrow> string" where
  "line s = s @ nl"

definition comma_list :: "string list \<Rightarrow> string" where
  "comma_list = join '', ''"

text \<open>The em dash of the comments, in UTF-8.\<close>

definition em_dash :: string where
  "em_dash = [CHR 0xE2, CHR 0x80, CHR 0x94]"

text \<open>\<^verbatim>\<open>%-*s\<close>: padded on the right to a width in runes.\<close>

definition pad_right :: "nat \<Rightarrow> string \<Rightarrow> string" where
  "pad_right w s = s @ replicate (w - length (runes s)) CHR 0x20"

section \<open>The table\<close>

text \<open>
  \<^verbatim>\<open>sort.SliceStable\<close> with byte-wise \<^verbatim>\<open><\<close> on the names: Isabelle's \<open>sort_key\<close>
  is stable, and strings compare lexicographically by byte.
\<close>

definition orderedColumns :: "resource_plan \<Rightarrow> column_plan list" where
  "orderedColumns p =
     sort_key DBName (filter Synthesized (Columns p)) @ filter (\<lambda>c. \<not> Synthesized c) (Columns p)"

definition oneofKindCheck :: "oneof_column_plan \<Rightarrow> string" where
  "oneofKindCheck oc =
     KindColumn oc @ '' IN ('' @
       comma_list ((if Optional oc then [quoted []] else []) @ map quoted (Variants oc)) @ '')''"

definition column_width :: "resource_plan \<Rightarrow> nat" where
  "column_width p =
     fold max (map (length \<circ> DBName) (orderedColumns p)
       @ concat (map (\<lambda>oc. [length (KindColumn oc), length (JSONColumn oc)]) (OneofColumns p))) 0"

definition column_def :: "nat \<Rightarrow> column_plan \<Rightarrow> string" where
  "column_def width c =
     ''    '' @ pad_right width (DBName c) @ ''  '' @ SQLType c @
     (if GeneratedExpr c \<noteq> []
      then '' GENERATED ALWAYS AS ('' @ GeneratedExpr c @ '') STORED'' @
           (if NotNull c then '' NOT NULL'' else [])
      else (if NotNull c then '' NOT NULL'' else []) @
           (if DefaultExpr c \<noteq> [] then '' DEFAULT '' @ DefaultExpr c else []))"

definition oneof_defs :: "nat \<Rightarrow> oneof_column_plan \<Rightarrow> string list" where
  "oneof_defs width oc =
     [''    '' @ pad_right width (KindColumn oc) @ ''  TEXT NOT NULL'' @
        (if Optional oc then '' DEFAULT '' @ quoted [] else []),
      ''    '' @ pad_right width (JSONColumn oc) @ ''  JSONB NOT NULL DEFAULT '' @ quoted ''{}'' @ ''::jsonb'']"

definition check_def :: "resource_plan \<Rightarrow> column_plan \<Rightarrow> string" where
  "check_def p c =
     ''    CONSTRAINT '' @ TableName p @ ''_'' @ DBName c @ ''_check CHECK ('' @ CheckExpr c @ '')''"

definition oneof_check_def :: "resource_plan \<Rightarrow> oneof_column_plan \<Rightarrow> string" where
  "oneof_check_def p oc =
     ''    CONSTRAINT '' @ TableName p @ ''_'' @ BaseName oc @ ''_kind_valid CHECK ('' @ oneofKindCheck oc @ '')''"

definition fk_def :: "column_plan \<Rightarrow> foreign_key_plan \<Rightarrow> string" where
  "fk_def c fk =
     (let localCols = (if TenantComposite fk then LocalTenantColumn fk @ '', '' @ DBName c else DBName c);
          targetCols = (if TenantComposite fk then TargetTenantColumn fk @ '', '' @ TargetColumn fk
                        else TargetColumn fk) in
      ''    CONSTRAINT '' @ ConstraintName fk @ '' FOREIGN KEY ('' @ localCols @ '') REFERENCES '' @
      TargetTable fk @ '' ('' @ targetCols @ '') ON DELETE '' @ OnDelete fk @ '' ON UPDATE '' @ OnUpdate fk)"

definition table_items :: "resource_plan \<Rightarrow> string list" where
  "table_items p =
     (let cols = orderedColumns p; width = column_width p in
      map (column_def width) cols @ concat (map (oneof_defs width) (OneofColumns p))
      @ (if PrimaryKey p \<noteq> [] then [''    PRIMARY KEY ('' @ comma_list (PrimaryKey p) @ '')''] else [])
      @ map (check_def p) (filter (\<lambda>c. CheckExpr c \<noteq> []) cols)
      @ map (oneof_check_def p) (OneofColumns p)
      @ concat (map (\<lambda>c. case ForeignKey c of None \<Rightarrow> [] | Some fk \<Rightarrow> [fk_def c fk]) cols))"

definition renderCreateTable :: "resource_plan \<Rightarrow> string" where
  "renderCreateTable p =
     line (''CREATE TABLE '' @ TableName p @ '' ('') @ join ('','' @ nl) (table_items p) @
     (case Partition p of
        Some pp \<Rightarrow> nl @ line ('') PARTITION BY '' @ Method pp @ '' ('' @ comma_list (PartColumns pp) @ '');'')
      | None \<Rightarrow> nl @ line '');'')"

section \<open>Indexes and directives\<close>

text \<open>A section is empty without items, and otherwise starts with a blank line.\<close>

definition sql_section :: "string list \<Rightarrow> string" where
  "sql_section ls = (if ls = [] then [] else nl @ concat (map line ls))"

definition renderRenameDirectives :: "resource_plan \<Rightarrow> string" where
  "renderRenameDirectives p =
     (let cs = filter (\<lambda>c. RenameFrom c \<noteq> []) (Columns p) in
      if cs = [] then []
      else nl @ line (''-- PLUGIN-RENAME directives '' @ em_dash @ '' declared via `(storage.v1.column).rename_from`.'')
        @ line ''-- Author the next migration as `ALTER TABLE <t> RENAME COLUMN <old> TO <new>`''
        @ line ''-- for each line below, then drop the annotation on the next release once''
        @ line ''-- every environment has applied the rename.''
        @ concat (map (\<lambda>c. line (''-- PLUGIN-RENAME: '' @ TableName p @ '' '' @ RenameFrom c @ '' -> '' @ DBName c)) cs))"

definition renderSupplementalUniques :: "resource_plan \<Rightarrow> string" where
  "renderSupplementalUniques p =
     (if SupplementalUniques p = [] then []
      else nl @ line ''-- Supplemental UNIQUE constraints backing tenant-composite foreign keys.''
        @ line ''-- Auto-emitted because the primary key does not already cover these columns.''
        @ concat (map (\<lambda>uq. line (''CREATE UNIQUE INDEX '' @ UqName uq @ '' ON '' @ TableName p @ '' ('' @
            comma_list (UqColumns uq) @ '');'')) (SupplementalUniques p)))"

text \<open>\<^verbatim>\<open>idx.Order[i]\<close> is read for every column: past its end the Go code panics.\<close>

definition index_line :: "resource_plan \<Rightarrow> index_plan \<Rightarrow> string option" where
  "index_line p idx =
     (if length (IdxOrder idx) < length (IdxColumns idx) then None
      else Some (''CREATE '' @ (if IdxUnique idx then ''UNIQUE '' else []) @ ''INDEX '' @ IdxName idx @ '' ON '' @
        TableName p @ '' ('' @
        comma_list (map (\<lambda>(c, d). if d = ''DESC'' then c @ '' DESC'' else c) (zip (IdxColumns idx) (IdxOrder idx)))
        @ '')'' @ (if IdxWhere idx \<noteq> [] then '' WHERE '' @ IdxWhere idx else []) @ '';''))"

definition renderIndexes :: "resource_plan \<Rightarrow> string option" where
  "renderIndexes p = map_option sql_section (those (map (index_line p) (Indexes p)))"

definition unique_index_line :: "resource_plan \<Rightarrow> column_plan \<Rightarrow> string" where
  "unique_index_line p c =
     ''CREATE UNIQUE INDEX '' @ uniqueIndexName (TableName p) (DBName c) @ '' ON '' @ TableName p @ '' ('' @
     comma_list (uniqueIndexColumns p c) @ '');''"

definition renderUniqueColumnIndexes :: "resource_plan \<Rightarrow> string" where
  "renderUniqueColumnIndexes p = sql_section (map (unique_index_line p) (filter Unique (Columns p)))"

definition renderJSONBGinIndexes :: "resource_plan \<Rightarrow> string" where
  "renderJSONBGinIndexes p =
     sql_section (map (\<lambda>c. ''CREATE INDEX '' @ ginIndexName (TableName p) (DBName c) @ '' ON '' @ TableName p @
         '' USING GIN ('' @ DBName c @ '' jsonb_path_ops);'') (filter JSONBGinIndex (Columns p)))"

definition path_index_line :: "resource_plan \<Rightarrow> string \<Rightarrow> string \<Rightarrow> string" where
  "path_index_line p col path =
     ''CREATE INDEX '' @ jsonbPathIndexName (TableName p) col path @ '' ON '' @ TableName p @ '' (('' @
     jsonbPathExpr col path @ ''));''"

definition renderJSONBPathIndexes :: "resource_plan \<Rightarrow> string" where
  "renderJSONBPathIndexes p =
     sql_section (concat (map (\<lambda>c. map (path_index_line p (DBName c)) (JSONBIndexedPaths c)) (Columns p))
       @ concat (map (\<lambda>oc. map (path_index_line p (JSONColumn oc)) (OneofIndexedPaths oc)) (OneofColumns p)))"

definition renderForeignKeyIndexes :: "resource_plan \<Rightarrow> string" where
  "renderForeignKeyIndexes p =
     sql_section (concat (map (\<lambda>c. case ForeignKey c of
         Some fk \<Rightarrow> if BackingIndex fk
           then [''CREATE INDEX '' @ IndexName fk @ '' ON '' @ TableName p @ '' ('' @ DBName c @ '');''] else []
       | None \<Rightarrow> []) (Columns p)))"

section \<open>Row-level security, comments, custom statements\<close>

definition tenantPredicate :: "tenancy_plan \<Rightarrow> string" where
  "tenantPredicate t =
     (let tenantEq = TenantColumn t @ '' = current_setting('' @ quoted ''app.tenant_id'' @ '', true)'' in
      if \<not> UserScoped t then ''('' @ tenantEq @ '')''
      else ''('' @ tenantEq @ nl @ ''                AND '' @
        UserColumn t @ '' = current_setting('' @ quoted ''app.user_id'' @ '', true)'' @ '')'')"

definition renderRLS :: "resource_plan \<Rightarrow> string" where
  "renderRLS p =
     (case Tenancy p of
        None \<Rightarrow> []
      | Some t \<Rightarrow>
          nl @ line (''ALTER TABLE '' @ TableName p @ '' ENABLE ROW LEVEL SECURITY;'')
          @ line (''CREATE POLICY '' @ (if UserScoped t then ''tenant_user_isolation'' else ''tenant_isolation'') @
              '' ON '' @ TableName p)
          @ line (''    TO '' @ pgIdent (RuntimeRole t))
          @ line (''    USING      '' @ tenantPredicate t)
          @ line (''    WITH CHECK '' @ tenantPredicate t @ '';''))"

definition anyOneofComment :: "resource_plan \<Rightarrow> bool" where
  "anyOneofComment p \<longleftrightarrow> (\<exists>oc \<in> set (OneofColumns p). OneofComment oc \<noteq> [])"

definition anyColumnComment :: "resource_plan \<Rightarrow> bool" where
  "anyColumnComment p \<longleftrightarrow> (\<exists>c \<in> set (Columns p). Comment c \<noteq> [])"

definition column_comment :: "resource_plan \<Rightarrow> string \<Rightarrow> string \<Rightarrow> string" where
  "column_comment p col text =
     line (''COMMENT ON COLUMN '' @ TableName p @ ''.'' @ col @ '' IS '' @ sqlDollarQuote text @ '';'')"

definition renderComments :: "resource_plan \<Rightarrow> string" where
  "renderComments p =
     (if TableComment p = [] \<and> \<not> anyColumnComment p \<and> \<not> anyOneofComment p then []
      else nl
        @ (if TableComment p \<noteq> []
           then line (''COMMENT ON TABLE '' @ TableName p @ '' IS '' @ sqlDollarQuote (TableComment p) @ '';'')
           else [])
        @ concat (map (\<lambda>c. if Comment c = [] then [] else column_comment p (DBName c) (Comment c)) (orderedColumns p))
        @ concat (map (\<lambda>oc. if OneofComment oc = [] then []
            else column_comment p (KindColumn oc) (OneofComment oc)
              @ column_comment p (JSONColumn oc) (OneofComment oc)) (OneofColumns p)))"

definition renderCustomSQL :: "resource_plan \<Rightarrow> string" where
  "renderCustomSQL p =
     (let cleaned = resolveCustomSQL (CustomSQL p) in
      if cleaned = [] then []
      else nl @ line (''-- custom_sql '' @ em_dash @ '' caller-supplied escape hatch; keep statements idempotent'')
        @ concat (map (\<lambda>stmt. line (stmt @ '';'')) cleaned))"

section \<open>The file\<close>

definition ddl_header :: "resource_plan \<Rightarrow> string" where
  "ddl_header p =
     line (''-- Code generated from '' @ ProtoFile p @ '' by protoc-gen-go-jet. DO NOT EDIT.'') @ line ''--''
     @ (if ResourceFQN p \<noteq> [] then line (''-- Resource: '' @ ResourceFQN p) @ line ''--'' else [])
     @ line ''-- Canonical SQL schema for this resource. Regenerated from proto on''
     @ line ''-- every `buf generate`. This file is a reference document; it is''
     @ line ''-- not applied to the database. Your migrations directory holds the''
     @ line (''-- deploy mechanism '' @ em_dash @ '' hand-authored forward-only SQL.'')
     @ line ''--''
     @ line ''-- Authoring a migration: `protoc-gen-go-jet diff` scaffolds an LLM brief''
     @ line ''-- with a structural DELTA and the concatenated TARGET. The patterns live''
     @ line ''-- in .claude/skills/protoc-gen-go-jet/SKILL.md. `protoc-gen-go-jet check`''
     @ line ''-- is the machine-verified guardrail at the end of the flow.'' @ nl"

definition renderSchemaSQL :: "resource_plan \<Rightarrow> string option" where
  "renderSchemaSQL p =
     map_option (\<lambda>indexes.
       ddl_header p @ renderCreateTable p @ renderRenameDirectives p @ renderSupplementalUniques p
       @ indexes @ renderUniqueColumnIndexes p @ renderJSONBPathIndexes p @ renderJSONBGinIndexes p
       @ renderForeignKeyIndexes p @ renderRLS p @ renderComments p @ renderCustomSQL p) (renderIndexes p)"

end
