(* ===== verification/DDL_Order.thy ===== *)
theory DDL_Order
  imports Emit_SQL
begin

text \<open>
  The rendered DDL as the regular expressions of \<^verbatim>\<open>apply_ddl.go\<close> read it: the table a file
  creates and the tables its foreign keys reference, and with them the order in which the files of
  several resources are applied.
\<close>

section \<open>What the scanners find\<close>

lemma m_lit_Some: "m_lit False w s = Some r \<Longrightarrow> s = w @ r"
proof -
  assume m: "m_lit False w s = Some r"
  have "map (fold_char False) t = t" for t by (induction t) (simp_all add: fold_char_def)
  with m have "take (length w) s = w \<and> drop (length w) s = r" by (simp add: m_lit_def split: if_splits)
  then show "s = w @ r" by (metis append_take_drop_id)
qed

lemma m_space1_Some: "m_space1 s = Some r \<Longrightarrow> \<exists>w. s = w @ r \<and> (\<forall>c \<in> set w. re_space c)"
  by (auto simp: m_space1_def split: if_splits)
    (metis set_takeWhileD takeWhile_dropWhile_id)

lemma m_ident_Some: "m_ident False s = Some (t, r) \<Longrightarrow> s = t @ r \<and> (\<forall>c \<in> set t. ident_part c)"
  by (auto simp: m_ident_def fold_char_def split: if_splits dest: set_takeWhileD)

lemma m_table_Some:
  assumes "m_table False s = Some (t, r)"
  shows "\<exists>w. s = w @ r \<and> CHR ''R'' \<notin> set w"
proof -
  obtain r1 where r1: "m_ident False s = Some (t, r1)" "m_lit False ''('' (dropWhile re_space r1) = Some r"
    using assms by (auto simp: m_table_def bind_eq_Some_conv)
  let ?w = "t @ takeWhile re_space r1 @ ''(''"
  have "s = ?w @ r"
    using m_ident_Some [OF r1(1)] m_lit_Some [OF r1(2)] takeWhile_dropWhile_id [of re_space r1] by simp
  moreover have "CHR ''R'' \<notin> set ?w"
    using m_ident_Some [OF r1(1)] by (auto simp: ident_part_def ident_start_def re_space_def dest: set_takeWhileD)
  ultimately show ?thesis by blast
qed

lemma m_reference_Some:
  assumes "m_reference s = Some (t, r)"
  shows "\<exists>w. s = ''REFERENCES'' @ w @ r \<and> CHR ''R'' \<notin> set w"
proof -
  obtain r1 r2 where r: "m_lit False ''REFERENCES'' s = Some r1" "m_space1 r1 = Some r2" "m_table False r2 = Some (t, r)"
    using assms by (auto simp: m_reference_def bind_eq_Some_conv)
  obtain w1 where "r1 = w1 @ r2" "\<forall>c \<in> set w1. re_space c" using m_space1_Some [OF r(2)] by blast
  moreover from this have "CHR ''R'' \<notin> set w1" by (auto simp: re_space_def)
  moreover obtain w2 where "r2 = w2 @ r" "CHR ''R'' \<notin> set w2" using m_table_Some [OF r(3)] by blast
  moreover have "s = ''REFERENCES'' @ r1" using m_lit_Some [OF r(1)] .
  ultimately have "s = ''REFERENCES'' @ (w1 @ w2) @ r \<and> CHR ''R'' \<notin> set (w1 @ w2)" by simp
  then show ?thesis by blast
qed

text \<open>Two occurrences of the keyword do not overlap.\<close>

lemma references_apart:
  assumes eq: "''REFERENCES'' @ w @ r = u @ ''REFERENCES'' @ x" and w: "CHR ''R'' \<notin> set w" and u: "u \<noteq> []"
  shows "\<exists>u'. r = u' @ ''REFERENCES'' @ x"
proof (cases "length u < 10")
  case True
  then have n: "length u = 0 \<or> length u = 1 \<or> length u = 2 \<or> length u = 3 \<or> length u = 4
      \<or> length u = 5 \<or> length u = 6 \<or> length u = 7 \<or> length u = 8 \<or> length u = 9"
    by arith
  have at: "(''REFERENCES'' @ w @ r) ! (length u + k) = ''REFERENCES'' ! k" if "k < 10" for k
    using that by (simp only: eq nth_append) simp
  from n u at [of 0] at [of 5] have False by (elim disjE) (simp_all add: nth_append)
  then show ?thesis ..
next
  case False
  have "take 10 (''REFERENCES'' @ w @ r) = take 10 u" using False by (simp only: eq) simp
  then have u1: "u = ''REFERENCES'' @ drop 10 u"
    using append_take_drop_id [of 10 u] by simp
  let ?u1 = "drop 10 u"
  have "''REFERENCES'' @ w @ r = ''REFERENCES'' @ ?u1 @ ''REFERENCES'' @ x"
    using eq u1 by (metis append_assoc)
  then have "w @ r = ?u1 @ ''REFERENCES'' @ x" by simp
  then consider us where "?u1 = w @ us" "us @ ''REFERENCES'' @ x = r"
    | us where "w = ?u1 @ us" "us @ r = ''REFERENCES'' @ x"
    by (auto simp: append_eq_append_conv2)
  then show ?thesis
  proof cases
    case 1
    then show ?thesis by blast
  next
    case 2
    with w have "us = []" by (cases us) auto
    with 2 have "r = [] @ ''REFERENCES'' @ x" by simp
    then show ?thesis by blast
  qed
qed

lemma legal_ident_part: "legal_ident t \<Longrightarrow> \<forall>c \<in> set t. ident_part c"
  by (auto simp: legal_ident_def ident_byte_def lower_rune_def digit_rune_def ident_part_def ident_start_def)

lemma legal_ident_start: "legal_ident t \<Longrightarrow> t \<noteq> [] \<and> ident_start (hd t)"
  by (auto simp: legal_ident_def lower_rune_def ident_start_def)

lemma m_ident_legal:
  assumes "legal_ident t" "\<not> ident_part c"
  shows "m_ident False (t @ c # x) = Some (t, c # x)"
proof -
  have "takeWhile ident_part (t @ c # x) = t \<and> dropWhile ident_part (t @ c # x) = c # x"
    using legal_ident_part [OF assms(1)] assms(2)
    by (induction t) auto
  with legal_ident_start [OF assms(1)] show ?thesis by (simp add: m_ident_def fold_char_def)
qed

lemma m_reference_legal:
  assumes "legal_ident t"
  shows "m_reference (''REFERENCES '' @ t @ '' ('' @ x) = Some (t, x)"
proof -
  have "\<not> re_space (hd (t @ '' ('' @ x))" "t \<noteq> []"
    using legal_ident_start [OF assms] by (auto simp: ident_start_def re_space_def)
  then have "dropWhile re_space (t @ '' ('' @ x) = t @ '' ('' @ x"
    by (simp add: dropWhile_id)
  moreover have "m_ident False (t @ '' ('' @ x) = Some (t, '' ('' @ x)"
    using m_ident_legal [OF assms, of "CHR '' ''" "''('' @ x"]
    by (simp add: ident_part_def ident_start_def)
  ultimately show ?thesis
    by (simp add: m_reference_def m_lit_def m_space1_def m_table_def fold_char_def re_space_def)
qed

lemma find_all_reference:
  assumes "legal_ident t" "s = u @ ''REFERENCES '' @ t @ '' ('' @ x"
  shows "t \<in> set (find_all m_reference False b s)"
  using assms(2)
proof (induction "length s" arbitrary: s u b rule: less_induct)
  case less
  then have "s \<noteq> []" by simp
  then obtain c s' where s: "s = c # s'" by (cases s) auto
  note found = m_reference_legal [OF assms(1), of x]
  show ?case
  proof (cases "m_reference s")
    case None
    with found less(2) have "u \<noteq> []" by auto
    with less(2) s have "s' = tl u @ ''REFERENCES '' @ t @ '' ('' @ x" by (cases u) auto
    with less(1) [of s' "tl u"] s None show ?thesis by simp
  next
    case (Some a)
    then obtain name rest where m: "m_reference s = Some (name, rest)" by (cases a) auto
    from m_reference_Some [OF m] obtain w where
      w: "s = ''REFERENCES'' @ w @ rest" "CHR ''R'' \<notin> set w" by blast
    then have len: "length rest < length s" by simp
    show ?thesis
    proof (cases "u = []")
      case True
      then show ?thesis using less(2) found m len s by simp
    next
      case False
      obtain u' where "rest = u' @ ''REFERENCES'' @ '' '' @ t @ '' ('' @ x"
        using references_apart [of w rest u "'' '' @ t @ '' ('' @ x"] w False less(2) by auto
      then have "t \<in> set (find_all m_reference False False rest)"
        using less(1) [OF len, of u'] by simp
      then show ?thesis using m len s by simp
    qed
  qed
qed

text \<open>The first statement of a rendered file creates its table.\<close>

lemma find_all_skip_line:
  "CHR 0x0A \<notin> set w \<Longrightarrow> find_all m True False (w @ CHR 0x0A # s) = find_all m True True s"
  by (induction w) auto

lemma lower_bytes:
  "lower_byte CHR ''C'' = CHR ''c''" "lower_byte CHR ''F'' = CHR ''f''" "lower_byte CHR ''N'' = CHR ''n''"
  "lower_byte CHR ''-'' = CHR ''-''" "lower_byte CHR '' '' = CHR '' ''" "lower_byte CHR ''('' = CHR ''(''"
  by code_simp+

lemma m_create_comment: "m_create (CHR ''-'' # s) = None"
  by (simp add: m_create_def m_lit_def fold_char_def re_space_def lower_bytes)

lemma find_all_comment:
  assumes "prefix ''-'' l" "CHR 0x0A \<notin> set l"
  shows "find_all m_create True True (line l @ s) = find_all m_create True True s"
proof -
  obtain w where "l = CHR ''-'' # w" using assms(1) by (auto simp: prefix_def)
  with assms(2) show ?thesis by (simp add: line_def m_create_comment find_all_skip_line)
qed

lemma m_ident_legal_fold:
  assumes "legal_ident t"
  shows "m_ident True (t @ '' ('' @ x) = Some (t, '' ('' @ x)"
proof -
  have b: "\<forall>c \<in> set t. ident_part (lower_byte c)"
    using assms legal_ident_part [OF assms] by (simp add: legal_ident_def)
  have "\<not> ident_part (lower_byte CHR '' '')"
    by (simp add: ident_part_def ident_start_def lower_byte_def)
  with b have "takeWhile (\<lambda>c. ident_part (lower_byte c)) (t @ '' ('' @ x) = t
      \<and> dropWhile (\<lambda>c. ident_part (lower_byte c)) (t @ '' ('' @ x) = '' ('' @ x"
    by (induction t) auto
  moreover have "ident_start (lower_byte (hd t)) \<and> t \<noteq> []"
    using legal_ident_start [OF assms] assms by (simp add: legal_ident_def)
  ultimately show ?thesis by (simp add: m_ident_def fold_char_def)
qed

lemma m_if_not_exists_legal:
  assumes "legal_ident t"
  shows "m_if_not_exists (t @ '' ('' @ x) = None"
proof (cases t rule: remdups_adj.cases)
  case 1
  with assms show ?thesis by (simp add: legal_ident_def)
next
  case (2 a)
  then show ?thesis by (simp add: m_if_not_exists_def m_lit_def fold_char_def lower_bytes)
next
  case (3 a b t')
  have "m_space1 (t' @ '' ('' @ x) = (if t' = [] then Some (''('' @ x) else None)"
    using legal_ident_part [OF assms] 3
    by (cases t') (auto simp: m_space1_def re_space_def ident_part_def ident_start_def)
  with 3 show ?thesis
    by (simp add: m_if_not_exists_def m_lit_def fold_char_def lower_bytes bind_eq_None_conv)
qed

lemma m_create_legal:
  assumes "legal_ident t"
  shows "m_create (CHR 0x0A # ''CREATE TABLE '' @ t @ '' ('' @ x) = Some (t, x)"
proof -
  have "\<not> re_space (hd (t @ '' ('' @ x))" "t \<noteq> []"
    using legal_ident_start [OF assms] by (auto simp: ident_start_def re_space_def)
  then have "dropWhile re_space (t @ '' ('' @ x) = t @ '' ('' @ x" by (simp add: dropWhile_id)
  then have "m_space1 ('' '' @ t @ '' ('' @ x) = Some (t @ '' ('' @ x)"
    by (simp add: m_space1_def re_space_def)
  moreover have "m_table True (t @ '' ('' @ x) = Some (t, x)"
    using m_ident_legal_fold [OF assms] by (simp add: m_table_def m_lit_def fold_char_def re_space_def)
  moreover have "m_space1 ('' TABLE '' @ t @ '' ('' @ x) = Some (''TABLE '' @ t @ '' ('' @ x)"
    by (simp add: m_space1_def re_space_def)
  ultimately show ?thesis
    using m_if_not_exists_legal [OF assms] by (simp add: m_create_def m_lit_def fold_char_def re_space_def)
qed

lemma in_join: "x \<in> set xs \<Longrightarrow> \<exists>u v. join sep xs = u @ x @ v"
proof (induction sep xs rule: join.induct)
  case (2 sep s)
  then have "join sep [s] = [] @ x @ []" by simp
  then show ?case by blast
next
  case (3 sep s t ts)
  show ?case
  proof (cases "x = s")
    case True
    then show ?thesis by (metis append_Nil join.simps(3))
  next
    case False
    with 3 obtain u v where "join sep (t # ts) = u @ x @ v" by auto
    then have "join sep (s # t # ts) = (s @ sep @ u) @ x @ v" by simp
    then show ?thesis by blast
  qed
qed simp

abbreviation one_line :: "string \<Rightarrow> bool" where
  "one_line s \<equiv> CHR 0x0A \<notin> set s"

lemma header_comment:
  assumes "one_line (ProtoFile p)" "one_line (ResourceFQN p)"
  shows "find_all m_create True True (ddl_header p @ s) = find_all m_create True True (CHR 0x0A # s)"
  using assms by (cases "ResourceFQN p = []") (simp_all add: ddl_header_def em_dash_def find_all_comment)

text \<open>The rendered file, from its first statement on.\<close>

lemma rendered_shape:
  assumes "renderSchemaSQL p = Some ddl"
  obtains rest where "ddl = ddl_header p @ renderCreateTable p @ rest"
  using assms by (auto simp: renderSchemaSQL_def)

lemma header_ends: "\<exists>h. ddl_header p = h @ nl"
  by (auto simp: ddl_header_def line_def)

lemma rendered_creates:
  assumes "renderSchemaSQL p = Some ddl" "legal_ident (TableName p)"
    and "one_line (ProtoFile p)" "one_line (ResourceFQN p)"
  shows "TableName p \<in> set (created_tables ddl)"
proof -
  obtain rest where ddl: "ddl = ddl_header p @ renderCreateTable p @ rest"
    using assms(1) by (rule rendered_shape)
  obtain x where x: "renderCreateTable p = ''CREATE TABLE '' @ TableName p @ '' ('' @ x"
    by (simp add: renderCreateTable_def line_def)
  have "created_tables ddl =
      find_all m_create True True (CHR 0x0A # ''CREATE TABLE '' @ TableName p @ '' ('' @ x @ rest)"
    using header_comment [OF assms(3,4), of "renderCreateTable p @ rest"] by (simp add: created_tables_def ddl x)
  then show ?thesis
    using m_create_legal [OF assms(2), of "x @ rest"] by simp
qed

lemma fk_def_names:
  "\<exists>a b. fk_def c fk = a @ ''REFERENCES '' @ TargetTable fk @ '' ('' @ b"
proof -
  let ?l = "if TenantComposite fk then LocalTenantColumn fk @ '', '' @ DBName c else DBName c"
  let ?a = "''    CONSTRAINT '' @ ConstraintName fk @ '' FOREIGN KEY ('' @ ?l @ '') ''"
  let ?b = "(if TenantComposite fk then TargetTenantColumn fk @ '', '' @ TargetColumn fk else TargetColumn fk)
      @ '') ON DELETE '' @ OnDelete fk @ '' ON UPDATE '' @ OnUpdate fk"
  have "fk_def c fk = ?a @ ''REFERENCES '' @ TargetTable fk @ '' ('' @ ?b"
    by (simp add: fk_def_def)
  then show ?thesis by blast
qed

lemma rendered_references:
  assumes "renderSchemaSQL p = Some ddl" "c \<in> set (Columns p)" "ForeignKey c = Some fk"
    and "legal_ident (TargetTable fk)"
  shows "TargetTable fk \<in> set (referenced_tables ddl)"
proof -
  obtain rest where ddl: "ddl = ddl_header p @ renderCreateTable p @ rest"
    using assms(1) by (rule rendered_shape)
  have "c \<in> set (orderedColumns p)" using assms(2) by (auto simp: orderedColumns_def)
  with assms(3) have "fk_def c fk \<in> set (table_items p)"
    unfolding table_items_def Let_def by force
  from in_join [OF this] obtain u v where "join ('','' @ nl) (table_items p) = u @ fk_def c fk @ v" by blast
  moreover obtain a b where "fk_def c fk = a @ ''REFERENCES '' @ TargetTable fk @ '' ('' @ b"
    using fk_def_names by blast
  moreover obtain h t where "renderCreateTable p = h @ join ('','' @ nl) (table_items p) @ t"
    by (simp add: renderCreateTable_def)
  ultimately have "ddl = (ddl_header p @ h @ u @ a) @ ''REFERENCES '' @ TargetTable fk @ '' ('' @ b @ v @ t @ rest"
    by (simp add: ddl)
  from find_all_reference [OF assms(4) this] show ?thesis by (simp add: referenced_tables_def)
qed

text \<open>A line without the letter F holds no reference.\<close>

lemma find_all_no_reference:
  assumes "CHR ''F'' \<notin> set l" "one_line l"
  shows "find_all m_reference False b (l @ CHR 0x0A # s) = find_all m_reference False True s"
  using assms
proof (induction l arbitrary: b)
  case Nil
  have "m_reference (CHR 0x0A # s) = None" by (simp add: m_reference_def m_lit_def fold_char_def)
  then show ?case by simp
next
  case (Cons c l)
  have "m_reference (c # l @ CHR 0x0A # s) = None"
  proof (rule ccontr)
    assume "m_reference (c # l @ CHR 0x0A # s) \<noteq> None"
    then obtain t r where "m_reference (c # l @ CHR 0x0A # s) = Some (t, r)" by auto
    from m_reference_Some [OF this] obtain w where "c # l @ CHR 0x0A # s = ''REFERENCES'' @ w @ r" by blast
    with Cons(2,3) show False by (cases l rule: remdups_adj.cases) auto
  qed
  with Cons show ?case by simp
qed

lemma find_all_line_no_reference:
  assumes "CHR ''F'' \<notin> set l" "one_line l"
  shows "find_all m_reference False b (line l @ s) = find_all m_reference False True s"
  using find_all_no_reference [OF assms] by (simp add: line_def)

lemma header_no_reference:
  assumes "one_line (ProtoFile p)" "one_line (ResourceFQN p)"
    and "CHR ''F'' \<notin> set (ProtoFile p)" "CHR ''F'' \<notin> set (ResourceFQN p)"
  shows "find_all m_reference False b (ddl_header p @ s) = find_all m_reference False True (CHR 0x0A # s)"
  using assms
  by (cases "ResourceFQN p = []") (simp_all add: ddl_header_def em_dash_def find_all_line_no_reference)

section \<open>The order of application\<close>

lemma claim_tables_at:
  "claim_tables m q t = (if t \<in> set (created_tables (Content (snd q))) then Some (fst q) else m t)"
proof -
  have "foldl (\<lambda>m t. m(t \<mapsto> i)) m ts x = (if x \<in> set ts then Some i else m x)"
    for i :: nat and m and ts :: "string list" and x
    by (induction ts arbitrary: m) auto
  then show ?thesis by (simp add: claim_tables_def)
qed

lemma claims_unique:
  assumes "\<forall>q \<in> set qs. t \<in> set (created_tables (Content (snd q))) \<longrightarrow> fst q = k"
  shows "foldl claim_tables m qs t =
    (if \<exists>q \<in> set qs. t \<in> set (created_tables (Content (snd q))) then Some k else m t)"
  using assms by (induction qs arbitrary: m) (auto simp: claim_tables_at)

lemma table_owner_unique:
  assumes "j < length files" "t \<in> set (created_tables (Content (files ! j)))"
    and "\<forall>k < length files. t \<in> set (created_tables (Content (files ! k))) \<longrightarrow> k = j"
  shows "table_owner files t = Some j"
proof -
  have "\<forall>q \<in> set (enumerate 0 files). t \<in> set (created_tables (Content (snd q))) \<longrightarrow> fst q = j"
    using assms(3) by (auto simp: in_set_enumerate_eq)
  note c = claims_unique [OF this, of Map.empty]
  have "(j, files ! j) \<in> set (enumerate 0 files)" using assms(1) by (simp add: in_set_enumerate_eq)
  with assms(2) have "\<exists>q \<in> set (enumerate 0 files). t \<in> set (created_tables (Content (snd q)))"
    by force
  with c show ?thesis by (simp add: table_owner_def)
qed

text \<open>File \<open>i\<close> is the rendered DDL of plan \<open>i\<close>.\<close>

definition rendered_files :: "resource_plan list \<Rightarrow> file_content list \<Rightarrow> bool" where
  "rendered_files ps files \<longleftrightarrow>
     list_all2 (\<lambda>p f. renderSchemaSQL p = Some (Content f) \<and> legal_ident (TableName p)
       \<and> one_line (ProtoFile p) \<and> one_line (ResourceFQN p)) ps files"

lemma topo_before:
  assumes "topoSortDDL files = Ok fs" "i < length files" "j \<in> set (owners_of files i)"
  shows "\<exists>a b. a < b \<and> b < length fs \<and> fs ! a = files ! j \<and> fs ! b = files ! i"
proof -
  obtain out where out: "fs = map ((!) files) out" "set out = {0..<length files}"
    "deps_first (owners_of files) out"
    using assms(1) by (rule topoSortDDL_Ok)
  from assms(2) out(2) obtain b where b: "b < length out" "out ! b = i"
    by (metis atLeastLessThan_iff in_set_conv_nth le0)
  with out(3) assms(3) have "j \<in> set (take b out)" by (auto simp: deps_first_def)
  then obtain a where "a < b" "out ! a = j" using b(1) by (auto simp: in_set_conv_nth)
  with b out(1) show ?thesis by (intro exI [of _ a] exI [of _ b]) auto
qed

lemma rendered_target_first:
  assumes "rendered_files ps files" "topoSortDDL files = Ok fs"
    and "i < length ps" "j < length ps" "i \<noteq> j"
    and "c \<in> set (Columns (ps ! i))" "ForeignKey c = Some fk" "TargetTable fk = TableName (ps ! j)"
    and "\<forall>k < length files. TableName (ps ! j) \<in> set (created_tables (Content (files ! k))) \<longrightarrow> k = j"
  shows "\<exists>a b. a < b \<and> b < length fs \<and> fs ! a = files ! j \<and> fs ! b = files ! i"
proof -
  have len: "length files = length ps" using assms(1) by (simp add: rendered_files_def list_all2_lengthD)
  have r: "renderSchemaSQL (ps ! k) = Some (Content (files ! k)) \<and> legal_ident (TableName (ps ! k))
      \<and> one_line (ProtoFile (ps ! k)) \<and> one_line (ResourceFQN (ps ! k))" if "k < length ps" for k
    using assms(1) that unfolding rendered_files_def by (rule list_all2_nthD)
  have "TableName (ps ! j) \<in> set (created_tables (Content (files ! j)))"
    using r [OF assms(4)] rendered_creates by blast
  with assms(4,9) have "table_owner files (TableName (ps ! j)) = Some j"
    by (intro table_owner_unique) (simp_all add: len)
  moreover have "TableName (ps ! j) \<in> set (referenced_tables (Content (files ! i)))"
    using rendered_references [of "ps ! i" _ c fk] r [OF assms(3)] r [OF assms(4)] assms(6-8) by simp
  ultimately have "j \<in> set (owners_of files i)" using assms(5) by (auto simp: owners_of_iff)
  with assms(2,3) show ?thesis by (intro topo_before) (simp_all add: len)
qed

section \<open>Properties\<close>

text \<open>
  C8: The emitter and the applier agree: when the rendered \<^verbatim>\<open>ddl.sql\<close> files of several resources
  are sorted, the file of the table a foreign key references comes before the file of the table
  that declares the key, provided no other file creates that table.
\<close>

theorem fk_target_applied_first:
  assumes "rendered_files ps files" "topoSortDDL files = Ok fs"
    and "i < length ps" "j < length ps" "i \<noteq> j"
    and "c \<in> set (Columns (ps ! i))" "ForeignKey c = Some fk" "TargetTable fk = TableName (ps ! j)"
    and "\<forall>k < length files. TableName (ps ! j) \<in> set (created_tables (Content (files ! k))) \<longrightarrow> k = j"
  shows "\<exists>a b. a < b \<and> b < length fs \<and> fs ! a = files ! j \<and> fs ! b = files ! i"
  by (rule rendered_target_first [OF assms])

definition author_plan :: resource_plan where
  "author_plan = empty_plan\<lparr>ProtoFile := ''a.proto'', TableName := ''authors'',
     Columns := [empty_column\<lparr>DBName := ''id'', SQLType := ''TEXT''\<rparr>]\<rparr>"

definition book_plan :: resource_plan where
  "book_plan = empty_plan\<lparr>ProtoFile := ''b.proto'', TableName := ''books'',
     Columns := [empty_column\<lparr>DBName := ''author'', SQLType := ''TEXT'',
       ForeignKey := Some (empty_fk\<lparr>TargetTable := ''authors'', TargetColumn := ''id'',
         ConstraintName := ''books_author_fkey'', OnDelete := ''RESTRICT'', OnUpdate := ''RESTRICT''\<rparr>)\<rparr>]\<rparr>"

definition body_of :: "resource_plan \<Rightarrow> string" where
  "body_of p = (case renderIndexes p of None \<Rightarrow> [] | Some indexes \<Rightarrow>
     renderCreateTable p @ renderRenameDirectives p @ renderSupplementalUniques p
       @ indexes @ renderUniqueColumnIndexes p @ renderJSONBPathIndexes p @ renderJSONBGinIndexes p
       @ renderForeignKeyIndexes p @ renderRLS p @ renderComments p @ renderCustomSQL p)"

definition file_of :: "resource_plan \<Rightarrow> file_content" where
  "file_of p = \<lparr>FilePath = TableName p, Content = ddl_header p @ body_of p\<rparr>"

lemma scan_file:
  assumes "one_line (ProtoFile p)" "one_line (ResourceFQN p)"
    and "CHR ''F'' \<notin> set (ProtoFile p)" "CHR ''F'' \<notin> set (ResourceFQN p)"
  shows "created_tables (Content (file_of p)) = find_all m_create True True (CHR 0x0A # body_of p)"
    "referenced_tables (Content (file_of p)) = find_all m_reference False True (CHR 0x0A # body_of p)"
  by (simp_all add: file_of_def created_tables_def referenced_tables_def header_comment header_no_reference assms)

lemma file_of_rendered: "renderIndexes p \<noteq> None \<Longrightarrow> renderSchemaSQL p = Some (Content (file_of p))"
  by (auto simp: renderSchemaSQL_def file_of_def body_of_def)

lemma library_tables:
  "created_tables (Content (file_of book_plan)) = [''books'']"
  "created_tables (Content (file_of author_plan)) = [''authors'']"
  "referenced_tables (Content (file_of book_plan)) = [''authors'']"
  "referenced_tables (Content (file_of author_plan)) = []"
proof -
  have h: "one_line (ProtoFile book_plan)" "one_line (ResourceFQN book_plan)" 
    "CHR ''F'' \<notin> set (ProtoFile book_plan)" "CHR ''F'' \<notin> set (ResourceFQN book_plan)"
    "one_line (ProtoFile author_plan)" "one_line (ResourceFQN author_plan)" 
    "CHR ''F'' \<notin> set (ProtoFile author_plan)" "CHR ''F'' \<notin> set (ResourceFQN author_plan)"
    by code_simp+
  note s = scan_file [OF h(1-4)] scan_file [OF h(5-8)]
  show "created_tables (Content (file_of book_plan)) = [''books'']" unfolding s by code_simp
  show "created_tables (Content (file_of author_plan)) = [''authors'']" unfolding s by code_simp
  show "referenced_tables (Content (file_of book_plan)) = [''authors'']" unfolding s by code_simp
  show "referenced_tables (Content (file_of author_plan)) = []" unfolding s by code_simp
qed

lemma library_topo:
  "topoSortDDL [file_of book_plan, file_of author_plan] = Ok [file_of author_plan, file_of book_plan]"
proof -
  have "table_owner [file_of book_plan, file_of author_plan] = [''books'' \<mapsto> 0, ''authors'' \<mapsto> 1]"
    by (simp add: table_owner_def claim_tables_def library_tables)
  then have "owners_of [file_of book_plan, file_of author_plan] i = (if i = 0 then [1] else [])" if "i < 2" for i
    using that library_tables by (cases i) (auto simp: owners_of_def List.map_filter_def less_Suc_eq)
  note o = this [of 0, simplified] this [of 1, simplified]
  show ?thesis
    by (simp add: topoSortDDL_def topo_order_def adjacency_def o upt_rec numeral_2_eq_2)
qed

theorem fk_target_applied_first_witness:
  "\<exists>a b. a < b \<and> [file_of author_plan, file_of book_plan] ! a = file_of author_plan
     \<and> [file_of author_plan, file_of book_plan] ! b = file_of book_plan"
proof -
  have r: "rendered_files [book_plan, author_plan] [file_of book_plan, file_of author_plan]"
  proof -
    have "renderIndexes book_plan \<noteq> None" "renderIndexes author_plan \<noteq> None" by code_simp+
    moreover have "legal_ident (TableName book_plan) \<and> legal_ident (TableName author_plan)
      \<and> one_line (ProtoFile book_plan) \<and> one_line (ResourceFQN book_plan)
      \<and> one_line (ProtoFile author_plan) \<and> one_line (ResourceFQN author_plan)" by code_simp
    ultimately show ?thesis by (simp add: rendered_files_def file_of_rendered)
  qed
  obtain fk where fk: "ForeignKey (Columns book_plan ! 0) = Some fk" "TargetTable fk = TableName author_plan"
    "Columns book_plan ! 0 \<in> set (Columns book_plan)"
    by (simp add: book_plan_def author_plan_def)
  have only: "\<forall>k < length [file_of book_plan, file_of author_plan].
      TableName ([book_plan, author_plan] ! 1)
        \<in> set (created_tables (Content ([file_of book_plan, file_of author_plan] ! k))) \<longrightarrow> k = 1"
    by (auto simp: less_Suc_eq library_tables author_plan_def)
  show ?thesis
    using fk_target_applied_first [OF r library_topo _ _ _ _ _ _ only, of 0 "Columns book_plan ! 0" fk] fk
    by auto
qed

text \<open>
  The applier reads references out of the text of the file, comments included. Two resources
  without any foreign key, whose table comments mention each other's table in the words of SQL, are
  rejected as a cyclic foreign key graph.
\<close>

theorem comments_make_a_cycle:
  "\<exists>ps files. rendered_files ps files \<and> (\<forall>p \<in> set ps. \<forall>c \<in> set (Columns p). ForeignKey c = None)
     \<and> topoSortDDL files = Err (map FilePath files)"
proof -
  let ?a = "empty_plan\<lparr>TableName := ''a'', TableComment := ''REFERENCES b (id)''\<rparr>"
  let ?b = "empty_plan\<lparr>TableName := ''b'', TableComment := ''REFERENCES a (id)''\<rparr>"
  have h: "one_line (ProtoFile ?a)" "one_line (ResourceFQN ?a)"
    "CHR ''F'' \<notin> set (ProtoFile ?a)" "CHR ''F'' \<notin> set (ResourceFQN ?a)"
    "one_line (ProtoFile ?b)" "one_line (ResourceFQN ?b)"
    "CHR ''F'' \<notin> set (ProtoFile ?b)" "CHR ''F'' \<notin> set (ResourceFQN ?b)"
    by (simp_all add: empty_plan_def)
  note s = scan_file [OF h(1-4)] scan_file [OF h(5-8)]
  have t: "created_tables (Content (file_of ?a)) = [''a'']" "referenced_tables (Content (file_of ?a)) = [''b'']"
    "created_tables (Content (file_of ?b)) = [''b'']" "referenced_tables (Content (file_of ?b)) = [''a'']"
    unfolding s by code_simp+
  have "table_owner [file_of ?a, file_of ?b] = [''a'' \<mapsto> 0, ''b'' \<mapsto> 1]"
    by (simp add: table_owner_def claim_tables_def t)
  then have "owners_of [file_of ?a, file_of ?b] i = (if i = 0 then [1] else [0])" if "i < 2" for i
    using that t by (cases i) (auto simp: owners_of_def List.map_filter_def less_Suc_eq)
  note o = this [of 0, simplified] this [of 1, simplified]
  have "topoSortDDL [file_of ?a, file_of ?b] = Err (map FilePath [file_of ?a, file_of ?b])"
    by (simp add: topoSortDDL_def topo_order_def adjacency_def o upt_rec numeral_2_eq_2)
  moreover have "renderIndexes ?a \<noteq> None" "renderIndexes ?b \<noteq> None" "legal_ident ''a''" "legal_ident ''b''"
    by code_simp+
  then have "rendered_files [?a, ?b] [file_of ?a, file_of ?b]"
    using h by (simp add: rendered_files_def file_of_rendered)
  moreover have "\<forall>p \<in> set [?a, ?b]. \<forall>c \<in> set (Columns p). ForeignKey c = None"
    by (simp add: empty_plan_def)
  ultimately show ?thesis by blast
qed

end
