(* ===== verification/DDL_Read.thy ===== *)
theory DDL_Read
  imports DDL_Order
begin

text \<open>
  The readers of generated DDL in \<^verbatim>\<open>check.go\<close> and \<^verbatim>\<open>migration_scaffold.go\<close>:
  the table name, the resource name and the rename directives of a file, the discovery of the
  tables the plugin manages, and the removal of the file header. A file is its path and its
  content; finding and reading files is left out, so that the files come as a list, in the order
  the roots list them.
\<close>

section \<open>Flags\<close>

text \<open>\<^verbatim>\<open>stringSlice.Set\<close>: repeated flags accumulate.\<close>

definition stringSlice_Set :: "string list \<Rightarrow> string \<Rightarrow> string list" where
  "stringSlice_Set s v = s @ filter (\<lambda>part. part \<noteq> []) (map trim_space (split_on CHR '','' v))"

definition stringSlice_String :: "string list \<Rightarrow> string" where
  "stringSlice_String s = join '','' s"

text \<open>\<^verbatim>\<open>^[A-Za-z_][A-Za-z0-9_-]*$\<close>\<close>

definition role_start :: "char \<Rightarrow> bool" where
  "role_start c \<longleftrightarrow> (65 \<le> byte c \<and> byte c \<le> 90) \<or> (97 \<le> byte c \<and> byte c \<le> 122) \<or> c = CHR ''_''"

definition role_part :: "char \<Rightarrow> bool" where
  "role_part c \<longleftrightarrow> role_start c \<or> (48 \<le> byte c \<and> byte c \<le> 57) \<or> c = CHR ''-''"

definition tenantRolePattern :: "string \<Rightarrow> bool" where
  "tenantRolePattern r \<longleftrightarrow> r \<noteq> [] \<and> role_start (hd r) \<and> list_all role_part r"

section \<open>One file\<close>

text \<open>
  \<^verbatim>\<open>strings.ToUpper\<close> is exact in the comparison with ASCII letters other than S and I:
  no other rune has one of them as its upper case.
\<close>

fun find_create :: "string list \<Rightarrow> string option" where
  "find_create [] = None"
| "find_create (l # ls) =
     (let line = trim_space l in
      if prefix ''CREATE TABLE '' (upper_ascii line)
      then Some (trim_space (trim_suffix ''('' (trim_space (drop 13 line))))
      else find_create ls)"

definition extractTableName :: "string \<Rightarrow> string option" where
  "extractTableName ddl = find_create (split_on CHR 0x0A ddl)"

fun find_resource :: "string list \<Rightarrow> string" where
  "find_resource [] = []"
| "find_resource (l # ls) =
     (let line = trim_space l in
      if prefix ''-- Resource:'' line then trim_space (drop 12 line)
      else if line \<noteq> [] \<and> \<not> prefix ''--'' line then []
      else find_resource ls)"

definition extractResourceFQN :: "string \<Rightarrow> string" where
  "extractResourceFQN ddl = find_resource (split_on CHR 0x0A ddl)"

record rename_directive =
  RenTable :: string
  RenFrom :: string
  RenTo :: string

text \<open>The text before and after the first occurrence (\<^verbatim>\<open>strings.Index\<close>).\<close>

fun cut :: "string \<Rightarrow> string \<Rightarrow> (string \<times> string) option" where
  "cut pat [] = (if pat = [] then Some ([], []) else None)"
| "cut pat (c # s) =
     (if prefix pat (c # s) then Some ([], drop (length pat) (c # s))
      else map_option (\<lambda>(a, b). (c # a, b)) (cut pat s))"

definition parse_rename_line :: "string \<Rightarrow> rename_directive option" where
  "parse_rename_line l =
     (let line = trim_space l in
      if \<not> prefix ''-- PLUGIN-RENAME:'' line then None
      else case cut '' -> '' (trim_space (trim_prefix ''-- PLUGIN-RENAME:'' line)) of
        None \<Rightarrow> None
      | Some (before, after) \<Rightarrow>
          (case str_fields before of
             [table, old] \<Rightarrow>
               let new = trim_space after in
               if new = [] then None else Some \<lparr>RenTable = table, RenFrom = old, RenTo = new\<rparr>
           | _ \<Rightarrow> None))"

definition parseRenameDirectives :: "string \<Rightarrow> rename_directive list" where
  "parseRenameDirectives ddl = List.map_filter parse_rename_line (split_on CHR 0x0A ddl)"

fun drop_header :: "string list \<Rightarrow> string list" where
  "drop_header [] = []"
| "drop_header (l # ls) =
     (let line = trim_space l in
      if line = [] then drop_header ls
      else if prefix ''--'' line then drop_header ls
      else l # ls)"

definition stripDDLHeader :: "string \<Rightarrow> string" where
  "stripDDLHeader s = join nl (drop_header (split_on CHR 0x0A s))"

section \<open>Discovery\<close>

record plugin_managed =
  DDLPath :: string
  ManagedTable :: string
  ManagedFQN :: string

datatype discover_error = NoCreateTable string | MatchedTwice string | NoMatchingDDL "string list"

definition managed_of :: "file_content \<Rightarrow> (discover_error, plugin_managed) outcome" where
  "managed_of f =
     (case extractTableName (Content f) of
        None \<Rightarrow> Err (NoCreateTable (FilePath f))
      | Some name \<Rightarrow> Ok \<lparr>DDLPath = FilePath f, ManagedTable = name, ManagedFQN = extractResourceFQN (Content f)\<rparr>)"

fun select_wanted ::
  "string list \<Rightarrow> string list \<Rightarrow> plugin_managed list \<Rightarrow>
   (discover_error, plugin_managed list \<times> string list) outcome" where
  "select_wanted want seen [] = Ok ([], seen)"
| "select_wanted want seen (t # ts) =
     (if ManagedFQN t \<notin> set want then select_wanted want seen ts
      else if ManagedFQN t \<in> set seen then Err (MatchedTwice (ManagedFQN t))
      else and_then (select_wanted want (ManagedFQN t # seen) ts) (\<lambda>(out, seen'). Ok (t # out, seen')))"

text \<open>
  \<^verbatim>\<open>sort.Slice\<close> by table name; files of the same table, whose order Go leaves open,
  keep theirs.
\<close>

definition discoverPluginTables ::
  "file_content list \<Rightarrow> string list \<Rightarrow> (discover_error, plugin_managed list) outcome" where
  "discoverPluginTables files resources =
     and_then (map_out managed_of files) (\<lambda>all.
     if resources = [] then Ok (sort_key ManagedTable all)
     else and_then (select_wanted resources [] all) (\<lambda>(out, seen).
       let missing = filter (\<lambda>r. r \<notin> set seen) resources in
       if missing \<noteq> [] then Err (NoMatchingDDL (sort missing))
       else Ok (sort_key ManagedTable out)))"

definition discoverRenameDirectives :: "file_content list \<Rightarrow> rename_directive list" where
  "discoverRenameDirectives files = concat (map (parseRenameDirectives \<circ> Content) files)"

text \<open>The entries of the migrations directory: name, whether it is a directory, size.\<close>

definition hasNonEmptyMigrations :: "(string \<times> bool \<times> nat) list \<Rightarrow> bool" where
  "hasNonEmptyMigrations entries \<longleftrightarrow>
     (\<exists>(name, is_dir, size) \<in> set entries. \<not> is_dir \<and> suffix ''.up.sql'' name \<and> size > 0)"

section \<open>Lemmas\<close>

lemma split_on_line: "one_line l \<Longrightarrow> split_on CHR 0x0A (line l @ s) = l # split_on CHR 0x0A s"
  by (simp add: line_def split_on_append)

lemma split_on_nl: "split_on CHR 0x0A (CHR 0x0A # s) = [] # split_on CHR 0x0A s"
  by simp

lemma map_filter_append: "List.map_filter f (xs @ ys) = List.map_filter f xs @ List.map_filter f ys"
  by (simp add: List.map_filter_def)

text \<open>Comment lines of the header: trimming leaves their first two characters.\<close>

lemma runes_prefix_ascii: "ascii a \<Longrightarrow> runes (a @ s) = map (\<lambda>c. (byte c, [c])) a @ runes s"
  by (rule runes_ascii_append)

lemma trim_space_prefix:
  assumes "ascii w" "w \<noteq> []" "\<not> space_byte (hd w)" "\<not> space_byte (last w)"
  shows "prefix w (trim_space (w @ s))"
proof -
  let ?m = "map (\<lambda>c. (byte c, [c])) w"
  have hd: "\<not> space_chunk (hd (?m @ runes s))" "?m \<noteq> []" using assms(2,3) by (simp_all add: hd_map)
  then have d: "dropWhile space_chunk (runes (w @ s)) = ?m @ runes s"
    by (simp add: runes_ascii_append [OF assms(1)] dropWhile_id)
  have "\<not> space_chunk (last ?m)" using assms(2,4) by (simp add: last_map)
  then have "\<exists>r. dropWhile space_chunk (rev (runes s) @ rev ?m) = r @ rev ?m"
    using hd(2) by (cases "dropWhile space_chunk (rev (runes s)) = []")
      (auto simp: dropWhile_append dropWhile_eq_Nil_conv dropWhile_id hd_rev)
  then obtain r where "trim_end space_chunk (?m @ runes s) = ?m @ rev r"
    by (auto simp: trim_end_def rev_append)
  moreover have "unrunes ?m = w" by (induction w) auto
  ultimately show ?thesis by (simp add: trim_space_def d)
qed

lemma trim_space_comment: "prefix ''--'' l \<Longrightarrow> prefix ''--'' (trim_space l)"
  using trim_space_prefix [of "''--''"] by (auto simp: prefix_def is_space_def)

lemma not_resource_line:
  assumes "l = ''-- '' @ [c] @ s" "byte c < 128" "\<not> space_byte c" "c \<noteq> CHR ''R''"
  shows "\<not> prefix ''-- Resource:'' (trim_space l)"
proof -
  have "prefix (''-- '' @ [c]) (trim_space ((''-- '' @ [c]) @ s))"
    using assms(2,3) by (intro trim_space_prefix) (simp_all add: is_space_def)
  with assms(1,4) show ?thesis by (auto simp: prefix_def)
qed

lemma header_lines:
  assumes "one_line (ProtoFile p)" "one_line (ResourceFQN p)"
  obtains first rest where
    "split_on CHR 0x0A (ddl_header p @ s) =
       first # ''--'' # (if ResourceFQN p \<noteq> [] then [''-- Resource: '' @ ResourceFQN p, ''--''] else [])
         @ rest @ [] # split_on CHR 0x0A s"
    "first = ''-- Code generated from '' @ ProtoFile p @ '' by protoc-gen-go-jet. DO NOT EDIT.''"
    "\<forall>l \<in> set rest. prefix ''--'' l \<and> \<not> prefix ''-- Resource:'' (trim_space l)"
proof -
  let ?rest = "[''-- Canonical SQL schema for this resource. Regenerated from proto on'',
    ''-- every `buf generate`. This file is a reference document; it is'',
    ''-- not applied to the database. Your migrations directory holds the'',
    ''-- deploy mechanism '' @ em_dash @ '' hand-authored forward-only SQL.'', ''--'',
    ''-- Authoring a migration: `protoc-gen-go-jet diff` scaffolds an LLM brief'',
    ''-- with a structural DELTA and the concatenated TARGET. The patterns live'',
    ''-- in .claude/skills/protoc-gen-go-jet/SKILL.md. `protoc-gen-go-jet check`'',
    ''-- is the machine-verified guardrail at the end of the flow.'']"
  have "trim_space ''--'' = ''--''" by code_simp
  then have "\<forall>l \<in> set ?rest. prefix ''--'' l \<and> \<not> prefix ''-- Resource:'' (trim_space l)"
    by (simp add: not_resource_line is_space_def)
  moreover have "split_on CHR 0x0A (ddl_header p @ s) =
      (''-- Code generated from '' @ ProtoFile p @ '' by protoc-gen-go-jet. DO NOT EDIT.'') # ''--''
      # (if ResourceFQN p \<noteq> [] then [''-- Resource: '' @ ResourceFQN p, ''--''] else [])
      @ ?rest @ [] # split_on CHR 0x0A s"
    using assms by (cases "ResourceFQN p = []") (simp_all add: ddl_header_def em_dash_def split_on_line split_on_nl)
  ultimately show ?thesis using that by blast
qed

lemma header_all_comments:
  assumes "one_line (ProtoFile p)" "one_line (ResourceFQN p)"
  obtains hs where "split_on CHR 0x0A (ddl_header p @ s) = hs @ [] # split_on CHR 0x0A s"
    "\<forall>l \<in> set hs. prefix ''--'' l"
proof (rule header_lines [OF assms, of s])
  fix first rest
  let ?hs = "first # ''--'' # (if ResourceFQN p \<noteq> [] then [''-- Resource: '' @ ResourceFQN p, ''--''] else []) @ rest"
  assume a: "split_on CHR 0x0A (ddl_header p @ s) =
       first # ''--'' # (if ResourceFQN p \<noteq> [] then [''-- Resource: '' @ ResourceFQN p, ''--''] else [])
         @ rest @ [] # split_on CHR 0x0A s"
    "first = ''-- Code generated from '' @ ProtoFile p @ '' by protoc-gen-go-jet. DO NOT EDIT.''"
    "\<forall>l \<in> set rest. prefix ''--'' l \<and> \<not> prefix ''-- Resource:'' (trim_space l)"
  show ?thesis by (rule that [of ?hs]) (use a in auto)
qed

lemma find_create_comments:
  "\<forall>l \<in> set hs. prefix ''--'' l \<Longrightarrow> find_create (hs @ ls) = find_create ls"
proof (induction hs)
  case (Cons l hs)
  obtain r where "trim_space l = CHR ''-'' # r"
    using trim_space_comment [of l] Cons(2) by (auto simp: prefix_def)
  moreover have "upper_byte CHR ''-'' = CHR ''-''" by code_simp
  ultimately have "\<not> prefix ''CREATE TABLE '' (upper_ascii (trim_space l))" by (simp add: upper_ascii_def)
  with Cons show ?case by simp
qed simp

lemma drop_header_comments:
  "\<forall>l \<in> set hs. prefix ''--'' l \<Longrightarrow> drop_header (hs @ ls) = drop_header ls"
  by (induction hs) (simp_all add: trim_space_comment Let_def)

lemma legal_ident_word: "legal_ident t \<Longrightarrow> word t"
  by (auto simp: word_def legal_ident_ascii)
    (auto simp: legal_ident_def ident_byte_def lower_rune_def digit_rune_def is_space_def)

lemma trim_word:
  assumes "word t"
  shows "trim_space t = t" "trim_space (t @ '' '') = t" "trim_space ('' '' @ t) = t"
proof -
  have a: "ascii t" "t \<noteq> []" "\<not> space_byte (hd t)" "\<not> space_byte (last t)"
    using assms by (auto simp: word_def)
  show "trim_space t = t" using a by (intro trim_space_id) auto
  have d: "dropWhile space_byte t = t" "dropWhile space_byte (rev t) = rev t"
    using a by (simp_all add: dropWhile_id hd_rev)
  have "dropWhile space_byte (t @ '' '') = t @ '' ''" using a by (simp add: dropWhile_id)
  moreover have "trim_end space_byte (t @ '' '') = t" by (simp add: trim_end_def d)
  ultimately show "trim_space (t @ '' '') = t" using a by (simp add: trim_space_ascii)
  show "trim_space ('' '' @ t) = t" using a by (simp add: trim_space_ascii d trim_end_id)
qed

lemma create_line:
  assumes "legal_ident t"
  shows "find_create ((''CREATE TABLE '' @ t @ '' ('') # ls) = Some t"
proof -
  let ?l = "''CREATE TABLE '' @ t @ '' (''"
  have a: "ascii ?l" using legal_ident_ascii [OF assms] by simp
  then have "trim_space ?l = ?l" by (intro trim_space_id) (simp_all add: is_space_def)
  moreover have "prefix ''CREATE TABLE '' (upper_ascii ?l)"
  proof -
    have "upper_ascii ''CREATE TABLE '' = ''CREATE TABLE ''" by code_simp
    then show ?thesis by (simp only: upper_ascii_def map_append) simp
  qed
  moreover have "trim_space (t @ '' ('') = t @ '' (''"
    using legal_ident_word [OF assms] by (intro trim_space_id) (auto simp: word_def is_space_def)
  moreover have "trim_suffix ''('' (t @ '' ('') = t @ '' ''"
    using trim_suffix_append [of "''(''" "t @ '' ''"] by simp
  ultimately show ?thesis
    using trim_word [OF legal_ident_word [OF assms]] by simp
qed

lemma find_resource_skip:
  "\<forall>l \<in> set hs. prefix ''--'' l \<and> \<not> prefix ''-- Resource:'' (trim_space l) \<Longrightarrow>
   find_resource (hs @ ls) = find_resource ls"
  by (induction hs) (simp_all add: trim_space_comment Let_def)

lemma resource_line:
  assumes "word f"
  shows "find_resource ((''-- Resource: '' @ f) # ls) = f"
proof -
  have "trim_space (''-- Resource: '' @ f) = ''-- Resource: '' @ f"
    using assms by (intro trim_space_id) (auto simp: word_def is_space_def)
  then show ?thesis using trim_word(3) [OF assms] by simp
qed

lemma word_one_line: "word f \<Longrightarrow> one_line f"
  by (auto simp: word_def is_space_def)

text \<open>The table part of a rendered file starts with the line that creates the table.\<close>

lemma create_table_lines:
  assumes "legal_ident (TableName p)"
  obtains ls where
    "split_on CHR 0x0A (renderCreateTable p @ s) = (''CREATE TABLE '' @ TableName p @ '' ('') # ls"
proof -
  obtain x where x: "renderCreateTable p = line (''CREATE TABLE '' @ TableName p @ '' ('') @ x"
    by (simp add: renderCreateTable_def)
  have "one_line (''CREATE TABLE '' @ TableName p @ '' ('')"
    using word_one_line [OF legal_ident_word [OF assms]] by simp
  from split_on_line [OF this, of "x @ s"] x that show ?thesis by simp
qed

lemma table_name_read:
  assumes "legal_ident (TableName p)" "one_line (ProtoFile p)" "one_line (ResourceFQN p)"
  shows "extractTableName (ddl_header p @ renderCreateTable p @ s) = Some (TableName p)"
proof -
  obtain ls where ls: "split_on CHR 0x0A (renderCreateTable p @ s) = (''CREATE TABLE '' @ TableName p @ '' ('') # ls"
    by (rule create_table_lines [OF assms(1)])
  obtain hs where "split_on CHR 0x0A (ddl_header p @ renderCreateTable p @ s) =
      hs @ [] # split_on CHR 0x0A (renderCreateTable p @ s)" "\<forall>l \<in> set hs. prefix ''--'' l"
    by (rule header_all_comments [OF assms(2,3)])
  then show ?thesis
    using create_line [OF assms(1), of ls]
    by (simp add: extractTableName_def find_create_comments ls upper_ascii_def del: append_Cons)
qed

lemma resource_read:
  assumes "legal_ident (TableName p)" "one_line (ProtoFile p)" "word (ResourceFQN p) \<or> ResourceFQN p = []"
  shows "extractResourceFQN (ddl_header p @ renderCreateTable p @ s) = ResourceFQN p"
proof -
  have f: "one_line (ResourceFQN p)" using assms(3) word_one_line by auto
  obtain ls where ls: "split_on CHR 0x0A (renderCreateTable p @ s) = (''CREATE TABLE '' @ TableName p @ '' ('') # ls"
    by (rule create_table_lines [OF assms(1)])
  obtain first rest where h: "split_on CHR 0x0A (ddl_header p @ renderCreateTable p @ s) =
       first # ''--'' # (if ResourceFQN p \<noteq> [] then [''-- Resource: '' @ ResourceFQN p, ''--''] else [])
         @ rest @ [] # split_on CHR 0x0A (renderCreateTable p @ s)"
    "first = ''-- Code generated from '' @ ProtoFile p @ '' by protoc-gen-go-jet. DO NOT EDIT.''"
    "\<forall>l \<in> set rest. prefix ''--'' l \<and> \<not> prefix ''-- Resource:'' (trim_space l)"
    by (rule header_lines [OF assms(2) f])
  have "trim_space ''--'' = ''--''" by code_simp
  then have "\<forall>l \<in> set [first, ''--'']. prefix ''--'' l \<and> \<not> prefix ''-- Resource:'' (trim_space l)"
    using not_resource_line [of first "CHR ''C''"] by (simp add: h(2) is_space_def)
  note skip = find_resource_skip [OF this]
  show ?thesis
  proof (cases "ResourceFQN p = []")
    case True
    have "prefix ''C'' (trim_space (''CREATE TABLE '' @ TableName p @ '' (''))"
      using trim_space_prefix [of "''C''" "''REATE TABLE '' @ TableName p @ '' (''"] by (simp add: is_space_def)
    then have "find_resource ((''CREATE TABLE '' @ TableName p @ '' ('') # ls) = []"
      by (auto simp: prefix_def Let_def)
    with True h(1,3) skip [of "rest @ [] # (''CREATE TABLE '' @ TableName p @ '' ('') # ls"] show ?thesis
      by (simp add: extractResourceFQN_def ls find_resource_skip del: find_resource.simps(2))
        (simp add: Let_def)
  next
    case False
    with assms(3) resource_line [of "ResourceFQN p"]
      skip [of "(''-- Resource: '' @ ResourceFQN p) # ''--'' # rest @ [] # (''CREATE TABLE '' @ TableName p @ '' ('') # ls"] h(1)
    show ?thesis by (simp add: extractResourceFQN_def ls del: find_resource.simps(2))
  qed
qed

text \<open>The lines of a text that ends with a line, and of one without the directive marker.\<close>

abbreviation rename_marker :: string where
  "rename_marker \<equiv> ''-- PLUGIN-RENAME:''"

lemma trim_space_sublist: "sublist (trim_space s) s"
proof -
  let ?d = "dropWhile space_chunk (runes s)"
  obtain ys where ys: "?d = trim_end space_chunk ?d @ ys" using trim_end_split [of ?d space_chunk] by (elim exE conjE) (rule that)
  have "s = unrunes (takeWhile space_chunk (runes s) @ ?d)" by (simp only: takeWhile_dropWhile_id unrunes_runes)
  also have "\<dots> = unrunes (takeWhile space_chunk (runes s)) @ unrunes ?d"
    by (simp only: map_append concat_append)
  also have "unrunes ?d = trim_space s @ unrunes ys"
    by (subst ys) (simp add: trim_space_def)
  finally show ?thesis by (simp add: sublist_def) metis
qed

lemma split_on_sublist: "l \<in> set (split_on c s) \<Longrightarrow> sublist l s"
proof -
  assume "l \<in> set (split_on c s)"
  from in_join [OF this, of "[c]"] obtain u v where "s = u @ l @ v" by auto
  then show ?thesis by simp
qed

lemma split_on_two: "split_on c (a @ c # b) = split_on c a @ split_on c b"
proof (induction a)
  case (Cons x a)
  then show ?case by (cases "split_on c a") auto
qed simp

lemma parse_rename_two:
  "parseRenameDirectives (a @ CHR 0x0A # b) = parseRenameDirectives a @ parseRenameDirectives b"
  by (simp add: parseRenameDirectives_def split_on_two map_filter_append)

lemma parse_rename_none: "\<not> sublist rename_marker l \<Longrightarrow> parse_rename_line l = None"
proof -
  assume n: "\<not> sublist rename_marker l"
  have "\<not> prefix rename_marker (trim_space l)"
  proof
    assume "prefix rename_marker (trim_space l)"
    then have "sublist rename_marker (trim_space l)" by (rule prefix_imp_sublist)
    from sublist_order.order.trans [OF this trim_space_sublist] n show False by simp
  qed
  then show ?thesis by (simp add: parse_rename_line_def)
qed

lemma parse_without_marker:
  assumes "\<not> sublist rename_marker s"
  shows "parseRenameDirectives s = []"
proof -
  have "parse_rename_line l = None" if "l \<in> set (split_on CHR 0x0A s)" for l
    using assms sublist_order.order.trans [OF _ split_on_sublist [OF that]] parse_rename_none by blast
  then show ?thesis
    by (simp add: parseRenameDirectives_def List.map_filter_def filter_empty_conv)
qed

lemma parse_rename_lines:
  "\<forall>l \<in> set ls. one_line l \<Longrightarrow>
   parseRenameDirectives (concat (map line ls) @ s) = List.map_filter parse_rename_line ls @ parseRenameDirectives s"
proof (induction ls)
  case (Cons l ls)
  then show ?case
    by (simp add: parseRenameDirectives_def split_on_line List.map_filter_def)
qed (simp add: List.map_filter_def)

lemma cut_arrow: "CHR ''-'' \<notin> set u \<Longrightarrow> cut '' -> '' (u @ '' -> '' @ v) = Some (u, v)"
proof (induction u)
  case (Cons c u)
  have "\<not> prefix '' -> '' (c # u @ '' -> '' @ v)" using Cons(2) by (cases u) auto
  with Cons show ?case by simp
qed simp

lemma rename_line:
  assumes "legal_ident t" "legal_ident a" "legal_ident b"
  shows "parse_rename_line (rename_marker @ '' '' @ t @ '' '' @ a @ '' -> '' @ b) = Some \<lparr>RenTable = t, RenFrom = a, RenTo = b\<rparr>"
proof -
  let ?body = "t @ '' '' @ a @ '' -> '' @ b"
  have w: "word t" "word a" "word b" using assms legal_ident_word by auto
  have nd: "CHR ''-'' \<notin> set (t @ '' '' @ a)"
    using assms by (auto simp: legal_ident_def ident_byte_def lower_rune_def digit_rune_def)
  have body: "trim_space ?body = ?body" "trim_space ('' '' @ ?body) = ?body"
  proof -
    have a: "ascii ?body" "?body \<noteq> []" "\<not> space_byte (hd ?body)" "\<not> space_byte (last ?body)"
      using w by (simp_all add: word_def)
    then show "trim_space ?body = ?body" by (intro trim_space_id) auto
    have "dropWhile space_byte ?body = ?body" "trim_end space_byte ?body = ?body"
      using a by (simp_all add: dropWhile_id trim_end_id del: append_assoc)
    moreover have "ascii ('' '' @ ?body)" using a(1) by simp
    ultimately show "trim_space ('' '' @ ?body) = ?body" by (simp add: trim_space_ascii)
  qed
  have "trim_space (rename_marker @ '' '' @ ?body) = rename_marker @ '' '' @ ?body"
    using w by (intro trim_space_id) (auto simp: word_def is_space_def)
  moreover have "trim_prefix rename_marker (rename_marker @ '' '' @ ?body) = '' '' @ ?body"
    by (rule trim_prefix_append)
  moreover have "cut '' -> '' ?body = Some (t @ '' '' @ a, b)"
    using cut_arrow [OF nd, of b] by simp
  ultimately show ?thesis
    using body(2) w trim_word(1) [OF w(3)] str_fields_two_words [OF w(1,2)]
    by (auto simp: parse_rename_line_def word_def)
qed

lemma render_directives_parse:
  assumes "legal_ident (TableName p)" "\<forall>c \<in> set (Columns p). legal_ident (DBName c) \<and> (RenameFrom c = [] \<or> legal_ident (RenameFrom c))"
    and "\<not> sublist rename_marker before" "\<not> sublist rename_marker after"
  shows "parseRenameDirectives (before @ nl @ renderRenameDirectives p @ after) =
    map (\<lambda>c. \<lparr>RenTable = TableName p, RenFrom = RenameFrom c, RenTo = DBName c\<rparr>)
      (filter (\<lambda>c. RenameFrom c \<noteq> []) (Columns p))"
proof -
  let ?cs = "filter (\<lambda>c. RenameFrom c \<noteq> []) (Columns p)"
  have rest: "parseRenameDirectives after = []" "parseRenameDirectives before = []"
    using assms(3,4) parse_without_marker by blast+
  show ?thesis
  proof (cases "?cs = []")
    case True
    with rest show ?thesis by (simp add: renderRenameDirectives_def parse_rename_two)
  next
    case False
    let ?d = "\<lambda>c. rename_marker @ '' '' @ TableName p @ '' '' @ RenameFrom c @ '' -> '' @ DBName c"
    let ?t = "[''-- PLUGIN-RENAME directives '' @ em_dash @ '' declared via `(storage.v1.column).rename_from`.'',
      ''-- Author the next migration as `ALTER TABLE <t> RENAME COLUMN <old> TO <new>`'',
      ''-- for each line below, then drop the annotation on the next release once'',
      ''-- every environment has applied the rename.'']"
    have d: "parse_rename_line (?d c) = Some \<lparr>RenTable = TableName p, RenFrom = RenameFrom c, RenTo = DBName c\<rparr>"
        "one_line (?d c)" if "c \<in> set ?cs" for c
      using that assms(1,2) rename_line word_one_line legal_ident_word by auto
    have "\<forall>l \<in> set ?t. \<not> sublist rename_marker l \<and> one_line l" by code_simp
    then have t: "List.map_filter parse_rename_line ?t = []" "\<forall>l \<in> set ?t. one_line l"
      by (simp_all add: List.map_filter_def parse_rename_none)
    define L where "L = concat (map line (?t @ map ?d ?cs)) @ after"
    have m: "List.map_filter parse_rename_line (map ?d ?cs) =
        map (\<lambda>c. \<lparr>RenTable = TableName p, RenFrom = RenameFrom c, RenTo = DBName c\<rparr>) ?cs"
      using d(1) by (induction ?cs) (auto simp: List.map_filter_def)
    have "renderRenameDirectives p = nl @ concat (map line (?t @ map ?d ?cs))"
      using False by (simp add: renderRenameDirectives_def Let_def comp_def)
    then have shape: "before @ nl @ renderRenameDirectives p @ after = before @ CHR 0x0A # [] @ CHR 0x0A # L"
      by (simp only: L_def append_assoc append.simps)
    have "\<forall>l \<in> set (?t @ map ?d ?cs). one_line l"
      using t(2) d(2) by (simp only: set_append set_map ball_Un ball_simps) blast
    then have "parseRenameDirectives L = List.map_filter parse_rename_line (?t @ map ?d ?cs) @ []"
      unfolding L_def rest(1) [symmetric] by (rule parse_rename_lines)
    then show ?thesis
      unfolding shape parse_rename_two rest(2) by (simp only: map_filter_append t(1) m) (simp add: parse_without_marker)
  qed
qed

text \<open>What the selection by \<^verbatim>\<open>--resources\<close> returns.\<close>

lemma select_wanted_Ok:
  "select_wanted want seen ts = Ok (out, seen') \<longleftrightarrow>
     out = filter (\<lambda>t. ManagedFQN t \<in> set want) ts
     \<and> distinct (map ManagedFQN out) \<and> set (map ManagedFQN out) \<inter> set seen = {}
     \<and> seen' = rev (map ManagedFQN out) @ seen"
proof (induction want seen ts arbitrary: out seen' rule: select_wanted.induct)
  case (2 want seen t ts)
  let ?X = "filter (\<lambda>t. ManagedFQN t \<in> set want) ts"
  show ?case
  proof (cases "ManagedFQN t \<in> set want \<and> ManagedFQN t \<notin> set seen")
    case True
    have "select_wanted want seen (t # ts) = Ok (out, seen') \<longleftrightarrow>
        (\<exists>o'. out = t # o' \<and> select_wanted want (ManagedFQN t # seen) ts = Ok (o', seen'))"
      using True by (auto simp: go_simps)
    also have "\<dots> \<longleftrightarrow> (\<exists>o'. out = t # o' \<and> o' = filter (\<lambda>t. ManagedFQN t \<in> set want) ts
         \<and> distinct (map ManagedFQN o') \<and> set (map ManagedFQN o') \<inter> set (ManagedFQN t # seen) = {}
         \<and> seen' = rev (map ManagedFQN o') @ ManagedFQN t # seen)"
      using 2(2) True by simp
    also have "\<dots> \<longleftrightarrow> out = t # ?X \<and> distinct (map ManagedFQN ?X)
         \<and> set (map ManagedFQN ?X) \<inter> set (ManagedFQN t # seen) = {}
         \<and> seen' = rev (map ManagedFQN ?X) @ ManagedFQN t # seen" by blast
    finally have step: "select_wanted want seen (t # ts) = Ok (out, seen') \<longleftrightarrow> \<dots>" .
    show ?thesis
    proof (cases "out = t # ?X")
      case out: True
      show ?thesis unfolding step using True by (simp add: out) blast
    next
      case False
      with True show ?thesis unfolding step by simp
    qed
  next
    case False
    then show ?thesis using 2(1) by (cases "ManagedFQN t \<in> set want") auto
  qed
qed auto

lemma discover_Ok:
  assumes "map_out managed_of files = Ok ts" "resources \<noteq> []"
  shows "discoverPluginTables files resources = Ok out \<longleftrightarrow>
     out = sort_key ManagedTable (filter (\<lambda>t. ManagedFQN t \<in> set resources) ts)
     \<and> (\<forall>r \<in> set resources. count_list (map ManagedFQN ts) r = 1)"
proof -
  let ?sel = "filter (\<lambda>t. ManagedFQN t \<in> set resources) ts"
  have count: "count_list (map ManagedFQN ts) r = count_list (map ManagedFQN ?sel) r" if "r \<in> set resources" for r
    using that by (induction ts) auto
  have one: "distinct xs \<and> set resources \<subseteq> set xs \<longleftrightarrow> (\<forall>r \<in> set resources. count_list xs r = 1)"
    if "set xs \<subseteq> set resources" for xs :: "string list"
  proof -
    have "distinct xs \<longleftrightarrow> (\<forall>a \<in> set xs. count_list xs a = 1)"
      unfolding distinct_count_atmost_1 count_mset using count_list_0_iff by (metis (full_types))
    moreover have "r \<in> set xs" if "count_list xs r = 1" for r
      using that count_list_0_iff [of xs r] by fastforce
    ultimately show ?thesis using that by (simp add: subset_iff) metis
  qed
  have "set (map ManagedFQN ?sel) \<subseteq> set resources" by auto
  note one [OF this]
  moreover have "filter (\<lambda>r. r \<notin> set xs) resources = [] \<longleftrightarrow> set resources \<subseteq> set xs" for xs
    by (auto simp: filter_empty_conv)
  ultimately show ?thesis
    using count by (auto simp: discoverPluginTables_def assms go_simps select_wanted_Ok Let_def split: if_splits)
qed

section \<open>Plans ready for rendering\<close>

text \<open>What resolution guarantees of the names and indexes of a plan.\<close>

definition ddl_ready :: "resource_plan \<Rightarrow> bool" where
  "ddl_ready p \<longleftrightarrow>
     legal_ident (TableName p) \<and> (\<forall>idx \<in> set (Indexes p). index_wf idx)
     \<and> (\<forall>c \<in> set (Columns p). legal_ident (DBName c) \<and> (RenameFrom c = [] \<or> legal_ident (RenameFrom c)))"

lemma resolved_rename:
  assumes "resolveColumn f = Ok (Some c)"
  shows "RenameFrom c = [] \<or> legal_ident (RenameFrom c)"
proof (rule resolved_parts [OF assms])
  fix c2 n c6
  assume "RenameFrom c6 = [] \<or> legal_ident (RenameFrom c6) \<and> RenameFrom c6 \<noteq> DBName c6"
    and "applyGeneratedExpr (option_of f) c6 = Ok c"
  then show ?thesis using applyGeneratedExpr_shape by fastforce
qed

lemma resolved_ddl_ready:
  assumes "resolveResource mp m = Ok (Some p)"
  shows "ddl_ready p"
proof -
  have "legal_ident (TableName p)" "\<forall>idx \<in> set (Indexes p). index_wf idx"
    by (rule resolveResource_stages [OF assms], use resolveIndex_wf in fastforce)+
  moreover have "RenameFrom c = [] \<or> legal_ident (RenameFrom c)" if col: "c \<in> set (Columns p)" for c
  proof -
    consider "\<exists>t. c \<in> set (scope_columns (Some t))" | f where "resolveColumn f = Ok (Some c)"
      using resolved_column [OF assms col] by blast
    then show ?thesis
      by cases (auto simp: scope_columns_def synthesised_column_def empty_column_def resolved_rename split: if_splits)
  qed
  ultimately show ?thesis using resolved_column_legal [OF assms] by (simp add: ddl_ready_def)
qed

lemma ready_renders:
  assumes "ddl_ready p"
  obtains rest where
    "renderSchemaSQL p = Some (ddl_header p @ renderCreateTable p @ renderRenameDirectives p @ rest)"
proof -
  have "those (map (index_line p) xs) \<noteq> None" if "\<forall>idx \<in> set xs. index_wf idx" for xs
    using that by (induction xs) (auto simp: index_line_def index_wf_def)
  then have "renderIndexes p \<noteq> None" using assms by (simp add: ddl_ready_def renderIndexes_def)
  then show ?thesis using that by (auto simp: renderSchemaSQL_def)
qed

lemma strip_header:
  assumes "legal_ident (TableName p)" "one_line (ProtoFile p)" "one_line (ResourceFQN p)"
  shows "stripDDLHeader (ddl_header p @ renderCreateTable p @ s) = renderCreateTable p @ s"
proof -
  obtain ls where ls: "split_on CHR 0x0A (renderCreateTable p @ s) = (''CREATE TABLE '' @ TableName p @ '' ('') # ls"
    by (rule create_table_lines [OF assms(1)])
  obtain hs where hs: "split_on CHR 0x0A (ddl_header p @ renderCreateTable p @ s) =
      hs @ [] # split_on CHR 0x0A (renderCreateTable p @ s)" "\<forall>l \<in> set hs. prefix ''--'' l"
    by (rule header_all_comments [OF assms(2,3)])
  have "prefix ''C'' (trim_space (''CREATE TABLE '' @ TableName p @ '' (''))"
    using trim_space_prefix [of "''C''" "''REATE TABLE '' @ TableName p @ '' (''"] by (simp add: is_space_def)
  then have "drop_header (split_on CHR 0x0A (renderCreateTable p @ s)) = split_on CHR 0x0A (renderCreateTable p @ s)"
    by (auto simp: ls prefix_def Let_def)
  then show ?thesis
    using hs by (simp add: stripDDLHeader_def drop_header_comments)
qed

section \<open>Properties\<close>

lemma ddl_reads_back:
  assumes "ddl_ready p" "one_line (ProtoFile p)" "word (ResourceFQN p) \<or> ResourceFQN p = []"
  shows "\<exists>stmts. renderSchemaSQL p = Some (ddl_header p @ stmts)
    \<and> extractTableName (ddl_header p @ stmts) = Some (TableName p)
    \<and> extractResourceFQN (ddl_header p @ stmts) = ResourceFQN p
    \<and> TableName p \<in> set (created_tables (ddl_header p @ stmts))
    \<and> stripDDLHeader (ddl_header p @ stmts) = stmts"
proof -
  have t: "legal_ident (TableName p)" using assms(1) by (simp add: ddl_ready_def)
  have f: "one_line (ResourceFQN p)" using assms(3) word_one_line by auto
  obtain rest where r: "renderSchemaSQL p = Some (ddl_header p @ renderCreateTable p @ renderRenameDirectives p @ rest)"
    using assms(1) by (rule ready_renders)
  let ?stmts = "renderCreateTable p @ renderRenameDirectives p @ rest"
  show ?thesis
    using r table_name_read [OF t assms(2) f, of "renderRenameDirectives p @ rest"]
      resource_read [OF t assms(2,3), of "renderRenameDirectives p @ rest"]
      rendered_creates [OF r t assms(2) f] strip_header [OF t assms(2) f, of "renderRenameDirectives p @ rest"]
    by (intro exI [of _ ?stmts]) simp
qed

text \<open>
  C26: Every resource the resolver accepts renders, without a panic, to a file its readers understand: the check
  and diff commands read back its table and its resource name, the applier sees that it creates the
  table, and removing the header leaves exactly the statements.
\<close>

theorem generated_ddl_reads_back:
  assumes "ddl_ready p" "one_line (ProtoFile p)" "word (ResourceFQN p) \<or> ResourceFQN p = []"
  shows "\<exists>stmts. renderSchemaSQL p = Some (ddl_header p @ stmts)
    \<and> extractTableName (ddl_header p @ stmts) = Some (TableName p)
    \<and> extractResourceFQN (ddl_header p @ stmts) = ResourceFQN p
    \<and> TableName p \<in> set (created_tables (ddl_header p @ stmts))
    \<and> stripDDLHeader (ddl_header p @ stmts) = stmts"
  by (rule ddl_reads_back [OF assms])

theorem generated_ddl_reads_back_witness:
  "\<exists>stmts. renderSchemaSQL sample_resource = Some (ddl_header sample_resource @ stmts)
    \<and> extractTableName (ddl_header sample_resource @ stmts) = Some ''runs''
    \<and> extractResourceFQN (ddl_header sample_resource @ stmts) = ''lib.v1.Run''"
proof -
  have s: "TableName sample_resource = ''runs''" "ResourceFQN sample_resource = ''lib.v1.Run''"
    "one_line (ProtoFile sample_resource)" "word ''lib.v1.Run''"
    by code_simp+
  then have "word (ResourceFQN sample_resource) \<or> ResourceFQN sample_resource = []" by simp
  from generated_ddl_reads_back [OF resolved_ddl_ready [OF sample_resource_resolved] s(3) this] s(1,2)
  show ?thesis by auto
qed

text \<open>
  The rename directives of a file parse back to the renames the columns declare, in their order,
  and nothing else does, as long as no other part of the file holds the directive's marker.
\<close>

theorem rename_directives_roundtrip:
  assumes "ddl_ready p"
    and "renderSchemaSQL p = Some (ddl_header p @ renderCreateTable p @ renderRenameDirectives p @ rest)"
    and "\<not> sublist rename_marker (ddl_header p @ renderCreateTable p)" "\<not> sublist rename_marker rest"
  shows "map_option parseRenameDirectives (renderSchemaSQL p) =
    Some (map (\<lambda>c. \<lparr>RenTable = TableName p, RenFrom = RenameFrom c, RenTo = DBName c\<rparr>)
      (filter (\<lambda>c. RenameFrom c \<noteq> []) (Columns p)))"
proof -
  obtain b where b: "ddl_header p @ renderCreateTable p = b @ nl"
  proof -
    have "\<exists>b. renderCreateTable p = b @ nl"
      by (auto simp: renderCreateTable_def line_def split: option.splits)
    then show ?thesis using that by (metis append_assoc)
  qed
  have "\<not> sublist rename_marker b"
  proof
    assume "sublist rename_marker b"
    moreover have "sublist b (ddl_header p @ renderCreateTable p)" by (simp add: b)
    ultimately show False using assms(3) sublist_order.order.trans by blast
  qed
  moreover have "legal_ident (TableName p)"
    "\<forall>c \<in> set (Columns p). legal_ident (DBName c) \<and> (RenameFrom c = [] \<or> legal_ident (RenameFrom c))"
    using assms(1) by (auto simp: ddl_ready_def)
  ultimately have "parseRenameDirectives (b @ nl @ renderRenameDirectives p @ rest) =
    map (\<lambda>c. \<lparr>RenTable = TableName p, RenFrom = RenameFrom c, RenTo = DBName c\<rparr>)
      (filter (\<lambda>c. RenameFrom c \<noteq> []) (Columns p))"
    using assms(4) render_directives_parse by blast
  moreover have "ddl_header p @ renderCreateTable p @ renderRenameDirectives p @ rest = b @ nl @ renderRenameDirectives p @ rest"
    using b by (metis append_assoc)
  ultimately show ?thesis by (simp only: assms(2) option.map)
qed

definition people_plan :: resource_plan where
  "people_plan = empty_plan\<lparr>TableName := ''people'',
     Columns := [empty_column\<lparr>DBName := ''full_name'', SQLType := ''TEXT'', RenameFrom := ''name''\<rparr>]\<rparr>"

lemma no_marker: "CHR ''U'' \<notin> set s \<Longrightarrow> \<not> sublist rename_marker s"
  using set_mono_sublist [of rename_marker s] by auto

theorem rename_directives_roundtrip_witness:
  "map_option parseRenameDirectives (renderSchemaSQL people_plan)
   = Some [\<lparr>RenTable = ''people'', RenFrom = ''name'', RenTo = ''full_name''\<rparr>]"
proof -
  have "ddl_ready people_plan" by (simp add: ddl_ready_def people_plan_def empty_plan_def) code_simp
  moreover have "renderSchemaSQL people_plan
      = Some (ddl_header people_plan @ renderCreateTable people_plan @ renderRenameDirectives people_plan @ [])"
  proof -
    have "renderSupplementalUniques people_plan = []" "renderIndexes people_plan = Some []"
      "renderUniqueColumnIndexes people_plan = []" "renderJSONBPathIndexes people_plan = []"
      "renderJSONBGinIndexes people_plan = []" "renderForeignKeyIndexes people_plan = []"
      "renderRLS people_plan = []" "renderComments people_plan = []" "renderCustomSQL people_plan = []"
      by code_simp+
    then show ?thesis by (simp add: renderSchemaSQL_def)
  qed
  moreover have "CHR ''U'' \<notin> set (ddl_header people_plan)"
    by (simp add: ddl_header_def line_def em_dash_def people_plan_def empty_plan_def)
  moreover have "CHR ''U'' \<notin> set (renderCreateTable people_plan)" by code_simp
  ultimately show ?thesis
    using rename_directives_roundtrip [of people_plan "[]"] no_marker [of "[]"]
      no_marker [of "ddl_header people_plan @ renderCreateTable people_plan"]
    by (simp add: people_plan_def empty_plan_def empty_column_def)
qed

text \<open>
  C30: Discovery with \<^verbatim>\<open>--resources\<close> succeeds exactly when every file creates a table and every
  listed resource has exactly one file, and returns the files of those resources, sorted by table.
\<close>

theorem discovery_exact:
  assumes "resources \<noteq> []"
  shows "(\<exists>out. discoverPluginTables files resources = Ok out) =
      ((\<forall>f \<in> set files. extractTableName (Content f) \<noteq> None)
       \<and> (\<forall>r \<in> set resources. count_list (map (extractResourceFQN \<circ> Content) files) r = 1))
    \<and> (\<forall>out. discoverPluginTables files resources = Ok out \<longrightarrow>
      sorted (map ManagedTable out)
      \<and> mset (map DDLPath out) = mset (map FilePath (filter (\<lambda>f. extractResourceFQN (Content f) \<in> set resources) files)))"
proof -
  let ?m = "\<lambda>f. \<lparr>DDLPath = FilePath f, ManagedTable = the (extractTableName (Content f)),
      ManagedFQN = extractResourceFQN (Content f)\<rparr>"
  have one: "managed_of f = Ok t \<longleftrightarrow> extractTableName (Content f) \<noteq> None \<and> t = ?m f" for f t
    by (auto simp: managed_of_def split: option.splits)
  have all: "map_out managed_of fs = Ok ts \<longleftrightarrow> (\<forall>f \<in> set fs. extractTableName (Content f) \<noteq> None) \<and> ts = map ?m fs"
    for fs ts
    by (induction fs arbitrary: ts) (auto simp: go_simps one)
  have fqn: "map ManagedFQN (map ?m fs) = map (extractResourceFQN \<circ> Content) fs" for fs
    by simp
  have d: "discoverPluginTables files resources = Ok out \<longleftrightarrow>
      (\<forall>f \<in> set files. extractTableName (Content f) \<noteq> None)
      \<and> out = sort_key ManagedTable (filter (\<lambda>t. ManagedFQN t \<in> set resources) (map ?m files))
      \<and> (\<forall>r \<in> set resources. count_list (map (extractResourceFQN \<circ> Content) files) r = 1)" for out
  proof (cases "\<forall>f \<in> set files. extractTableName (Content f) \<noteq> None")
    case True
    with all have "map_out managed_of files = Ok (map ?m files)" by blast
    from discover_Ok [OF this assms] True show ?thesis unfolding fqn by blast
  next
    case False
    then show ?thesis by (auto simp: discoverPluginTables_def go_simps all)
  qed
  show ?thesis
  proof (intro conjI allI impI)
  show "(\<exists>out. discoverPluginTables files resources = Ok out) =
      ((\<forall>f \<in> set files. extractTableName (Content f) \<noteq> None)
       \<and> (\<forall>r \<in> set resources. count_list (map (extractResourceFQN \<circ> Content) files) r = 1))"
    using d by blast
next
  fix out assume "discoverPluginTables files resources = Ok out"
  with d have "out = sort_key ManagedTable (filter (\<lambda>t. ManagedFQN t \<in> set resources) (map ?m files))" by blast
  then show "sorted (map ManagedTable out)"
    and "mset (map DDLPath out) = mset (map FilePath (filter (\<lambda>f. extractResourceFQN (Content f) \<in> set resources) files))"
    by (simp_all add: filter_map comp_def multiset.map_comp)
  qed
qed

definition two_files :: "file_content list" where
  "two_files =
     [\<lparr>FilePath = ''z'', Content = ''-- Resource: lib.Z'' @ nl @ ''CREATE TABLE z ('' @ nl @ '');''\<rparr>,
      \<lparr>FilePath = ''a'', Content = ''-- Resource: lib.A'' @ nl @ ''CREATE TABLE a ('' @ nl @ '');''\<rparr>]"

theorem discovery_exact_witness:
  "(\<exists>out. discoverPluginTables two_files [''lib.A'', ''lib.Z''] = Ok out)
   \<and> \<not> (\<exists>out. discoverPluginTables two_files [''lib.A'', ''lib.B''] = Ok out)
   \<and> map_out managed_of two_files = Ok
       [\<lparr>DDLPath = ''z'', ManagedTable = ''z'', ManagedFQN = ''lib.Z''\<rparr>,
        \<lparr>DDLPath = ''a'', ManagedTable = ''a'', ManagedFQN = ''lib.A''\<rparr>]"
proof -
  have f: "map (extractResourceFQN \<circ> Content) two_files = [''lib.Z'', ''lib.A'']"
    "\<forall>f \<in> set two_files. extractTableName (Content f) \<noteq> None"
    "map_out managed_of two_files = Ok
       [\<lparr>DDLPath = ''z'', ManagedTable = ''z'', ManagedFQN = ''lib.Z''\<rparr>,
        \<lparr>DDLPath = ''a'', ManagedTable = ''a'', ManagedFQN = ''lib.A''\<rparr>]"
    by code_simp+
  show ?thesis
    using discovery_exact [of "[''lib.A'', ''lib.Z'']" two_files] discovery_exact [of "[''lib.A'', ''lib.B'']" two_files]
      f(2,3) unfolding f(1) by simp
qed

end
