(* ===== verification/Drift.thy ===== *)
theory Drift
  imports DDL_Read "HOL-Library.AList"
begin

text \<open>
  The drift check of \<^verbatim>\<open>check.go\<close> and the delta of \<^verbatim>\<open>migration_scaffold.go\<close>:
  snapshots of a table built from the rows PostgreSQL's catalog queries return, their
  normalisations, the comparison, and the list of differences. The queries themselves are left out:
  a \<open>catalog\<close> holds the rows they return for one table, in the order they return them.
\<close>

section \<open>Normalisation\<close>

definition array_type :: "string \<rightharpoonup> string" where
  "array_type = map_of
     [(''_text'', ''TEXT[]''), (''_bool'', ''BOOLEAN[]''), (''_int4'', ''INTEGER[]''),
      (''_int8'', ''BIGINT[]''), (''_float4'', ''REAL[]''), (''_float8'', ''DOUBLE PRECISION[]''),
      (''_bytea'', ''BYTEA[]''), (''_timestamptz'', ''TIMESTAMPTZ[]'')]"

definition plain_type :: "string \<rightharpoonup> string" where
  "plain_type = map_of
     [(''text'', ''TEXT''), (''jsonb'', ''JSONB''), (''timestamp with time zone'', ''TIMESTAMPTZ''),
      (''boolean'', ''BOOLEAN''), (''integer'', ''INTEGER''), (''bigint'', ''BIGINT''),
      (''bytea'', ''BYTEA''), (''real'', ''REAL''), (''double precision'', ''DOUBLE PRECISION'')]"

text \<open>Type names are ASCII, so that \<^verbatim>\<open>strings.ToUpper\<close> is \<open>upper_ascii\<close>.\<close>

definition normaliseSQLType :: "string \<Rightarrow> string \<Rightarrow> string" where
  "normaliseSQLType dataType udtName =
     (case (if dataType = ''ARRAY'' then array_type udtName else None) of
        Some t \<Rightarrow> t
      | None \<Rightarrow> (case plain_type dataType of Some t \<Rightarrow> t | None \<Rightarrow> upper_ascii dataType))"

definition normaliseDefault :: "string \<Rightarrow> string" where
  "normaliseDefault s = (case cut ''::'' s of Some (before, _) \<Rightarrow> trim_space before | None \<Rightarrow> trim_space s)"

text \<open>
  The scan of \<^verbatim>\<open>stripOuterParens\<close> over all bytes but the last: whether the parentheses
  close before the end.
\<close>

fun closes_early :: "int \<Rightarrow> string \<Rightarrow> bool" where
  "closes_early depth [] = False"
| "closes_early depth (c # s) =
     (if c = CHR ''('' then closes_early (depth + 1) s
      else if c = CHR '')'' then depth - 1 = 0 \<or> closes_early (depth - 1) s
      else closes_early depth s)"

lemma length_trim_space: "length (trim_space s) \<le> length s"
  using sublist_length_le [OF trim_space_sublist] .

function stripOuterParens :: "string \<Rightarrow> string" where
  "stripOuterParens s =
     (if length s \<ge> 2 \<and> hd s = CHR ''('' \<and> last s = CHR '')'' \<and> \<not> closes_early 0 (butlast s)
      then stripOuterParens (trim_space (butlast (tl s)))
      else s)"
  by pat_completeness auto
termination
proof (relation "measure length")
  fix s :: string
  assume "length s \<ge> 2 \<and> hd s = CHR ''('' \<and> last s = CHR '')'' \<and> \<not> closes_early 0 (butlast s)"
  then have "length (butlast (tl s)) < length s" by (cases s) auto
  then show "(trim_space (butlast (tl s)), s) \<in> measure length"
    using length_trim_space [of "butlast (tl s)"] by simp
qed simp

declare stripOuterParens.simps [simp del]

text \<open>\<^verbatim>\<open>strings.ReplaceAll\<close> for a pattern of more than one byte.\<close>

function replace_all :: "string \<Rightarrow> string \<Rightarrow> string \<Rightarrow> string" where
  "replace_all old new [] = []"
| "replace_all old new (c # s) =
     (if old \<noteq> [] \<and> prefix old (c # s) then new @ replace_all old new (drop (length old) (c # s))
      else c # replace_all old new s)"
  by pat_completeness auto
termination by (relation "measure (\<lambda>(old, new, s). length s)") auto

definition normaliseIndexDef :: "string \<Rightarrow> string" where
  "normaliseIndexDef s = join '' '' (str_fields (replace_all '' public.'' '' '' s))"

definition indent :: "string \<Rightarrow> string \<Rightarrow> string" where
  "indent s pre =
     trim_end (\<lambda>c. c = CHR 0x0A) (concat (map (\<lambda>line. pre @ line @ nl) (split_on CHR 0x0A s)))"

section \<open>Snapshots\<close>

record snap_column =
  ScName :: string
  ScType :: string
  ScNotNull :: bool
  ScDefault :: string
  ScComment :: string

record snap_check =
  CkName :: string
  CkBody :: string

record snap_index =
  SiName :: string
  SiSQL :: string

record snap_policy =
  PoName :: string
  PoRole :: string
  PoUsing :: string
  PoWithCheck :: string
  PoForCmd :: string

record snap_fk =
  SfName :: string
  SfBody :: string
  SfValidated :: bool
  SfHasBackingIndex :: bool

record table_snapshot =
  SnapColumns :: "snap_column list"
  SnapPrimaryKey :: "string list"
  SnapChecks :: "snap_check list"
  SnapIndexes :: "snap_index list"
  SnapRLSEnabled :: bool
  SnapPolicies :: "snap_policy list"
  SnapTableComment :: string
  SnapForeignKeys :: "snap_fk list"

definition empty_snapshot :: table_snapshot where
  "empty_snapshot = \<lparr>SnapColumns = [], SnapPrimaryKey = [], SnapChecks = [], SnapIndexes = [],
     SnapRLSEnabled = False, SnapPolicies = [], SnapTableComment = [], SnapForeignKeys = []\<rparr>"

text \<open>
  The rows of the queries: columns as (name, data type, udt name, nullable, default, comment),
  foreign keys as (name, definition, validated, local attribute numbers), the attribute names, the
  columns of the btree indexes, checks and indexes as (name, definition), and policies as
  (name, command, using, with check, role).
\<close>

record catalog =
  cat_columns :: "(string \<times> string \<times> string \<times> string \<times> string \<times> string) list"
  cat_primary_key :: "string list"
  cat_checks :: "(string \<times> string) list"
  cat_indexes :: "(string \<times> string) list"
  cat_rls :: bool
  cat_policies :: "(string \<times> string \<times> string \<times> string \<times> string) list"
  cat_comment :: string
  cat_foreign_keys :: "(string \<times> string \<times> bool \<times> int list) list"
  cat_attributes :: "(int \<times> string) list"
  cat_btrees :: "string list list"

fun fetch_column :: "string \<times> string \<times> string \<times> string \<times> string \<times> string \<Rightarrow> snap_column" where
  "fetch_column (name, dataType, udt, isNullable, dflt, comment) =
     \<lparr>ScName = name, ScType = normaliseSQLType dataType udt, ScNotNull = (isNullable = ''NO''),
      ScDefault = normaliseDefault dflt, ScComment = comment\<rparr>"

fun fetch_check :: "string \<times> string \<Rightarrow> snap_check" where
  "fetch_check (name, def) =
     \<lparr>CkName = name, CkBody = stripOuterParens (trim_space (trim_prefix ''CHECK '' def))\<rparr>"

fun fetch_index :: "string \<times> string \<Rightarrow> snap_index" where
  "fetch_index (name, def) = \<lparr>SiName = name, SiSQL = normaliseIndexDef def\<rparr>"

fun fetch_policy :: "string \<times> string \<times> string \<times> string \<times> string \<Rightarrow> snap_policy" where
  "fetch_policy (name, cmd, using_clause, withCheck, role) =
     \<lparr>PoName = name, PoRole = role, PoUsing = stripOuterParens using_clause,
      PoWithCheck = stripOuterParens withCheck, PoForCmd = cmd\<rparr>"

text \<open>The query joins an index's columns with commas before the Go code compares.\<close>

definition hasBackingIndex :: "string list list \<Rightarrow> string list \<Rightarrow> bool" where
  "hasBackingIndex btrees localCols \<longleftrightarrow>
     localCols \<noteq> [] \<and>
     (let pre = join '','' localCols in
      \<exists>cols \<in> set (map (join '','') btrees). cols = pre \<or> prefix (pre @ '','') cols)"

fun lookup_columns :: "(int \<times> string) list \<Rightarrow> int list \<Rightarrow> (int, string list) outcome" where
  "lookup_columns attrs [] = Ok []"
| "lookup_columns attrs (i # is) =
     (case map_of attrs i of
        None \<Rightarrow> Err i
      | Some name \<Rightarrow> and_then (lookup_columns attrs is) (\<lambda>names. Ok (name # names)))"

fun fetch_fk :: "catalog \<Rightarrow> string \<times> string \<times> bool \<times> int list \<Rightarrow> (string \<times> int, snap_fk) outcome" where
  "fetch_fk cat (name, def, validated, conkey) =
     and_then (map_err (Pair name) (lookup_columns (cat_attributes cat) conkey)) (\<lambda>localCols.
     Ok \<lparr>SfName = name, SfBody = trim_space (trim_prefix ''FOREIGN KEY '' def),
         SfValidated = validated, SfHasBackingIndex = hasBackingIndex (cat_btrees cat) localCols\<rparr>)"

definition snapshotTable :: "catalog \<Rightarrow> (string \<times> int, table_snapshot) outcome" where
  "snapshotTable cat =
     (let cols = map fetch_column (cat_columns cat) in
      if cols = [] then Ok empty_snapshot
      else and_then (map_out (fetch_fk cat) (cat_foreign_keys cat)) (\<lambda>fks.
        Ok \<lparr>SnapColumns = sort_key ScName cols, SnapPrimaryKey = cat_primary_key cat,
            SnapChecks = map fetch_check (cat_checks cat),
            SnapIndexes = map fetch_index (cat_indexes cat), SnapRLSEnabled = cat_rls cat,
            SnapPolicies = map fetch_policy (cat_policies cat),
            SnapTableComment = cat_comment cat, SnapForeignKeys = fks\<rparr>))"

section \<open>The check\<close>

text \<open>
  \<^verbatim>\<open>cmp.Diff\<close> is empty exactly on equal snapshots (the slices of both sides come from the
  same code, so that an empty one is nil on both or on neither).
\<close>

datatype table_drift = MissingOnMigrationsSide | SchemaDiffers

definition check_table :: "table_snapshot \<Rightarrow> table_snapshot \<Rightarrow> table_drift option" where
  "check_table expected actual =
     (if SnapColumns actual = [] then Some MissingOnMigrationsSide
      else if expected \<noteq> actual then Some SchemaDiffers else None)"

definition check_failures ::
  "(plugin_managed \<times> table_snapshot \<times> table_snapshot) list \<Rightarrow> (string \<times> table_drift) list" where
  "check_failures tables =
     List.map_filter (\<lambda>(t, expected, actual).
       map_option (Pair (ManagedTable t)) (check_table expected actual)) tables"

section \<open>The delta\<close>

definition indexBy :: "('a \<Rightarrow> string) \<Rightarrow> 'a list \<Rightarrow> (string \<times> 'a) list" where
  "indexBy key items = foldl (\<lambda>m it. AList.update (key it) it m) [] items"

definition diff_line :: "string \<Rightarrow> string \<Rightarrow> (string \<times> 'a) list \<Rightarrow> (string \<times> 'a) list \<Rightarrow> string \<Rightarrow> string option" where
  "diff_line table kind cur tgt n =
     (let tail = kind @ '' '' @ table @ ''.'' @ n in
      case (map_of cur n, map_of tgt n) of
        (None, Some _) \<Rightarrow> Some (''+ '' @ tail)
      | (Some _, None) \<Rightarrow> Some (''- '' @ tail)
      | (c, t) \<Rightarrow> if c \<noteq> t then Some (''~ '' @ tail) else None)"

definition diffNamed :: "string \<Rightarrow> string \<Rightarrow> (string \<times> 'a) list \<Rightarrow> (string \<times> 'a) list \<Rightarrow> string list" where
  "diffNamed table kind cur tgt =
     List.map_filter (diff_line table kind cur tgt) (sort (remdups (map fst cur @ map fst tgt)))"

definition hazard_line :: "string \<Rightarrow> string" where
  "hazard_line table =
     ''  HAZARD: '' @ table @ '' '' @ em_dash @ '' ADD CONSTRAINT takes ACCESS EXCLUSIVE + full table scan. Author as `ALTER TABLE '' @
     table @ '' ADD CONSTRAINT <name> FOREIGN KEY ... NOT VALID;` then `ALTER TABLE '' @
     table @ '' VALIDATE CONSTRAINT <name>;` in a follow-up migration.''"

definition computeTableDelta :: "string \<Rightarrow> table_snapshot \<Rightarrow> table_snapshot \<Rightarrow> string list" where
  "computeTableDelta table current target =
     diffNamed table ''column'' (indexBy ScName (SnapColumns current)) (indexBy ScName (SnapColumns target))
     @ diffNamed table ''check'' (indexBy CkName (SnapChecks current)) (indexBy CkName (SnapChecks target))
     @ diffNamed table ''index'' (indexBy SiName (SnapIndexes current)) (indexBy SiName (SnapIndexes target))
     @ diffNamed table ''policy'' (indexBy PoName (SnapPolicies current)) (indexBy PoName (SnapPolicies target))
     @ concat (map (\<lambda>line. line # (if prefix ''+ fk '' line then [hazard_line table] else []))
         (diffNamed table ''fk'' (indexBy SfName (SnapForeignKeys current)) (indexBy SfName (SnapForeignKeys target))))
     @ (if join '','' (SnapPrimaryKey current) \<noteq> join '','' (SnapPrimaryKey target)
        then [''~ primary_key '' @ table] else [])
     @ (if SnapRLSEnabled current \<noteq> SnapRLSEnabled target then [''~ rls '' @ table] else [])
     @ (if SnapTableComment current \<noteq> SnapTableComment target then [''~ table_comment '' @ table] else [])"

definition table_delta :: "string \<Rightarrow> table_snapshot \<Rightarrow> table_snapshot \<Rightarrow> string list" where
  "table_delta table current target =
     (if SnapColumns current = []
      then [''+ table '' @ table @ '' (new '' @ em_dash @ '' see TARGET for full CREATE)'']
      else computeTableDelta table current target)"

definition commentBlock :: "string \<Rightarrow> string" where
  "commentBlock s = concat (map (\<lambda>l. line (''-- '' @ l)) (split_on CHR 0x0A s))"

section \<open>An empty delta is an unchanged table\<close>

lemma map_filter_Nil: "List.map_filter f xs = [] \<longleftrightarrow> (\<forall>x \<in> set xs. f x = None)"
  by (auto simp: List.map_filter_def filter_empty_conv)

lemma diff_line_None: "diff_line table kind cur tgt n = None \<longleftrightarrow> map_of cur n = map_of tgt n"
  by (auto simp: diff_line_def Let_def split: option.splits)

lemma diffNamed_Nil: "diffNamed table kind cur tgt = [] \<longleftrightarrow> map_of cur = map_of tgt"
proof -
  have "map_of cur n = None \<and> map_of tgt n = None" if "n \<notin> fst ` set cur \<union> fst ` set tgt" for n
    using that by (simp add: map_of_eq_None_iff)
  then show ?thesis
    by (force simp: diffNamed_def map_filter_Nil diff_line_None fun_eq_iff)
qed

lemma indexBy_lookup:
  assumes "distinct (map key xs)"
  shows "map_of (indexBy key xs) n = Some x \<longleftrightarrow> x \<in> set xs \<and> key x = n"
proof -
  have "map_of (foldl (\<lambda>m it. AList.update (key it) it m) m xs) n = Some x \<longleftrightarrow>
      (x \<in> set xs \<and> key x = n) \<or> (n \<notin> key ` set xs \<and> map_of m n = Some x)" for m
    using assms by (induction xs arbitrary: m) (auto simp: update_conv)
  then show ?thesis by (simp add: indexBy_def)
qed

lemma indexBy_eq:
  assumes "distinct (map key xs)" "distinct (map key ys)"
  shows "map_of (indexBy key xs) = map_of (indexBy key ys) \<longleftrightarrow> set xs = set ys"
proof
  assume "map_of (indexBy key xs) = map_of (indexBy key ys)"
  then have "x \<in> set xs \<longleftrightarrow> x \<in> set ys" for x
    using indexBy_lookup [OF assms(1), of "key x" x] indexBy_lookup [OF assms(2), of "key x" x] by simp
  then show "set xs = set ys" by blast
next
  assume s: "set xs = set ys"
  have "map_of (indexBy key xs) n = map_of (indexBy key ys) n" for n
    by (cases "map_of (indexBy key xs) n"; cases "map_of (indexBy key ys) n")
      (use indexBy_lookup [OF assms(1)] indexBy_lookup [OF assms(2)] s in \<open>auto; metis option.discI\<close>)+
  then show "map_of (indexBy key xs) = map_of (indexBy key ys)" by blast
qed

text \<open>
  The catalog queries order by name, in an order of the database's own. Under such an order a list of
  objects with distinct names is determined by its elements.
\<close>

definition collation :: "(string \<Rightarrow> string \<Rightarrow> bool) \<Rightarrow> bool" where
  "collation lt \<longleftrightarrow> (\<forall>a. \<not> lt a a) \<and> (\<forall>a b c. lt a b \<longrightarrow> lt b c \<longrightarrow> lt a c)"

definition named_in_order :: "(string \<Rightarrow> string \<Rightarrow> bool) \<Rightarrow> ('a \<Rightarrow> string) \<Rightarrow> 'a list \<Rightarrow> bool" where
  "named_in_order lt key xs \<longleftrightarrow> sorted_wrt (\<lambda>x y. lt (key x) (key y)) xs"

lemma named_in_order_unique:
  assumes lt: "collation lt"
    and "named_in_order lt key xs" "named_in_order lt key ys" "set xs = set ys"
  shows "xs = ys"
  using assms(2-4)
proof (induction xs arbitrary: ys)
  case (Cons x xs)
  then obtain y ys' where y: "ys = y # ys'" by (cases ys) auto
  have xs: "\<forall>z \<in> set xs. lt (key x) (key z)" "named_in_order lt key xs"
    and ys: "\<forall>z \<in> set ys'. lt (key y) (key z)" "named_in_order lt key ys'"
    using Cons(2,3) y by (auto simp: named_in_order_def)
  have "x = y"
  proof (rule ccontr)
    assume "x \<noteq> y"
    with Cons(4) y have "y \<in> set xs" "x \<in> set ys'" by auto
    then show False using xs(1) ys(1) lt unfolding collation_def by blast
  qed
  moreover have "set xs = set ys'"
  proof -
    have "x \<notin> set xs" "x \<notin> set ys'" using xs(1) ys(1) lt \<open>x = y\<close> by (auto simp: collation_def)
    with Cons(4) y \<open>x = y\<close> show ?thesis by auto
  qed
  ultimately show ?case using Cons(1) [OF xs(2) ys(2)] y by simp
qed simp

lemma named_distinct:
  assumes "collation lt" "named_in_order lt key xs"
  shows "distinct (map key xs)"
  using assms(2)
proof (induction xs)
  case (Cons x xs)
  then show ?case using assms(1) by (force simp: named_in_order_def collation_def)
qed simp

lemma join_comma_inj:
  assumes "\<forall>w \<in> set xs \<union> set ys. w \<noteq> [] \<and> CHR '','' \<notin> set w" "join '','' xs = join '','' ys"
  shows "xs = ys"
proof -
  have nil: "join '','' zs = [] \<longleftrightarrow> zs = []" if "\<forall>w \<in> set zs. w \<noteq> []" for zs
    using that by (cases "('','', zs)" rule: join.cases) auto
  show ?thesis
  proof (cases "xs = [] \<or> ys = []")
    case True
    with assms(2) have "join '','' xs = []" "join '','' ys = []" by auto
    with assms(1) nil [of xs] nil [of ys] show ?thesis by simp
  next
    case False
    have "split_on CHR '','' (join '','' zs) = zs" if "zs \<noteq> []" "set zs \<subseteq> set xs \<union> set ys" for zs
      using that assms(1) by (intro split_on_join) auto
    from this [of xs] this [of ys] False assms(2) show ?thesis by (metis Un_upper1 Un_upper2)
  qed
qed

definition snapshot_wf :: "(string \<Rightarrow> string \<Rightarrow> bool) \<Rightarrow> table_snapshot \<Rightarrow> bool" where
  "snapshot_wf lt s \<longleftrightarrow>
     named_in_order (<) ScName (SnapColumns s) \<and> named_in_order lt CkName (SnapChecks s)
     \<and> named_in_order lt SiName (SnapIndexes s) \<and> named_in_order lt PoName (SnapPolicies s)
     \<and> named_in_order lt SfName (SnapForeignKeys s)
     \<and> (\<forall>w \<in> set (SnapPrimaryKey s). w \<noteq> [] \<and> CHR '','' \<notin> set w)"

lemma section_same:
  assumes "collation lt" "named_in_order lt key xs" "named_in_order lt key ys"
  shows "diffNamed table kind (indexBy key xs) (indexBy key ys) = [] \<longleftrightarrow> xs = ys"
proof -
  have "set xs = set ys \<longleftrightarrow> xs = ys"
    using named_in_order_unique [OF assms] by blast
  then show ?thesis
    using indexBy_eq [OF named_distinct [OF assms(1,2)] named_distinct [OF assms(1,3)]]
    by (simp add: diffNamed_Nil)
qed

lemma byte_collation: "collation ((<) :: string \<Rightarrow> string \<Rightarrow> bool)"
  by (auto simp: collation_def)

lemma delta_Nil:
  assumes "collation lt" "snapshot_wf lt cur" "snapshot_wf lt tgt"
  shows "computeTableDelta table cur tgt = [] \<longleftrightarrow> cur = tgt"
proof -
  have hazards: "concat (map (\<lambda>line. line # f line) ls) = [] \<longleftrightarrow> ls = []" for f :: "string \<Rightarrow> string list" and ls
    by (cases ls) auto
  have pk: "join '','' (SnapPrimaryKey cur) = join '','' (SnapPrimaryKey tgt) \<longleftrightarrow> SnapPrimaryKey cur = SnapPrimaryKey tgt"
    using assms(2,3) join_comma_inj [of "SnapPrimaryKey cur" "SnapPrimaryKey tgt"] by (auto simp: snapshot_wf_def)
  have same: "diffNamed table k (indexBy ScName (SnapColumns cur)) (indexBy ScName (SnapColumns tgt)) = []
      \<longleftrightarrow> SnapColumns cur = SnapColumns tgt"
    "diffNamed table k (indexBy CkName (SnapChecks cur)) (indexBy CkName (SnapChecks tgt)) = []
      \<longleftrightarrow> SnapChecks cur = SnapChecks tgt"
    "diffNamed table k (indexBy SiName (SnapIndexes cur)) (indexBy SiName (SnapIndexes tgt)) = []
      \<longleftrightarrow> SnapIndexes cur = SnapIndexes tgt"
    "diffNamed table k (indexBy PoName (SnapPolicies cur)) (indexBy PoName (SnapPolicies tgt)) = []
      \<longleftrightarrow> SnapPolicies cur = SnapPolicies tgt"
    "diffNamed table k (indexBy SfName (SnapForeignKeys cur)) (indexBy SfName (SnapForeignKeys tgt)) = []
      \<longleftrightarrow> SnapForeignKeys cur = SnapForeignKeys tgt" for k
    by (rule section_same [OF byte_collation] section_same [OF assms(1)];
        use assms(2,3) in \<open>simp add: snapshot_wf_def\<close>)+
  show ?thesis
    unfolding computeTableDelta_def append_is_Nil_conv hazards same pk
    by (auto split: if_splits intro: table_snapshot.equality)
qed

section \<open>Snapshots of ordered catalogs\<close>

text \<open>
  What the queries guarantee: rows ordered by name, names distinct, column names without commas in
  the primary key.
\<close>

definition catalog_ordered :: "(string \<Rightarrow> string \<Rightarrow> bool) \<Rightarrow> catalog \<Rightarrow> bool" where
  "catalog_ordered lt cat \<longleftrightarrow>
     distinct (map fst (cat_columns cat)) \<and> named_in_order lt fst (cat_checks cat)
     \<and> named_in_order lt fst (cat_indexes cat) \<and> named_in_order lt fst (cat_policies cat)
     \<and> named_in_order lt fst (cat_foreign_keys cat)
     \<and> (\<forall>w \<in> set (cat_primary_key cat). w \<noteq> [] \<and> CHR '','' \<notin> set w)"

lemma fetch_names:
  "ScName (fetch_column r) = fst r" "CkName (fetch_check q) = fst q" "SiName (fetch_index q) = fst q"
  "PoName (fetch_policy w) = fst w" "fetch_fk cat y = Ok fk \<Longrightarrow> SfName fk = fst y"
  by (cases r, simp) (cases q, simp, cases q, simp, cases w, simp, cases y, auto simp: go_simps)

lemma named_in_order_map:
  "named_in_order lt key (map f xs) \<longleftrightarrow> named_in_order lt (key \<circ> f) xs"
  by (simp add: named_in_order_def sorted_wrt_map)

lemma snapshot_of_catalog:
  assumes "catalog_ordered lt cat" "snapshotTable cat = Ok s"
  shows "snapshot_wf lt s"
proof (cases "cat_columns cat = []")
  case True
  with assms(2) have "s = empty_snapshot" by (simp add: snapshotTable_def)
  then show ?thesis by (simp add: snapshot_wf_def empty_snapshot_def named_in_order_def)
next
  case False
  let ?cols = "map fetch_column (cat_columns cat)"
  obtain fks where fks: "map_out (fetch_fk cat) (cat_foreign_keys cat) = Ok fks"
    and s: "s = \<lparr>SnapColumns = sort_key ScName ?cols, SnapPrimaryKey = cat_primary_key cat,
            SnapChecks = map fetch_check (cat_checks cat),
            SnapIndexes = map fetch_index (cat_indexes cat), SnapRLSEnabled = cat_rls cat,
            SnapPolicies = map fetch_policy (cat_policies cat),
            SnapTableComment = cat_comment cat, SnapForeignKeys = fks\<rparr>"
    using False assms(2) by (auto simp: snapshotTable_def Let_def go_simps)
  have "map_out (fetch_fk cat) rows = Ok ks \<Longrightarrow> map SfName ks = map fst rows" for rows ks
    by (induction rows arbitrary: ks) (auto simp: go_simps fetch_names simp del: fetch_fk.simps)
  from this [OF fks] have "map SfName fks = map fst (cat_foreign_keys cat)" .
  then have "named_in_order lt SfName fks"
    using assms(1) by (metis catalog_ordered_def named_in_order_def sorted_wrt_map)
  moreover have "distinct (map ScName ?cols)"
    using assms(1) by (simp add: catalog_ordered_def comp_def fetch_names)
  then have "distinct (map ScName (sort_key ScName ?cols))"
    by (simp only: distinct_map distinct_sort set_sort)
  then have "named_in_order (<) ScName (sort_key ScName ?cols)"
    unfolding named_in_order_def sorted_wrt_map [symmetric] strict_sorted_iff by simp
  ultimately show ?thesis
    using assms(1) by (simp add: snapshot_wf_def s catalog_ordered_def named_in_order_map comp_def fetch_names)
qed

section \<open>Parentheses\<close>

text \<open>Balanced from a given depth.\<close>

fun balanced :: "nat \<Rightarrow> string \<Rightarrow> bool" where
  "balanced d [] \<longleftrightarrow> d = 0"
| "balanced d (c # s) \<longleftrightarrow>
     (if c = CHR ''('' then balanced (Suc d) s
      else if c = CHR '')'' then d > 0 \<and> balanced (d - 1) s
      else balanced d s)"

lemma balanced_not_early: "balanced d s \<Longrightarrow> \<not> closes_early (int d + 1) s"
proof (induction d s rule: balanced.induct)
  case (2 d c s)
  then show ?case by (cases d) (auto split: if_splits simp: add.commute)
qed simp

lemma strip_wrapped:
  assumes "balanced 0 s"
  shows "stripOuterParens (''('' @ s @ '')'') = stripOuterParens (trim_space s)"
proof -
  have "butlast (''('' @ s @ '')'') = CHR ''('' # s" by (simp add: butlast_append)
  moreover have "\<not> closes_early 0 (CHR ''('' # s)" using balanced_not_early [OF assms] by simp
  ultimately show ?thesis
    by (subst stripOuterParens.simps) (simp add: butlast_append)
qed

lemma strip_fixed:
  "\<not> (length (stripOuterParens s) \<ge> 2 \<and> hd (stripOuterParens s) = CHR ''(''
      \<and> last (stripOuterParens s) = CHR '')'' \<and> \<not> closes_early 0 (butlast (stripOuterParens s)))"
proof (induction s rule: stripOuterParens.induct)
  case (1 s)
  show ?case
  proof (cases "length s \<ge> 2 \<and> hd s = CHR ''('' \<and> last s = CHR '')'' \<and> \<not> closes_early 0 (butlast s)")
    case True
    then have "stripOuterParens s = stripOuterParens (trim_space (butlast (tl s)))"
      by (subst stripOuterParens.simps) simp
    with 1 [OF True] show ?thesis by simp
  next
    case False
    then have "stripOuterParens s = s" by (subst stripOuterParens.simps) auto
    with False show ?thesis by simp
  qed
qed

lemma strip_idem: "stripOuterParens (stripOuterParens s) = stripOuterParens s"
  using strip_fixed [of s] by (subst stripOuterParens.simps) auto

section \<open>Names joined by commas\<close>

definition plain_names :: "string list \<Rightarrow> bool" where
  "plain_names ws \<longleftrightarrow> (\<forall>w \<in> set ws. w \<noteq> [] \<and> CHR '','' \<notin> set w)"

lemma join_append:
  "xs \<noteq> [] \<Longrightarrow> ys \<noteq> [] \<Longrightarrow> join sep (xs @ ys) = join sep xs @ sep @ join sep ys"
proof (induction sep xs rule: join.induct)
  case (2 sep s)
  then show ?case by (cases ys) auto
qed auto

lemma joined_prefix:
  assumes "plain_names xs" "plain_names ys" "xs \<noteq> []"
  shows "join '','' ys = join '','' xs \<or> prefix (join '','' xs @ '','') (join '','' ys) \<longleftrightarrow> prefix xs ys"
proof
  have sp: "split_on CHR '','' (join '','' zs) = zs" if "plain_names zs" "zs \<noteq> []" for zs
    using that by (intro split_on_join) (auto simp: plain_names_def)
  assume l: "join '','' ys = join '','' xs \<or> prefix (join '','' xs @ '','') (join '','' ys)"
  have "ys \<noteq> []"
  proof
    assume "ys = []"
    with l have "join '','' xs = []" by auto
    with assms(1,3) show False by (cases "('','', xs)" rule: join.cases) (auto simp: plain_names_def)
  qed
  note sp = sp [OF assms(1,3)] sp [OF assms(2) this]
  from l consider "join '','' ys = join '','' xs" | z where "join '','' ys = join '','' xs @ CHR '','' # z"
    by (auto simp: prefix_def)
  then show "prefix xs ys"
  proof cases
    case 1
    with sp have "ys = xs" by metis
    then show ?thesis by simp
  next
    case 2
    then have "ys = xs @ split_on CHR '','' z"
      using sp split_on_two [of "CHR '',''" "join '','' xs" z] by simp
    then show ?thesis by simp
  qed
next
  assume "prefix xs ys"
  then obtain zs where "ys = xs @ zs" by (auto simp: prefix_def)
  with assms(3) show "join '','' ys = join '','' xs \<or> prefix (join '','' xs @ '','') (join '','' ys)"
    by (cases "zs = []") (auto simp: join_append)
qed

section \<open>Properties\<close>

lemma table_delta_Nil:
  assumes "collation lt" "catalog_ordered lt ddl" "catalog_ordered lt migrations"
    and "snapshotTable ddl = Ok target" "snapshotTable migrations = Ok current"
  shows "table_delta table current target = [] \<longleftrightarrow> check_table target current = None"
  using delta_Nil [OF assms(1) snapshot_of_catalog [OF assms(3,5)] snapshot_of_catalog [OF assms(2,4)]]
  by (auto simp: table_delta_def check_table_def)

text \<open>
  C14: The two commands agree: on the catalogs of the two databases, the delta the diff command
  lists for a table is empty exactly when the check command reports no drift for it.
\<close>

theorem delta_empty_iff_no_drift:
  assumes "collation lt" "catalog_ordered lt ddl" "catalog_ordered lt migrations"
    and "snapshotTable ddl = Ok target" "snapshotTable migrations = Ok current"
  shows "table_delta table current target = [] \<longleftrightarrow> check_table target current = None"
  by (rule table_delta_Nil [OF assms])

definition runs_catalog :: "string \<Rightarrow> catalog" where
  "runs_catalog d = \<lparr>cat_columns = [(''state'', ''text'', ''text'', ''NO'', d, []), (''id'', ''bigint'', ''int8'', ''NO'', [], [])],
     cat_primary_key = [''id''], cat_checks = [(''runs_id_check'', ''CHECK ((id > 0))'')],
     cat_indexes = [], cat_rls = False, cat_policies = [], cat_comment = [],
     cat_foreign_keys = [(''runs_state_fkey'', ''FOREIGN KEY (state) REFERENCES states(name)'', True, [2])],
     cat_attributes = [(1, ''id''), (2, ''state'')], cat_btrees = [[''id''], [''state'', ''id'']]\<rparr>"

definition snap_of :: "catalog \<Rightarrow> table_snapshot" where
  "snap_of cat = (case snapshotTable cat of Ok s \<Rightarrow> s | _ \<Rightarrow> empty_snapshot)"

theorem delta_empty_iff_no_drift_witness:
  "table_delta ''runs'' (snap_of (runs_catalog (quoted ''new''))) (snap_of (runs_catalog (quoted ''old''))) = [''~ column runs.state'']
   \<and> check_table (snap_of (runs_catalog (quoted ''old''))) (snap_of (runs_catalog (quoted ''new''))) \<noteq> None
   \<and> check_table (snap_of (runs_catalog (quoted ''old''))) (snap_of (runs_catalog (quoted ''old''))) = None"
proof -
  have o: "catalog_ordered (<) (runs_catalog d)" for d
    by (simp add: catalog_ordered_def runs_catalog_def named_in_order_def)
  have ok: "snapshotTable (runs_catalog (quoted ''old'')) = Ok (snap_of (runs_catalog (quoted ''old'')))"
    "snapshotTable (runs_catalog (quoted ''new'')) = Ok (snap_of (runs_catalog (quoted ''new'')))"
    by code_simp+
  have delta: "table_delta ''runs'' (snap_of (runs_catalog (quoted ''new''))) (snap_of (runs_catalog (quoted ''old''))) = [''~ column runs.state'']"
    "table_delta ''runs'' (snap_of (runs_catalog (quoted ''old''))) (snap_of (runs_catalog (quoted ''old''))) = []"
    by code_simp+
  from delta_empty_iff_no_drift [OF byte_collation o o ok(1) ok(2), of "''runs''"]
    delta_empty_iff_no_drift [OF byte_collation o o ok(1) ok(1), of "''runs''"] delta
  show ?thesis by simp
qed

text \<open>
  How PostgreSQL's \<^verbatim>\<open>information_schema\<close> names a column type: the data type and the udt
  name, for each SQL type the generator writes.
\<close>

definition postgres_type_names :: "(string \<Rightarrow> string \<times> string) \<Rightarrow> bool" where
  "postgres_type_names meta \<longleftrightarrow>
     meta ''TEXT'' = (''text'', ''text'') \<and> meta ''BOOLEAN'' = (''boolean'', ''bool'')
     \<and> meta ''INTEGER'' = (''integer'', ''int4'') \<and> meta ''BIGINT'' = (''bigint'', ''int8'')
     \<and> meta ''BYTEA'' = (''bytea'', ''bytea'') \<and> meta ''REAL'' = (''real'', ''float4'')
     \<and> meta ''DOUBLE PRECISION'' = (''double precision'', ''float8'')
     \<and> meta ''TIMESTAMPTZ'' = (''timestamp with time zone'', ''timestamptz'')
     \<and> meta ''JSONB'' = (''jsonb'', ''jsonb'') \<and> meta ''TEXT[]'' = (''ARRAY'', ''_text'')
     \<and> meta ''BOOLEAN[]'' = (''ARRAY'', ''_bool'') \<and> meta ''INTEGER[]'' = (''ARRAY'', ''_int4'')
     \<and> meta ''BIGINT[]'' = (''ARRAY'', ''_int8'') \<and> meta ''REAL[]'' = (''ARRAY'', ''_float4'')
     \<and> meta ''DOUBLE PRECISION[]'' = (''ARRAY'', ''_float8'')
     \<and> meta ''TIMESTAMPTZ[]'' = (''ARRAY'', ''_timestamptz'')"

lemma type_names_back:
  assumes "postgres_type_names meta" "t \<in> set (kind_sql k) \<or> t = ''TEXT'' \<or> t = ''JSONB''"
  shows "normaliseSQLType (fst (meta t)) (snd (meta t)) = t"
proof -
  have "t \<in> {''TEXT'', ''BOOLEAN'', ''INTEGER'', ''BIGINT'', ''BYTEA'', ''REAL'', ''DOUBLE PRECISION'', ''TIMESTAMPTZ'',
      ''JSONB'', ''TEXT[]'', ''BOOLEAN[]'', ''INTEGER[]'', ''BIGINT[]'', ''REAL[]'', ''DOUBLE PRECISION[]'', ''TIMESTAMPTZ[]''}"
    using assms(2) by (cases k) (auto split: repeated_kind.splits)
  then show ?thesis
    using assms(1) unfolding postgres_type_names_def
    by (elim insertE emptyE conjE) (simp_all add: normaliseSQLType_def array_type_def plain_type_def)
qed

text \<open>
  C29: For every column of an accepted resource, what the catalog says of the type the generator
  wrote normalises back to that type: a column never drifts from itself.
\<close>

theorem emitted_type_reads_back:
  assumes "postgres_type_names meta" "resolveResource mp m = Ok (Some p)" "c \<in> set (Columns p)"
  shows "ScType (fetch_column (DBName c, fst (meta (SQLType c)), snd (meta (SQLType c)), nullable, dflt, comment)) = SQLType c"
proof -
  have "SQLType c \<in> set (kind_sql (Kind c)) \<or> SQLType c = ''TEXT''"
    using resolved_column [OF assms(2,3)] resolved_column_wf
    by (auto simp: column_wf_def scope_columns_def synthesised_column_def split: if_splits)
  then show ?thesis using type_names_back [OF assms(1)] by auto
qed

definition pg_names :: "string \<Rightarrow> string \<times> string" where
  "pg_names t = the (map_of
     [(''TEXT'', ''text'', ''text''), (''BOOLEAN'', ''boolean'', ''bool''), (''INTEGER'', ''integer'', ''int4''),
      (''BIGINT'', ''bigint'', ''int8''), (''BYTEA'', ''bytea'', ''bytea''), (''REAL'', ''real'', ''float4''),
      (''DOUBLE PRECISION'', ''double precision'', ''float8''),
      (''TIMESTAMPTZ'', ''timestamp with time zone'', ''timestamptz''), (''JSONB'', ''jsonb'', ''jsonb''),
      (''TEXT[]'', ''ARRAY'', ''_text''), (''BOOLEAN[]'', ''ARRAY'', ''_bool''), (''INTEGER[]'', ''ARRAY'', ''_int4''),
      (''BIGINT[]'', ''ARRAY'', ''_int8''), (''REAL[]'', ''ARRAY'', ''_float4''),
      (''DOUBLE PRECISION[]'', ''ARRAY'', ''_float8''), (''TIMESTAMPTZ[]'', ''ARRAY'', ''_timestamptz'')] t)"

theorem emitted_type_reads_back_witness:
  "Columns sample_resource \<noteq> []
   \<and> map (\<lambda>c. ScType (fetch_column (DBName c, fst (pg_names (SQLType c)), snd (pg_names (SQLType c)), ''NO'', [], [])))
         (Columns sample_resource) = map SQLType (Columns sample_resource)"
proof -
  have "postgres_type_names pg_names" by (simp add: postgres_type_names_def pg_names_def)
  moreover have "Columns sample_resource \<noteq> []" by code_simp
  ultimately show ?thesis using emitted_type_reads_back [OF _ sample_resource_resolved]
    by (simp only: map_eq_conv) blast
qed

text \<open>
  \<open>stripOuterParens\<close> stops with an expression that has no outer pair left, and one more outer
  pair around a balanced expression makes no difference to the comparison.
\<close>

theorem stripOuterParens_normal:
  "stripOuterParens (stripOuterParens s) = stripOuterParens s
   \<and> (balanced 0 s \<longrightarrow> stripOuterParens (''('' @ s @ '')'') = stripOuterParens (trim_space s))"
  using strip_idem strip_wrapped by blast

theorem stripOuterParens_normal_witness:
  "stripOuterParens ''((a = (b)) )'' = ''a = (b)'' \<and> stripOuterParens ''(a) OR (b)'' = ''(a) OR (b)''"
proof -
  have "stripOuterParens ''((a = (b)) )'' = stripOuterParens (trim_space ''(a = (b)) '')"
    using stripOuterParens_normal [of "''(a = (b)) ''"] by simp
  also have "trim_space ''(a = (b)) '' = ''(a = (b))''" by code_simp
  also have "stripOuterParens ''(a = (b))'' = stripOuterParens (trim_space ''a = (b)'')"
    using stripOuterParens_normal [of "''a = (b)''"] by simp
  also have "trim_space ''a = (b)'' = ''a = (b)''" by code_simp
  also have "stripOuterParens ''a = (b)'' = ''a = (b)''" by (subst stripOuterParens.simps) simp
  finally show ?thesis by (simp add: stripOuterParens.simps)
qed

text \<open>
  \<open>normaliseDefault\<close> cuts a default at its first double colon, inside a string literal too: the
  check takes two different defaults for the same one.
\<close>

theorem normaliseDefault_blind:
  "normaliseDefault (a @ ''::'' @ x) = normaliseDefault (a @ ''::'' @ y)
   \<and> normaliseDefault (quoted ''a::b'' @ ''::text'') = normaliseDefault (quoted ''a::c'' @ ''::text'')"
proof -
  have "\<exists>u v w. cut ''::'' (a @ ''::'' @ x) = Some (u, v) \<and> cut ''::'' (a @ ''::'' @ y) = Some (u, w)" for x y
  proof (induction a)
    case (Cons c a)
    obtain u v w where "cut ''::'' (a @ ''::'' @ x) = Some (u, v)" "cut ''::'' (a @ ''::'' @ y) = Some (u, w)"
      using Cons by blast
    then show ?case by (cases a) auto
  qed simp
  then obtain u v w where "cut ''::'' (a @ ''::'' @ x) = Some (u, v)" "cut ''::'' (a @ ''::'' @ y) = Some (u, w)"
    by blast
  then have g: "normaliseDefault (a @ ''::'' @ x) = normaliseDefault (a @ ''::'' @ y)"
    by (simp add: normaliseDefault_def)
  have "normaliseDefault (quoted ''a::b'' @ ''::text'') = normaliseDefault (quoted ''a::c'' @ ''::text'')"
    by code_simp
  with g show ?thesis by blast
qed

text \<open>
  \<open>hasBackingIndex\<close>, which compares names joined by commas, reports exactly the btree indexes whose
  leading columns are the columns of the foreign key, in their order.
\<close>

theorem hasBackingIndex_prefix:
  assumes "plain_names cols" "\<forall>idx \<in> set btrees. plain_names idx"
  shows "hasBackingIndex btrees cols \<longleftrightarrow> cols \<noteq> [] \<and> (\<exists>idx \<in> set btrees. prefix cols idx)"
proof (cases "cols = []")
  case False
  then have "join '','' idx = join '','' cols \<or> prefix (join '','' cols @ '','') (join '','' idx) \<longleftrightarrow> prefix cols idx"
    if "idx \<in> set btrees" for idx
    using joined_prefix [OF assms(1)] assms(2) that by blast
  with False show ?thesis by (auto simp: hasBackingIndex_def Let_def)
qed (simp add: hasBackingIndex_def)

theorem hasBackingIndex_prefix_witness:
  "hasBackingIndex [[''owner_id''], [''tenant_id'', ''owner_id'', ''id'']] [''tenant_id'', ''owner_id'']
   \<and> \<not> hasBackingIndex [[''owner_id'']] [''tenant_id'', ''owner_id'']"
  using hasBackingIndex_prefix [of "[''tenant_id'', ''owner_id'']" "[[''owner_id''], [''tenant_id'', ''owner_id'', ''id'']]"]
    hasBackingIndex_prefix [of "[''tenant_id'', ''owner_id'']" "[[''owner_id'']]"]
  by (simp add: plain_names_def)

end
