(* ===== verification/Aliases.thy ===== *)
theory Aliases
  imports Resource_Resolve Filter_Expr
begin

text \<open>
  The field lists of \<^verbatim>\<open>emit_aliases.go\<close>: the columns of the generated UPDATE, the
  identifiers a filter may use, and the audit stamps. \<open>Alias_Text\<close> has the text around them.
\<close>

section \<open>The lists\<close>

definition hasColumn :: "resource_plan \<Rightarrow> string \<Rightarrow> bool" where
  "hasColumn p dbName \<longleftrightarrow> (\<exists>c \<in> set (Columns p). DBName c = dbName)"

record filterable_field =
  FfKey :: string
  FfJetField :: string

definition filterable :: "column_plan \<Rightarrow> bool" where
  "filterable c \<longleftrightarrow>
     \<not> Synthesized c \<and>
     (case Kind c of
        KindScalar \<Rightarrow>
          trim_prefix ''*'' (JetGoType c) \<in> {''string'', ''bool'', ''int32'', ''int64'', ''float32'', ''float64''}
      | KindTimestamp \<Rightarrow> True
      | KindEnumAsText \<Rightarrow> True
      | KindDuration \<Rightarrow> True
      | KindRepeated r \<Rightarrow> r = RText \<or> r = REnum
      | _ \<Rightarrow> False)"

definition filterableJetFields :: "resource_plan \<Rightarrow> filterable_field list" where
  "filterableJetFields p =
     map (\<lambda>c. \<lparr>FfKey = DBName c, FfJetField = JetFieldName c\<rparr>) (filter filterable (Columns p))"

record jsonb_filter_path =
  JfKey :: string
  JfExpr :: string

definition path_field :: "string \<Rightarrow> string \<Rightarrow> jsonb_filter_path" where
  "path_field col path = \<lparr>JfKey = col @ ''.'' @ path, JfExpr = jsonbPathExpr col path\<rparr>"

definition jsonbFilterPaths :: "resource_plan \<Rightarrow> jsonb_filter_path list" where
  "jsonbFilterPaths p =
     concat (map (\<lambda>c. map (path_field (DBName c)) (JSONBIndexedPaths c)) (Columns p))
     @ concat (map (\<lambda>oc. map (path_field (JSONColumn oc)) (OneofIndexedPaths oc)) (OneofColumns p))"

definition mutable_column :: "resource_plan \<Rightarrow> column_plan \<Rightarrow> bool" where
  "mutable_column p c \<longleftrightarrow>
     \<not> (Synthesized c \<or> Immutable c \<or> DBName c \<in> set (PrimaryKey p) \<or> GeneratedExpr c \<noteq> [])"

definition mutableJetFields :: "resource_plan \<Rightarrow> string list" where
  "mutableJetFields p =
     map JetFieldName (filter (mutable_column p) (Columns p))
     @ concat (map (\<lambda>oc. [JetKindField oc, JetJSONField oc]) (OneofColumns p))"

text \<open>The stamp functions the file declares.\<close>

definition stamps :: "resource_plan \<Rightarrow> string list" where
  "stamps p =
     (if hasColumn p ''created_by'' \<and> hasColumn p ''updated_by'' then [''StampCreate''] else [])
     @ (if hasColumn p ''updated_by'' then [''StampUpdate''] else [])"

definition imports_proto :: "resource_plan \<Rightarrow> bool" where
  "imports_proto p \<longleftrightarrow> hasColumn p ''updated_by''"

text \<open>
  The value of the generated \<^verbatim>\<open>FilterFields\<close>: table columns of go-jet's expression types
  for the SQL types, given by \<open>jet\<close>, and raw string expressions for the JSONB paths.
\<close>

definition filter_binding :: "(string \<Rightarrow> expr_type) \<Rightarrow> resource_plan \<Rightarrow> filter_fields" where
  "filter_binding jet p =
     map (\<lambda>c. (DBName c, \<lparr>ExprType = jet (SQLType c), IsColumn = True, Ident = DBName c\<rparr>))
       (filter filterable (Columns p))
     @ map (\<lambda>f. (JfKey f, \<lparr>ExprType = TyString, IsColumn = False, Ident = JfExpr f\<rparr>)) (jsonbFilterPaths p)"

section \<open>Lemmas\<close>

definition jet_columns :: "(string \<Rightarrow> expr_type) \<Rightarrow> bool" where
  "jet_columns jet \<longleftrightarrow>
     jet ''TEXT'' = TyString \<and> jet ''BOOLEAN'' = TyBool \<and> jet ''INTEGER'' = TyInteger
     \<and> jet ''BIGINT'' = TyInteger \<and> jet ''REAL'' = TyFloat \<and> jet ''DOUBLE PRECISION'' = TyFloat
     \<and> jet ''TIMESTAMPTZ'' = TyTimestampz \<and> jet ''TEXT[]'' = TyStringArray"

lemma binding_keys:
  "map fst (filter_binding jet p) = map FfKey (filterableJetFields p) @ map JfKey (jsonbFilterPaths p)"
  by (simp add: filter_binding_def filterableJetFields_def comp_def)

lemma legal_no_dot: "legal_ident s \<Longrightarrow> CHR ''.'' \<notin> set s"
  by (auto simp: legal_ident_def ident_byte_def lower_rune_def digit_rune_def)

lemma dotted_eq:
  "CHR ''.'' \<notin> set a \<Longrightarrow> CHR ''.'' \<notin> set b \<Longrightarrow> a @ ''.'' @ x = b @ ''.'' @ y \<longleftrightarrow> a = b \<and> x = y"
proof (induction a arbitrary: b)
  case Nil
  then show ?case by (cases b) auto
next
  case (Cons c a)
  then show ?case by (cases b) auto
qed

text \<open>The keys of one column, and of a list of columns.\<close>

definition keys_of :: "(string \<times> string list) list \<Rightarrow> string list" where
  "keys_of cps = concat (map (\<lambda>(col, paths). map (\<lambda>path. col @ ''.'' @ path) paths) cps)"

lemma keys_of_distinct:
  assumes "distinct (map fst cps)" "\<forall>(col, paths) \<in> set cps. CHR ''.'' \<notin> set col \<and> distinct paths"
  shows "distinct (keys_of cps)"
  using assms
proof (induction cps)
  case (Cons cp cps)
  obtain col paths where cp: "cp = (col, paths)" by fastforce
  have "inj_on (\<lambda>path. col @ ''.'' @ path) (set paths)" by (simp add: inj_on_def)
  with Cons(3) cp have "distinct (map (\<lambda>path. col @ ''.'' @ path) paths)" by (simp add: distinct_map)
  moreover have "col @ ''.'' @ x \<notin> set (keys_of cps)" for x
  proof
    assume "col @ ''.'' @ x \<in> set (keys_of cps)"
    then obtain d ps y where "(d, ps) \<in> set cps" "col @ ''.'' @ x = d @ ''.'' @ y"
      by (auto simp: keys_of_def)
    with Cons(3) cp dotted_eq [of col d x y] have "d = col" "(d, ps) \<in> set cps" by auto
    with Cons(2) cp show False by force
  qed
  moreover have "keys_of (cp # cps) = map (\<lambda>path. col @ ''.'' @ path) paths @ keys_of cps"
    by (simp add: keys_of_def cp)
  moreover have "distinct (keys_of cps)" using Cons by simp
  ultimately show ?case by auto
qed (simp add: keys_of_def)

definition path_columns :: "resource_plan \<Rightarrow> (string \<times> string list) list" where
  "path_columns p =
     map (\<lambda>c. (DBName c, JSONBIndexedPaths c)) (Columns p)
     @ map (\<lambda>oc. (JSONColumn oc, OneofIndexedPaths oc)) (OneofColumns p)"

lemma jsonb_keys: "map JfKey (jsonbFilterPaths p) = keys_of (path_columns p)"
  by (simp add: jsonbFilterPaths_def keys_of_def path_columns_def path_field_def map_concat comp_def)

lemma keys_of_dotted: "k \<in> set (keys_of cps) \<Longrightarrow> CHR ''.'' \<in> set k"
  by (auto simp: keys_of_def)

lemma distinct_concat_map:
  "distinct (concat (map f xs)) \<Longrightarrow> x \<in> set xs \<Longrightarrow> distinct (f x)"
  by (metis distinct_concat_iff image_eqI list.set_map)

lemma path_columns_ok:
  assumes "resolveResource mp m = Ok (Some p)"
  shows "distinct (map fst (path_columns p))"
    "\<forall>(col, paths) \<in> set (path_columns p). CHR ''.'' \<notin> set col \<and> distinct paths"
proof -
  have ok: "plan_ok p" by (rule resolved_plan_ok [OF assms])
  have d: "distinct (map DBName (Columns p) @ concat (map (\<lambda>oc. [KindColumn oc, JSONColumn oc]) (OneofColumns p)))"
    using ok by (simp add: plan_ok_def column_names_def)
  have sub: "distinct (concat (map (\<lambda>oc. [KindColumn oc, JSONColumn oc]) ocs)) \<Longrightarrow> distinct (map JSONColumn ocs)" for ocs
    by (induction ocs) auto
  from d sub [of "OneofColumns p"] show "distinct (map fst (path_columns p))"
    by (auto simp: path_columns_def comp_def)
  have names: "distinct (path_index_names p)" using ok by (simp add: plan_ok_def synthesised_names_def)
  have "distinct (JSONBIndexedPaths c)" if "c \<in> set (Columns p)" for c
    using names that distinct_concat_map [of "\<lambda>c. map (jsonbPathIndexName (TableName p) (DBName c)) (JSONBIndexedPaths c)" "Columns p" c]
    by (simp add: path_index_names_def distinct_map)
  moreover have "distinct (OneofIndexedPaths oc)" if "oc \<in> set (OneofColumns p)" for oc
    using names that distinct_concat_map [of "\<lambda>oc. map (jsonbPathIndexName (TableName p) (JSONColumn oc)) (OneofIndexedPaths oc)" "OneofColumns p" oc]
    by (simp add: path_index_names_def distinct_map)
  ultimately show "\<forall>(col, paths) \<in> set (path_columns p). CHR ''.'' \<notin> set col \<and> distinct paths"
    using resolved_column_legal [OF assms] resolved_oneof_legal [OF assms] legal_no_dot
    by (auto simp: path_columns_def)
qed

lemma binding_distinct:
  assumes "resolveResource mp m = Ok (Some p)"
  shows "distinct (map fst (filter_binding jet p))"
proof -
  have "distinct (map DBName (Columns p))"
    using resolved_plan_ok [OF assms] by (simp add: plan_ok_def column_names_def)
  then have "distinct (map DBName (filter filterable (Columns p)))" by (rule distinct_map_filter)
  moreover have "CHR ''.'' \<notin> set (DBName c)" if "c \<in> set (Columns p)" for c
    using resolved_column_legal [OF assms that] legal_no_dot by blast
  ultimately show ?thesis
    using keys_of_distinct [OF path_columns_ok [OF assms]] keys_of_dotted [of _ "path_columns p"]
    by (fastforce simp: binding_keys jsonb_keys filterableJetFields_def comp_def)
qed

lemma filterable_type:
  assumes "jet_columns jet" "column_wf c" "filterable c"
  shows "jet (SQLType c) \<in> {TyStringArray, TyString, TyBool, TyInteger, TyFloat, TyTimestampz}"
proof -
  have sql: "SQLType c \<in> set (kind_sql (Kind c))" using assms(2) by (simp add: column_wf_def)
  have "SQLType c \<noteq> ''BYTEA''" if "Kind c = KindScalar"
  proof
    assume "SQLType c = ''BYTEA''"
    then have "JetGoType c = ''[]byte'' \<or> JetGoType c = ''*[]byte''" using assms(2) by (auto simp: column_wf_def)
    with assms(3) that show False by (auto simp: filterable_def trim_prefix_def)
  qed
  with sql assms(1,3) show ?thesis
    by (cases "Kind c") (auto simp: jet_columns_def filterable_def split: repeated_kind.splits)
qed

text \<open>An expression of a type the translator knows is never refused for its type.\<close>

definition known_type :: "sql_expr \<Rightarrow> bool" where
  "known_type e \<longleftrightarrow>
     ExprType e \<in> {TyStringArray, TyString, TyBool, TyInteger, TyFloat, TyTimestampz}
     \<and> (ExprType e = TyStringArray \<longrightarrow> IsColumn e)"

lemma unsupported_inj: "unsupported a = unsupported b \<longleftrightarrow> a = b"
  by (simp add: unsupported_def)

lemma literals_not_type:
  "stringLiteral rhs \<noteq> Err (unsupported ExpressionType)" "boolLiteral rhs \<noteq> Err (unsupported ExpressionType)"
  "floatLiteral env rhs \<noteq> Err (unsupported ExpressionType)"
  by (auto simp: stringLiteral_def boolLiteral_def floatLiteral_def unsupported_inj split: expr.splits const_kind.splits)

lemma calls_not_type:
  "integerLiteral env rhs \<noteq> Err (unsupported ExpressionType)"
  "timestampLiteral env rhs \<noteq> Err (unsupported ExpressionType)"
  by (auto simp: integerLiteral_def timestampLiteral_def unsupported_inj go_simps literals_not_type
      split: expr.splits const_kind.splits list.splits option.splits if_splits)

lemmas operator_defs = stringArrayOp_def stringOp_def boolOp_def integerOp_def floatOp_def timestampzOp_def

lemma operators_not_type:
  "stringArrayOp f e rhs \<noteq> Err (unsupported ExpressionType)" "stringOp env f e rhs \<noteq> Err (unsupported ExpressionType)"
  "boolOp f e rhs \<noteq> Err (unsupported ExpressionType)" "integerOp env f e rhs \<noteq> Err (unsupported ExpressionType)"
  "floatOp env f e rhs \<noteq> Err (unsupported ExpressionType)" "timestampzOp env f e rhs \<noteq> Err (unsupported ExpressionType)"
  by (auto simp: operator_defs go_simps literals_not_type calls_not_type unsupported_inj Let_def
      split: fn.splits cmp_op.splits)

lemma known_type_accepted:
  assumes "known_type e"
  shows "applyComparator env f e rhs \<noteq> Err (unsupported ExpressionType)"
proof (cases "isNullLiteral rhs")
  case True
  then show ?thesis
    by (auto simp: applyComparator_def unsupported_inj split: fn.splits cmp_op.splits)
next
  case False
  with assms show ?thesis
    by (cases "ExprType e") (simp_all add: applyComparator_def known_type_def operators_not_type)
qed

section \<open>Properties\<close>


definition go_jet_columns :: "string \<Rightarrow> expr_type" where
  "go_jet_columns sql =
     (case map_of [(''TEXT'', TyString), (''BOOLEAN'', TyBool), (''INTEGER'', TyInteger), (''BIGINT'', TyInteger),
        (''REAL'', TyFloat), (''DOUBLE PRECISION'', TyFloat), (''TIMESTAMPTZ'', TyTimestampz), (''TEXT[]'', TyStringArray)] sql
      of Some t \<Rightarrow> t | None \<Rightarrow> TyOther)"


text \<open>
  The generated UPDATE leaves the primary key alone, except for the columns of a oneof: one that
  the primary key names is accepted and updated all the same.
\<close>

theorem oneof_key_is_updated:
  "(\<forall>p. \<forall>c \<in> set (filter (mutable_column p) (Columns p)). DBName c \<notin> set (PrimaryKey p))
   \<and> (\<exists>m p oc. resolveResource ''example.com/lib'' m = Ok (Some p) \<and> oc \<in> set (OneofColumns p)
        \<and> KindColumn oc \<in> set (PrimaryKey p) \<and> JetKindField oc \<in> set (mutableJetFields p))"
proof -
  let ?m = "sample_message\<lparr>msg_table := map_option (tb_primary_key_update (\<lambda>_. [''tenant_id'', ''id'', ''body_part_kind''])) (msg_table sample_message)\<rparr>"
  have "case resolveResource ''example.com/lib'' ?m of
      Ok (Some p) \<Rightarrow> (\<exists>oc \<in> set (OneofColumns p). KindColumn oc \<in> set (PrimaryKey p)
        \<and> JetKindField oc \<in> set (mutableJetFields p)) | _ \<Rightarrow> False"
    by code_simp
  then obtain p oc where "resolveResource ''example.com/lib'' ?m = Ok (Some p)" "oc \<in> set (OneofColumns p)"
    "KindColumn oc \<in> set (PrimaryKey p)" "JetKindField oc \<in> set (mutableJetFields p)"
    by (auto split: outcome.splits option.splits)
  then show ?thesis by (auto simp: mutable_column_def)
qed

end
