(* ===== verification/Resolve_Total.thy ===== *)
theory Resolve_Total
  imports Resource_Resolve
begin

text \<open>
  No function of the resolution panics: \<^verbatim>\<open>resolveResource\<close> and all it calls
  return a plan, no plan, or an error, on every message. The collection \<open>no_panic\<close> holds the
  facts by which the proofs go through the calls.
\<close>

named_theorems no_panic "calls that never panic"

lemma check_variants_no_panic [no_panic]: "check_variants vs \<noteq> Panic"
  by (induction vs rule: check_variants.induct) auto

lemma resolveOneof_no_panic [no_panic]: "resolveOneof oneof \<noteq> Panic"
proof -
  have "map_out (\<lambda>p. map_err (BadOneofPath p) (validateJSONBPath p)) ps \<noteq> Panic" for ps
    by (rule map_out_not_Panic) (simp add: go_simps)
  then show ?thesis
    by (auto simp: resolveOneof_def Let_def go_simps no_panic split: option.splits)
qed

lemma resolveIndex_no_panic [no_panic]: "resolveIndex t x \<noteq> Panic"
proof -
  have "map_out (index_order ord) xs \<noteq> Panic" for ord xs
    by (rule map_out_not_Panic) (auto simp: index_order_def split: prod.splits)
  then show ?thesis by (auto simp: resolveIndex_def Let_def go_simps split: option.splits)
qed

lemma resolvePartition_no_panic [no_panic]: "resolvePartition pb \<noteq> Panic"
  by (auto simp: resolvePartition_def go_simps split: partition_method.splits option.splits)

lemma parse_terms_no_panic: "parse_terms ts \<noteq> Panic"
proof (induction ts)
  case (Cons t ts)
  have "str_fields (trim_space t) = [] \<Longrightarrow> trim_space t = []"
    using str_fields_Nil_iff [of "trim_space t"] trim_space_idem [of t] by simp
  with Cons show ?case by (auto simp: Let_def go_simps split: list.splits)
qed simp

lemma resolveOrder_no_panic [no_panic]: "resolveOrder role raw \<noteq> Panic"
  by (auto simp: resolveOrder_def parseOrderBy_def Let_def go_simps parse_terms_no_panic)

lemma resolveTenancy_no_panic [no_panic]: "resolveTenancy tt \<noteq> Panic"
  by (auto simp: resolveTenancy_def Let_def go_simps)

lemma resolve_fields_no_panic [no_panic]: "resolve_fields fs \<noteq> Panic"
  by (induction fs) (auto simp: go_simps resolveColumn_not_Panic split: option.splits)

lemma resolve_oneofs_no_panic [no_panic]: "resolve_oneofs os \<noteq> Panic"
  by (induction os) (auto simp: go_simps no_panic)

lemma scan_columns_no_panic [no_panic]: "scan_columns cs st \<noteq> Panic"
  by (induction cs st rule: scan_columns.induct) auto

lemma scan_oneofs_no_panic [no_panic]: "scan_oneofs ocs st \<noteq> Panic"
  by (induction ocs st rule: scan_oneofs.induct) auto

lemma check_known_no_panic [no_panic]: "check_known r ks cs \<noteq> Panic"
  by (induction cs) auto

lemma check_partition_cols_no_panic [no_panic]: "check_partition_cols ks pk cs \<noteq> Panic"
  by (induction cs) auto

lemma scope_checks_no_panic [no_panic]: "check_pk_scope p \<noteq> Panic" "check_index_scope ten idx \<noteq> Panic"
  by (auto simp: check_pk_scope_def check_index_scope_def requireColumnInPK_def requireColumnInIndex_def
      go_simps split: option.splits if_splits)

lemma check_indexes_no_panic [no_panic]: "check_indexes ten ks idxs names \<noteq> Panic"
  by (induction idxs arbitrary: names) (auto simp: go_simps no_panic)

lemma claim_name_no_panic [no_panic]: "claim_name kind name names \<noteq> Panic" "check_len kind name \<noteq> Panic"
  by (auto simp: claim_name_def check_len_def checkSynthIdentLen_def go_simps)

lemma claim_paths_no_panic [no_panic]: "claim_paths kind table owner col seen ps names \<noteq> Panic"
  by (induction ps arbitrary: seen names) (auto simp: go_simps no_panic)

lemma claims_no_panic [no_panic]:
  "claim_column_paths table cs names \<noteq> Panic" "claim_oneof_paths table ocs names \<noteq> Panic"
  by (induction cs arbitrary: names, auto simp: go_simps no_panic)
    (induction ocs arbitrary: names, auto simp: go_simps no_panic)

lemma claim_synthesised_no_panic [no_panic]: "claim_synthesised p cs names \<noteq> Panic"
  by (induction cs arbitrary: names) (auto simp: go_simps no_panic)

lemma check_oneof_lens_no_panic [no_panic]: "check_oneof_lens table ocs \<noteq> Panic"
  by (induction ocs) (auto simp: go_simps no_panic)

lemma check_order_no_panic [no_panic]: "check_order r ks ords parts \<noteq> Panic"
  by (induction parts) auto

lemma validatePlan_no_panic [no_panic]: "validatePlan p \<noteq> Panic"
  by (auto simp: validatePlan_def go_simps no_panic split: option.splits)

lemma resolveResource_no_panic [no_panic]: "resolveResource mp m \<noteq> Panic"
proof -
  have "map_out (resolveIndex t) xs \<noteq> Panic" for t xs
    by (rule map_out_not_Panic) (rule no_panic)
  then show ?thesis
    by (auto simp: resolveResource_def Let_def go_simps no_panic split: option.splits)
qed

end
