(* ===== verification/Generator.thy ===== *)
theory Generator
  imports DDL_Read Emit_Schema Resolve_Total
begin

text \<open>
  The plugin's run: \<^verbatim>\<open>main.go\<close>, with the output paths of \<^verbatim>\<open>resolve.go\<close>, the
  roles and statements of \<^verbatim>\<open>jet_runner.go\<close> and the template hook of
  \<^verbatim>\<open>jetgen.go\<close>. Reading and writing files, protoc's request and response, and the
  container are left out; the mapper and the alias file are emitted without conditions and have no
  part in the result here.
\<close>

section \<open>Paths and modules\<close>

text \<open>\<^verbatim>\<open>filepath.Clean\<close> on Unix, component by component.\<close>

fun clean_step :: "bool \<Rightarrow> string list \<Rightarrow> string \<Rightarrow> string list" where
  "clean_step rooted stack part =
     (if part = [] \<or> part = ''.'' then stack
      else if part = ''..'' then
        (if stack \<noteq> [] \<and> last stack \<noteq> ''..'' then butlast stack
         else if rooted then stack else stack @ [''..''])
      else stack @ [part])"

definition filepath_Clean :: "string \<Rightarrow> string" where
  "filepath_Clean path =
     (let rooted = prefix ''/'' path;
          out = (if rooted then ''/'' else []) @ join ''/'' (foldl (clean_step rooted) [] (split_on CHR ''/'' path))
      in if out = [] then ''.'' else out)"

definition filepath_Join :: "string list \<Rightarrow> string" where
  "filepath_Join elems =
     (let es = filter (\<lambda>e. e \<noteq> []) elems in if es = [] then [] else filepath_Clean (join ''/'' es))"

record output_option =
  out_go_dir :: string
  out_go_package_name :: string
  out_jet_model_import :: string
  out_jet_table_import :: string

definition no_output :: output_option where
  "no_output = \<lparr>out_go_dir = [], out_go_package_name = [], out_jet_model_import = [], out_jet_table_import = []\<rparr>"

record output_paths =
  GoDir :: string
  GoImportPath :: string
  GoPackageName :: string
  JetModelImport :: string
  JetTableImport :: string

definition resolveOutput :: "string \<Rightarrow> string \<Rightarrow> output_option \<Rightarrow> output_paths" where
  "resolveOutput modulePath protoGoPkg out =
     (let protoGoPkgRel = trim_prefix (modulePath @ ''/'') protoGoPkg;
          goDir = valOr (out_go_dir out) (filepath_Join [protoGoPkgRel, ''storage'']) in
      \<lparr>GoDir = goDir, GoImportPath = modulePath @ ''/'' @ goDir,
       GoPackageName = valOr (out_go_package_name out) ''storage'',
       JetModelImport = valOr (out_jet_model_import out) (protoGoPkg @ ''/storage/jet/public/model''),
       JetTableImport = valOr (out_jet_table_import out) (protoGoPkg @ ''/storage/jet/public/table'')\<rparr>)"

text \<open>\<^verbatim>\<open>readGoModulePath\<close>, on the content of \<^verbatim>\<open>go.mod\<close>.\<close>

fun find_module :: "string list \<Rightarrow> string option" where
  "find_module [] = None"
| "find_module (l # ls) =
     (let line = trim_space l in
      if prefix ''module '' line
      then (let path = trim_space (drop 7 line) in if path \<noteq> [] then Some path else find_module ls)
      else find_module ls)"

definition readGoModulePath :: "string \<Rightarrow> string option" where
  "readGoModulePath body = find_module (split_on CHR 0x0A body)"

section \<open>Checks across messages\<close>

text \<open>A message with its nested messages: its name and whether it carries a table option.\<close>

datatype nested_message = Nested string bool "nested_message list"

fun walk_nested :: "string \<Rightarrow> nested_message list \<Rightarrow> string option" where
  "walk_nested parent [] = None"
| "walk_nested parent (Nested name has_table children # ms) =
     (let path = parent @ ''.'' @ name in
      if has_table then Some path
      else case walk_nested path children of
        Some e \<Rightarrow> Some e
      | None \<Rightarrow> walk_nested parent ms)"

fun rejectNestedTableAnnotations :: "nested_message \<Rightarrow> string option" where
  "rejectNestedTableAnnotations (Nested name has_table children) = walk_nested name children"

record pending_emit =
  PeSource :: string
  PeGoDir :: string
  PePlan :: resource_plan

definition table_key :: "pending_emit \<Rightarrow> string" where
  "table_key pe = PeGoDir pe @ ''|'' @ TableName (PePlan pe)"

text \<open>\<open>seen\<close> maps a directory and table to the source that took it; an error names both.\<close>

fun detect_duplicates ::
  "(string \<rightharpoonup> string) \<Rightarrow> pending_emit list \<Rightarrow> (string \<times> string \<times> string) list" where
  "detect_duplicates seen [] = []"
| "detect_duplicates seen (pe # pes) =
     (case seen (table_key pe) of
        Some prev \<Rightarrow> (PeSource pe, TableName (PePlan pe), prev) # detect_duplicates seen pes
      | None \<Rightarrow> detect_duplicates (seen(table_key pe \<mapsto> PeSource pe)) pes)"

definition detectDuplicateTables :: "pending_emit list \<Rightarrow> (string \<times> string \<times> string) list" where
  "detectDuplicateTables pending = detect_duplicates Map.empty pending"

definition joinErrs :: "string \<Rightarrow> string list \<Rightarrow> string" where
  "joinErrs pre errs =
     (case errs of
        [e] \<Rightarrow> pre @ '': '' @ e
      | _ \<Rightarrow> pre @ '' ('' @ FormatInt (int (length errs)) @ '' errors):'' @ concat (map (\<lambda>e. nl @ ''  - '' @ e) errs))"

section \<open>The jet pass\<close>

definition distinctTenantRoles :: "resource_plan list \<Rightarrow> string list" where
  "distinctTenantRoles plans =
     sort (remdups (List.map_filter (\<lambda>p. case Tenancy p of
         None \<Rightarrow> None | Some t \<Rightarrow> if RuntimeRole t = [] then None else Some (RuntimeRole t)) plans))"

definition defaultTenantRole :: string where
  "defaultTenantRole = ''app-tenant''"

text \<open>The roles created before the files are applied; \<open>env\<close> is \<^verbatim>\<open>TENANT_ROLE\<close>.\<close>

definition bootstrap_roles :: "string list \<Rightarrow> string \<Rightarrow> string list" where
  "bootstrap_roles tenantRoles env =
     (if env \<noteq> [] then [env] else if tenantRoles = [] then [defaultTenantRole] else tenantRoles)"

text \<open>\<^verbatim>\<open>CREATE ROLE "%[1]s"\<close>: the role as the statement spells it.\<close>

definition role_in_statement :: "string \<Rightarrow> string" where
  "role_in_statement role = [CHR 0x22] @ role @ [CHR 0x22]"

record template_type =
  TtImport :: string
  TtName :: string

definition jettypesImport :: string where
  "jettypesImport = ''github.com/redpanda-data/protoc-gen-go-jet/pkg/pgstore/jettypes''"

type_synonym overrides = "string \<rightharpoonup> (string \<rightharpoonup> template_type)"

definition override_column :: "string \<Rightarrow> overrides \<Rightarrow> column_plan \<Rightarrow> overrides" where
  "override_column table out c =
     (if Kind c \<noteq> KindRepeated RTimestamp then out
      else out(table \<mapsto> (case out table of None \<Rightarrow> Map.empty | Some cols \<Rightarrow> cols)
             (DBName c \<mapsto> \<lparr>TtImport = jettypesImport, TtName = ''jettypes.TimestampArray''\<rparr>)))"

definition jetColumnOverrides :: "resource_plan list \<Rightarrow> overrides" where
  "jetColumnOverrides plans =
     foldl (\<lambda>out p. foldl (override_column (TableName p)) out (Columns p)) Map.empty plans"

text \<open>
  The hook of \<^verbatim>\<open>customiseSchema\<close> for one field: the type \<open>chosen\<close> that go-jet
  chose, unless an override names the column.
\<close>

definition customise_field :: "overrides \<Rightarrow> string \<Rightarrow> string \<Rightarrow> bool \<Rightarrow> template_type \<Rightarrow> template_type" where
  "customise_field overrides table name nullable chosen =
     (case overrides table of
        None \<Rightarrow> chosen
      | Some cols \<Rightarrow>
          (case cols name of
             None \<Rightarrow> chosen
           | Some typ \<Rightarrow>
               if nullable \<and> \<not> prefix ''*'' (TtName typ) then typ\<lparr>TtName := ''*'' @ TtName typ\<rparr> else typ))"

definition skipped_tables :: "string list \<Rightarrow> string list" where
  "skipped_tables extra = ''schema_migrations'' # extra"

definition jet_schema :: "string \<Rightarrow> string" where
  "jet_schema schema = (if schema = [] then ''public'' else schema)"

section \<open>The run\<close>

text \<open>
  The callback of \<^verbatim>\<open>protogen.Options.Run\<close>: all messages are resolved before anything is emitted,
  file by file. A message comes with its source location, its tree of nested messages and its
  output option.
\<close>

record proto_unit =
  PuSource :: string
  PuTree :: nested_message
  PuMessage :: proto_message
  PuOutput :: output_option

datatype unit_error = NestedTable string string | Unresolved string resource_error

datatype generate_error =
    ResolutionFailed "unit_error list"
  | DuplicateTables "(string \<times> string \<times> string) list"
  | ForeignKeysFailed "(string \<times> string \<times> fk_error) list"
  | EmissionFailed "(string \<times> string \<times> orderable_error) list"

fun resolve_units ::
  "string \<Rightarrow> proto_unit list \<Rightarrow> (unit, unit_error list \<times> pending_emit list) outcome" where
  "resolve_units modulePath [] = Ok ([], [])"
| "resolve_units modulePath (u # us) =
     (case resolveResource modulePath (PuMessage u) of
        Panic \<Rightarrow> Panic
      | Err e \<Rightarrow> and_then (resolve_units modulePath us) (\<lambda>(errs, ps). Ok (Unresolved (PuSource u) e # errs, ps))
      | Ok None \<Rightarrow> resolve_units modulePath us
      | Ok (Some plan) \<Rightarrow>
          and_then (resolve_units modulePath us) (\<lambda>(errs, ps).
            Ok (errs, \<lparr>PeSource = PuSource u,
                       PeGoDir = GoDir (resolveOutput modulePath (msg_go_pkg (PuMessage u)) (PuOutput u)),
                       PePlan = plan\<rparr> # ps)))"

definition nested_errors :: "proto_unit list \<Rightarrow> unit_error list" where
  "nested_errors us =
     List.map_filter (\<lambda>u. map_option (NestedTable (PuSource u)) (rejectNestedTableAnnotations (PuTree u))) us"

fun resolve_files ::
  "string \<Rightarrow> proto_unit list list \<Rightarrow> (unit, unit_error list \<times> pending_emit list) outcome" where
  "resolve_files modulePath [] = Ok ([], [])"
| "resolve_files modulePath (f # fs) =
     and_then (resolve_units modulePath f) (\<lambda>(errs, ps).
     and_then (resolve_files modulePath fs) (\<lambda>(errs', ps').
     Ok (nested_errors f @ errs @ errs', ps @ ps')))"

text \<open>What \<open>emit\<close> writes for a plan: the DDL and the schema declaration.\<close>

record emitted =
  EmDir :: string
  EmPlan :: resource_plan
  EmDDL :: string
  EmSchema :: schema_decl

fun emit_all :: "pending_emit list \<Rightarrow> ((string \<times> string \<times> orderable_error) list, emitted list) outcome" where
  "emit_all [] = Ok []"
| "emit_all (pe # pes) =
     (case renderSchemaSQL (PePlan pe) of
        None \<Rightarrow> Panic
      | Some ddl \<Rightarrow>
          (case emitSchema (PePlan pe) of
             Panic \<Rightarrow> Panic
           | Ok d \<Rightarrow> and_then (emit_all pes) (\<lambda>es.
               Ok (\<lparr>EmDir = PeGoDir pe, EmPlan = PePlan pe, EmDDL = ddl, EmSchema = d\<rparr> # es))
           | Err e \<Rightarrow>
               (case emit_all pes of
                  Panic \<Rightarrow> Panic
                | Ok _ \<Rightarrow> Err [(PeSource pe, e)]
                | Err es \<Rightarrow> Err ((PeSource pe, e) # es))))"

definition with_plans :: "pending_emit list \<Rightarrow> resource_plan list \<Rightarrow> pending_emit list" where
  "with_plans pending plans = map2 (\<lambda>pe p. pe\<lparr>PePlan := p\<rparr>) pending plans"

definition generate :: "string \<Rightarrow> proto_unit list list \<Rightarrow> (generate_error, emitted list) outcome" where
  "generate modulePath files =
     (case resolve_files modulePath files of
        Panic \<Rightarrow> Panic
      | Err _ \<Rightarrow> Panic
      | Ok (errs, pending) \<Rightarrow>
          if errs \<noteq> [] then Err (ResolutionFailed errs)
          else let dups = detectDuplicateTables pending in
          if dups \<noteq> [] then Err (DuplicateTables dups)
          else case resolveForeignKeys (map PePlan pending) of
            (plans, fk_errs) \<Rightarrow>
              if fk_errs \<noteq> [] then Err (ForeignKeysFailed fk_errs)
              else map_err EmissionFailed (emit_all (with_plans pending plans)))"

section \<open>What foreign key resolution keeps\<close>

definition same_outline :: "resource_plan \<Rightarrow> resource_plan \<Rightarrow> bool" where
  "same_outline p q \<longleftrightarrow>
     q\<lparr>Columns := [], SupplementalUniques := []\<rparr> = p\<lparr>Columns := [], SupplementalUniques := []\<rparr>
     \<and> list_all2 same_column (Columns p) (Columns q)"

lemma same_outline_refl [simp]: "same_outline p p"
  by (simp add: same_outline_def list_all2_refl)

lemma same_outline_trans: "same_outline p q \<Longrightarrow> same_outline q r \<Longrightarrow> same_outline p r"
  unfolding same_outline_def using list_all2_trans [of same_column same_column same_column] same_column_trans by metis

lemma outlines_refl [simp]: "list_all2 same_outline ps ps"
  by (simp add: list_all2_refl)

lemma outlines_trans:
  "list_all2 same_outline ps qs \<Longrightarrow> list_all2 same_outline qs rs \<Longrightarrow> list_all2 same_outline ps rs"
  by (rule list_all2_trans [of same_outline same_outline same_outline]) (auto intro: same_outline_trans)

lemma same_outline_unique: "same_outline p (addSupplementalUnique p u)"
  by (simp add: addSupplementalUnique_def same_outline_def list_all2_refl)

lemma outlines_update:
  "same_outline (ps ! i) q \<Longrightarrow> list_all2 same_outline ps (ps[i := q])"
  by (cases "i < length ps") (auto simp: list_all2_conv_all_nth nth_list_update)

lemma outlines_set_fk: "list_all2 same_outline ps (set_fk ps i ci fk)"
  unfolding set_fk_def
  by (rule outlines_update)
    (cases "ci < length (Columns (ps ! i))";
      auto simp: same_outline_def list_all2_conv_all_nth nth_list_update)

lemma completeFK_outlines: "list_all2 same_outline ps (fst (completeFK ps i ci fk))"
proof -
  have u: "list_all2 same_outline ps (set_fk (ps[ti := addSupplementalUnique (ps ! ti) u]) i ci fk')" for ti u fk'
    by (rule outlines_trans [OF outlines_update [OF same_outline_unique] outlines_set_fk])
  show ?thesis
    by (auto simp: completeFK_def Let_def u outlines_set_fk split: prod.splits option.splits)
qed

lemma resolve_positions_outlines: "list_all2 same_outline ps (fst (resolve_positions ps xs))"
proof (induction ps xs rule: resolve_positions.induct)
  case (2 ps i ci xs)
  show ?case
  proof (cases "ForeignKey (Columns (ps ! i) ! ci)")
    case None
    with 2(1) show ?thesis by simp
  next
    case (Some fk)
    obtain ps1 err where c: "completeFK ps i ci fk = (ps1, err)" by fastforce
    then have "list_all2 same_outline ps ps1" using completeFK_outlines [of ps i ci fk] by simp
    moreover have "list_all2 same_outline ps1 (fst (resolve_positions ps1 xs))"
      using 2(2) [OF _ _ Some] c by simp
    ultimately show ?thesis
      using outlines_trans Some c by (auto simp: Let_def split: prod.splits)
  qed
qed simp

lemma resolveForeignKeys_outlines:
  "resolveForeignKeys ps = (qs, errs) \<Longrightarrow> list_all2 same_outline ps qs"
  using resolve_positions_outlines [of ps "fk_positions ps"] by (simp add: resolveForeignKeys_def)

lemma same_outline_eqs:
  assumes "same_outline p q"
  shows "TableName q = TableName p" "Indexes q = Indexes p" "ProtoFile q = ProtoFile p"
    "ResourceFQN q = ResourceFQN p" "PrimaryKey q = PrimaryKey p" "Tenancy q = Tenancy p"
    "PlanDefaultOrder q = PlanDefaultOrder p" "TieBreaker q = TieBreaker p"
proof -
  have e: "q\<lparr>Columns := [], SupplementalUniques := []\<rparr> = p\<lparr>Columns := [], SupplementalUniques := []\<rparr>"
    using assms by (simp only: same_outline_def)
  show "TableName q = TableName p" using arg_cong [OF e, of TableName] by simp
  show "Indexes q = Indexes p" using arg_cong [OF e, of Indexes] by simp
  show "ProtoFile q = ProtoFile p" using arg_cong [OF e, of ProtoFile] by simp
  show "ResourceFQN q = ResourceFQN p" using arg_cong [OF e, of ResourceFQN] by simp
  show "PrimaryKey q = PrimaryKey p" using arg_cong [OF e, of PrimaryKey] by simp
  show "Tenancy q = Tenancy p" using arg_cong [OF e, of Tenancy] by simp
  show "PlanDefaultOrder q = PlanDefaultOrder p" using arg_cong [OF e, of PlanDefaultOrder] by simp
  show "TieBreaker q = TieBreaker p" using arg_cong [OF e, of TieBreaker] by simp
qed

lemma list_all2_source: "list_all2 P xs ys \<Longrightarrow> y \<in> set ys \<Longrightarrow> \<exists>x \<in> set xs. P x y"
  by (induction xs ys rule: list_all2_induct) auto

lemma list_all2_target: "list_all2 P xs ys \<Longrightarrow> x \<in> set xs \<Longrightarrow> \<exists>y \<in> set ys. P x y"
  by (induction xs ys rule: list_all2_induct) auto

lemma same_outline_ready:
  assumes "same_outline p q" "ddl_ready p"
  shows "ddl_ready q"
proof -
  have eq: "DBName d = DBName c \<and> RenameFrom d = RenameFrom c" if "same_column c d" for c d
  proof -
    have "DBName (d\<lparr>ForeignKey := None\<rparr>) = DBName (c\<lparr>ForeignKey := None\<rparr>)"
      "RenameFrom (d\<lparr>ForeignKey := None\<rparr>) = RenameFrom (c\<lparr>ForeignKey := None\<rparr>)"
      using that by (simp_all only: same_column_def)
    then show ?thesis by simp
  qed
  have "legal_ident (DBName d) \<and> (RenameFrom d = [] \<or> legal_ident (RenameFrom d))" if d: "d \<in> set (Columns q)" for d
  proof -
    obtain c where c: "c \<in> set (Columns p)" "same_column c d"
      using list_all2_source [OF assms(1) [unfolded same_outline_def, THEN conjunct2] d] by blast
    from assms(2) c(1) have "legal_ident (DBName c) \<and> (RenameFrom c = [] \<or> legal_ident (RenameFrom c))"
      unfolding ddl_ready_def by blast
    then show ?thesis using eq [OF c(2)] by (simp only:)
  qed
  with assms(2) show ?thesis by (simp add: ddl_ready_def same_outline_eqs [OF assms(1)])
qed

text \<open>The foreign keys of a resolved plan are as its annotations were parsed.\<close>

lemma no_fk_update: "ForeignKey c = None \<Longrightarrow> c\<lparr>ForeignKey := None\<rparr> = c"
  by (cases c) simp

lemma resolved_fk_parsed:
  assumes "resolveColumn f = Ok (Some c)" "ForeignKey c = Some fk"
  shows "\<exists>opt. parseFKAnnotation opt (c\<lparr>ForeignKey := None\<rparr>) = Ok fk"
proof -
  obtain c2 c3 c4 c5 c6 where
    inf: "inferFieldEncoding f (option_of f) (named_column f) = Ok c2"
    and st: "settleNullable f (col_default_expr (option_of f)) c2 = Ok c3"
    and rn: "renameOption (option_of f) c3 = Ok c4" and jb: "jsonbOptions (option_of f) c4 = Ok c5"
    and ky: "keyOptions (option_of f) c5 = Ok c6" and gen: "applyGeneratedExpr (option_of f) c6 = Ok c"
    using resolveColumn_stages [OF assms(1)] by metis
  have "ForeignKey c2 = None"
    using encoding_frame_keeps [OF inferFieldEncoding_shape [OF inf, THEN conjunct2]] by (simp add: named_column_empty)
  moreover have "ForeignKey c3 = ForeignKey c2"
    using settleNullable_shape [OF st] by fastforce
  moreover have "ForeignKey c4 = ForeignKey c3"
    using arg_cong [OF renameOption_shape [OF rn, THEN conjunct1], of ForeignKey] by simp
  moreover have "ForeignKey c5 = ForeignKey c4"
    using arg_cong [OF jsonbOptions_shape [OF jb, THEN conjunct1], of ForeignKey] by simp
  ultimately have c5: "ForeignKey c5 = None" "ForeignKey (c5\<lparr>Unique := True\<rparr>) = None" by simp_all
  obtain c5' where c5': "c5' = c5 \<or> c5' = c5\<lparr>Unique := True\<rparr>"
    and key: "(case col_foreign_key (option_of f) of
         None \<Rightarrow> Ok c5'
       | Some fk \<Rightarrow>
           and_then (map_err (\<lambda>e. BadOption ''foreign_key'' (BadIndexing e)) (validateFKIndexable c5')) (\<lambda>_.
           and_then (map_err (\<lambda>e. BadOption ''foreign_key'' (BadTarget e)) (parseFKAnnotation fk c5'))
             (\<lambda>raw. Ok (c5'\<lparr>ForeignKey := Some raw\<rparr>)))) = Ok c6"
    using ky unfolding keyOptions_def by (auto simp: go_simps split: if_splits)
  have none: "ForeignKey c5' = None" using c5' c5 by auto
  show ?thesis
  proof (cases "col_foreign_key (option_of f)")
    case None
    with key have "c6 = c5'" by simp
    then have "ForeignKey c = None" using applyGeneratedExpr_shape [OF gen] none by auto
    with assms(2) show ?thesis by simp
  next
    case (Some opt)
    with key obtain raw where raw: "parseFKAnnotation opt c5' = Ok raw" "c6 = c5'\<lparr>ForeignKey := Some raw\<rparr>"
      by (auto simp: go_simps)
    moreover have "c = c6" using applyGeneratedExpr_shape [OF gen] Some by auto
    ultimately have "raw = fk" "c\<lparr>ForeignKey := None\<rparr> = c5'\<lparr>ForeignKey := None\<rparr>"
      using assms(2) by simp_all
    with raw(1) no_fk_update [OF none] show ?thesis by metis
  qed
qed

lemma resolved_freshly_parsed:
  assumes "resolveResource mp m = Ok (Some p)"
  shows "freshly_parsed p"
proof -
  have "SupplementalUniques p = []" by (rule resolveResource_stages [OF assms])
  moreover have "\<exists>opt. parseFKAnnotation opt (c\<lparr>ForeignKey := None\<rparr>) = Ok fk"
    if "c \<in> set (Columns p)" "ForeignKey c = Some fk" for c fk
    using resolved_column [OF assms that(1)] that(2) resolved_fk_parsed
    by (auto simp: scope_columns_def synthesised_column_def empty_column_def split: if_splits)
  ultimately show ?thesis by (simp add: freshly_parsed_def)
qed

section \<open>The stages of a run\<close>

text \<open>The messages that carry a table option, and the plan and directory one of them gets.\<close>

definition table_units :: "proto_unit list \<Rightarrow> proto_unit list" where
  "table_units us = filter (\<lambda>u. msg_table (PuMessage u) \<noteq> None) us"

definition unit_dir :: "string \<Rightarrow> proto_unit \<Rightarrow> string" where
  "unit_dir mp u = GoDir (resolveOutput mp (msg_go_pkg (PuMessage u)) (PuOutput u))"

abbreviation pending_of :: "string \<Rightarrow> proto_unit \<Rightarrow> pending_emit \<Rightarrow> bool" where
  "pending_of mp u pe \<equiv>
     resolveResource mp (PuMessage u) = Ok (Some (PePlan pe)) \<and> PeGoDir pe = unit_dir mp u"

lemma resolve_units_Ok:
  "resolve_units mp us = Ok ([], ps) \<Longrightarrow> list_all2 (pending_of mp) (table_units us) ps"
proof (induction us arbitrary: ps)
  case (Cons u us)
  have none: "resolveResource mp m = Ok None \<longleftrightarrow> msg_table m = None" for m
    by (auto simp: resolveResource_def Let_def go_simps split: option.splits)
  from Cons(2) obtain r where r: "resolveResource mp (PuMessage u) = Ok r"
    by (auto simp: go_simps split: outcome.splits)
  show ?case
  proof (cases r)
    case None
    with r none [of "PuMessage u"] Cons show ?thesis by (simp add: table_units_def)
  next
    case (Some p)
    with r none [of "PuMessage u"] have "msg_table (PuMessage u) \<noteq> None" by auto
    with r Some Cons show ?thesis by (auto simp: go_simps table_units_def unit_dir_def)
  qed
qed (simp add: table_units_def)

lemma nested_errors_Nil:
  "nested_errors us = [] \<longleftrightarrow> (\<forall>u \<in> set us. rejectNestedTableAnnotations (PuTree u) = None)"
  by (auto simp: nested_errors_def List.map_filter_def filter_empty_conv)

lemma resolve_files_Ok:
  "resolve_files mp fs = Ok ([], ps) \<Longrightarrow>
     (\<forall>u \<in> set (concat fs). rejectNestedTableAnnotations (PuTree u) = None)
     \<and> list_all2 (pending_of mp) (table_units (concat fs)) ps"
proof (induction fs arbitrary: ps)
  case (Cons f fs)
  then obtain ps1 ps2 where p: "resolve_units mp f = Ok ([], ps1)" "resolve_files mp fs = Ok ([], ps2)"
    "ps = ps1 @ ps2" "nested_errors f = []"
    by (auto simp: go_simps)
  with Cons(1) [OF p(2)] resolve_units_Ok [OF p(1)] show ?case
    by (auto simp: nested_errors_Nil table_units_def list_all2_appendI)
qed (simp add: table_units_def)

lemma detect_duplicates_Nil:
  "detect_duplicates seen pes = [] \<longleftrightarrow>
     distinct (map table_key pes) \<and> (\<forall>pe \<in> set pes. seen (table_key pe) = None)"
proof (induction pes arbitrary: seen)
  case (Cons pe pes)
  show ?case
  proof (cases "seen (table_key pe)")
    case None
    have "detect_duplicates seen (pe # pes) = [] \<longleftrightarrow> distinct (map table_key pes)
        \<and> (\<forall>x \<in> set pes. (seen(table_key pe \<mapsto> PeSource pe)) (table_key x) = None)"
      by (simp only: detect_duplicates.simps None option.case Cons)
    also have "\<dots> \<longleftrightarrow> distinct (map table_key pes) \<and> table_key pe \<notin> table_key ` set pes
        \<and> (\<forall>x \<in> set pes. seen (table_key x) = None)"
      by (auto split: if_splits) (metis imageI)
    finally show ?thesis using None by auto
  qed simp
qed simp

lemma emit_all_Ok:
  "emit_all pes = Ok es \<Longrightarrow>
     map (\<lambda>e. (EmDir e, EmPlan e)) es = map (\<lambda>pe. (PeGoDir pe, PePlan pe)) pes
     \<and> (\<forall>e \<in> set es. renderSchemaSQL (EmPlan e) = Some (EmDDL e) \<and> emitSchema (EmPlan e) = Ok (EmSchema e))"
proof (induction pes arbitrary: es)
  case (Cons pe pes)
  then show ?case
    by (auto simp: go_simps split: option.splits outcome.splits)
qed simp

lemma emit_all_total:
  "\<forall>pe \<in> set pes. ddl_ready (PePlan pe) \<Longrightarrow> emit_all pes \<noteq> Panic"
proof (induction pes)
  case (Cons pe pes)
  obtain rest where r: "renderSchemaSQL (PePlan pe) = Some rest"
    using ready_renders [of "PePlan pe"] Cons(2) by auto
  have v: "validateOrderable c \<noteq> Panic" for c
    by (auto simp: validateOrderable_def go_simps split: column_kind.splits)
  have "map_out (\<lambda>c. map_err (Pair (DBName c)) (validateOrderable c)) (pageable_columns p) \<noteq> Panic" for p
    by (rule map_out_not_Panic) (simp add: go_simps v)
  then have "emitSchema (PePlan pe) \<noteq> Panic" by (simp add: emitSchema_def go_simps)
  moreover have "emit_all pes \<noteq> Panic" using Cons by simp
  ultimately show ?case
    by (cases "emitSchema (PePlan pe)"; cases "emit_all pes") (simp_all add: r)
qed simp

section \<open>The resolution of the files\<close>

lemma resolve_units_no_panic: "\<exists>r. resolve_units mp us = Ok r"
proof (induction us)
  case (Cons u us)
  then obtain errs ps where "resolve_units mp us = Ok (errs, ps)" by auto
  then show ?case
    using resolveResource_no_panic [of mp "PuMessage u"] by (auto split: outcome.splits option.splits)
qed simp

lemma resolve_files_no_panic: "\<exists>r. resolve_files mp fs = Ok r"
proof (induction fs)
  case (Cons f fs)
  then show ?case using resolve_units_no_panic [of mp f] by auto
qed simp

section \<open>What a run gives\<close>

text \<open>All messages nested in a message, at any depth.\<close>

fun nested_below :: "nested_message list \<Rightarrow> nested_message list" where
  "nested_below [] = []"
| "nested_below (Nested name t children # ms) = Nested name t children # nested_below children @ nested_below ms"

fun carries_table :: "nested_message \<Rightarrow> bool" where
  "carries_table (Nested name t children) = t"

lemma walk_nested_None:
  "walk_nested parent ms = None \<longleftrightarrow> (\<forall>n \<in> set (nested_below ms). \<not> carries_table n)"
  by (induction parent ms rule: walk_nested.induct) (auto simp: Let_def split: option.splits)

definition below :: "nested_message \<Rightarrow> nested_message list" where
  "below m = (case m of Nested name t children \<Rightarrow> nested_below children)"

lemma rejectNested_None:
  "rejectNestedTableAnnotations m = None \<longleftrightarrow> (\<forall>n \<in> set (below m). \<not> carries_table n)"
  by (cases m) (simp add: below_def walk_nested_None)

lemma same_column_sym: "same_column c d \<Longrightarrow> same_column d c"
  unfolding same_column_def by (rule sym)

lemma same_outline_columns_sym:
  assumes "same_outline p q"
  shows "list_all2 same_column (Columns q) (Columns p)"
proof (rule list_all2_all_nthI)
  have a: "list_all2 same_column (Columns p) (Columns q)" using assms unfolding same_outline_def by blast
  then show len: "length (Columns q) = length (Columns p)" by (rule list_all2_lengthD [symmetric])
  fix n assume "n < length (Columns q)"
  then have "n < length (Columns p)" using len by simp
  then show "same_column (Columns q ! n) (Columns p ! n)"
    by (rule same_column_sym [OF list_all2_nthD [OF a]])
qed

lemma outlines_no_user_scoped_unique:
  assumes "list_all2 same_outline ps qs" "no_user_scoped_unique qs"
  shows "no_user_scoped_unique ps"
  unfolding no_user_scoped_unique_def
proof
  fix p assume "p \<in> set ps"
  then obtain q where q: "q \<in> set qs" "same_outline p q" using list_all2_target [OF assms(1)] by blast
  have "\<not> Unique c" if c: "c \<in> set (Columns p)" and t: "Tenancy p = Some t" "UserScoped t" for c t
  proof -
    obtain d where d: "d \<in> set (Columns q)" "same_column d c"
      using list_all2_source [OF same_outline_columns_sym [OF q(2)] c] by blast
    have "Tenancy q = Some t" using same_outline_eqs(6) [OF q(2)] t(1) by simp
    then have "\<not> Unique d"
      using bspec [OF assms(2) [unfolded no_user_scoped_unique_def] q(1)] t(2) d(1) by simp
    then show ?thesis using same_column_eqs [OF d(2)] by simp
  qed
  then show "case Tenancy p of None \<Rightarrow> True
      | Some t \<Rightarrow> UserScoped t \<longrightarrow> (\<forall>c \<in> set (Columns p). \<not> Unique c)"
    by (cases "Tenancy p") auto
qed

text \<open>The stages of a run that succeeds.\<close>

lemma generate_Ok:
  assumes "generate mp fs = Ok outs"
  obtains pending plans where
    "resolve_files mp fs = Ok ([], pending)" "detectDuplicateTables pending = []"
    "resolveForeignKeys (map PePlan pending) = (plans, [])" "emit_all (with_plans pending plans) = Ok outs"
  using assms that by (auto simp: generate_def Let_def go_simps split: outcome.splits prod.splits if_splits)

lemma with_plans_parts:
  assumes "list_all2 same_outline (map PePlan pending) plans"
  shows "map PePlan (with_plans pending plans) = plans" "map PeGoDir (with_plans pending plans) = map PeGoDir pending"
  using assms by (auto simp: with_plans_def list_eq_iff_nth_eq list_all2_conv_all_nth)

lemma generate_stages:
  assumes "generate mp fs = Ok outs"
  obtains pending where
    "\<forall>u \<in> set (concat fs). rejectNestedTableAnnotations (PuTree u) = None"
    "list_all2 (pending_of mp) (table_units (concat fs)) pending" "distinct (map table_key pending)"
    "resolveForeignKeys (map PePlan pending) = (map EmPlan outs, [])"
    "list_all2 same_outline (map PePlan pending) (map EmPlan outs)"
    "map EmDir outs = map PeGoDir pending"
    "\<forall>e \<in> set outs. renderSchemaSQL (EmPlan e) = Some (EmDDL e) \<and> emitSchema (EmPlan e) = Ok (EmSchema e)"
proof -
  obtain pending plans where
    r: "resolve_files mp fs = Ok ([], pending)" and d: "detectDuplicateTables pending = []"
    and k: "resolveForeignKeys (map PePlan pending) = (plans, [])" and e: "emit_all (with_plans pending plans) = Ok outs"
    by (rule generate_Ok [OF assms])
  note outline = resolveForeignKeys_outlines [OF k]
  note parts = with_plans_parts [OF outline]
  have em: "map (\<lambda>e. (EmDir e, EmPlan e)) outs
      = map (\<lambda>pe. (PeGoDir pe, PePlan pe)) (with_plans pending plans)"
    using emit_all_Ok [OF e] by blast
  have "map EmPlan outs = plans" "map EmDir outs = map PeGoDir pending"
    using arg_cong [OF em, of "map snd"] arg_cong [OF em, of "map fst"] parts by (simp_all add: comp_def)
  moreover have "distinct (map table_key pending)"
    using d by (simp add: detectDuplicateTables_def detect_duplicates_Nil)
  ultimately show thesis
    using that resolve_files_Ok [OF r] outline k emit_all_Ok [OF e] by blast
qed

lemma outputs_of_units:
  assumes "generate mp fs = Ok outs"
  shows "list_all2 (\<lambda>u out. \<exists>p. resolveResource mp (PuMessage u) = Ok (Some p)
      \<and> same_outline p (EmPlan out) \<and> EmDir out = unit_dir mp u) (table_units (concat fs)) outs"
proof -
  obtain pending where
    u: "list_all2 (pending_of mp) (table_units (concat fs)) pending"
    and o: "list_all2 same_outline (map PePlan pending) (map EmPlan outs)"
    and d: "map EmDir outs = map PeGoDir pending"
    by (rule generate_stages [OF assms])
  have len: "length (table_units (concat fs)) = length pending" "length pending = length outs"
    using list_all2_lengthD [OF u] list_all2_lengthD [OF o] by simp_all
  show ?thesis
  proof (rule list_all2_all_nthI)
    fix n assume n: "n < length (table_units (concat fs))"
    then have "same_outline (PePlan (pending ! n)) (EmPlan (outs ! n))"
      using list_all2_nthD [OF o, of n] len by simp
    moreover have "EmDir (outs ! n) = PeGoDir (pending ! n)"
      using arg_cong [OF d, of "\<lambda>xs. xs ! n"] n len by simp
    ultimately show "\<exists>p. resolveResource mp (PuMessage (table_units (concat fs) ! n)) = Ok (Some p)
        \<and> same_outline p (EmPlan (outs ! n)) \<and> EmDir (outs ! n) = unit_dir mp (table_units (concat fs) ! n)"
      using list_all2_nthD [OF u n] by auto
  qed (use len in simp)
qed

text \<open>Two outputs of a run do not share a directory and a table.\<close>

lemma outputs_distinct:
  assumes "generate mp fs = Ok outs"
  shows "distinct (map (\<lambda>out. (EmDir out, TableName (EmPlan out))) outs)"
proof -
  obtain pending where
    k: "distinct (map table_key pending)"
    and o: "list_all2 same_outline (map PePlan pending) (map EmPlan outs)"
    and d: "map EmDir outs = map PeGoDir pending"
    by (rule generate_stages [OF assms])
  have len: "length outs = length pending" using list_all2_lengthD [OF o] by simp
  let ?key = "\<lambda>(dir, table). dir @ ''|'' @ table"
  have "map table_key pending = map ?key (map (\<lambda>out. (EmDir out, TableName (EmPlan out))) outs)"
  proof (rule nth_equalityI)
    fix n assume "n < length (map table_key pending)"
    then have n: "n < length pending" by simp
    have "TableName (EmPlan (outs ! n)) = TableName (PePlan (pending ! n))"
      using same_outline_eqs(1) [OF list_all2_nthD [OF o, of n, simplified nth_map]] n len by simp
    moreover have "EmDir (outs ! n) = PeGoDir (pending ! n)"
      using arg_cong [OF d, of "\<lambda>xs. xs ! n"] n len by simp
    ultimately show "map table_key pending ! n = map ?key (map (\<lambda>out. (EmDir out, TableName (EmPlan out))) outs) ! n"
      using n len by (simp add: table_key_def)
  qed (use len in simp)
  with k have "distinct (map ?key (map (\<lambda>out. (EmDir out, TableName (EmPlan out))) outs))" by (simp only:)
  then show ?thesis by (rule conjunct1 [OF iffD1 [OF distinct_map]])
qed

lemma run_keys_backed:
  assumes "generate mp fs = Ok outs" "no_user_scoped_unique (map EmPlan outs)"
    and "out \<in> set outs" "c \<in> set (Columns (EmPlan out))" "ForeignKey c = Some fk"
  shows "backed (map EmPlan outs) fk"
proof -
  obtain pending where
    u: "list_all2 (pending_of mp) (table_units (concat fs)) pending"
    and k: "resolveForeignKeys (map PePlan pending) = (map EmPlan outs, [])"
    and o: "list_all2 same_outline (map PePlan pending) (map EmPlan outs)"
    by (rule generate_stages [OF assms(1)])
  have "freshly_parsed (PePlan pe)" if "pe \<in> set pending" for pe
    using list_all2_source [OF u that] resolved_freshly_parsed by blast
  then have "\<forall>p \<in> set (map PePlan pending). freshly_parsed p" by auto
  from resolved_keys_backed [OF k this outlines_no_user_scoped_unique [OF o assms(2)]] assms(3-5)
  show ?thesis by auto
qed

text \<open>
  C2: A run that succeeds has rejected every table option on a nested message, at any depth, and has
  one output for each top-level message with a table option, in their order. The output comes from
  the message's resolved plan, of which foreign key resolution changed only the columns' foreign
  keys and the injected unique constraints, goes to the directory of the message's package, and
  consists of the DDL and the schema declaration of that plan. No two outputs share a
  directory and a table. Without \<^verbatim>\<open>unique\<close> columns on user-scoped tables, every foreign
  key of every output references columns that carry a unique key.
\<close>

theorem generate_sound:
  assumes "generate mp fs = Ok outs"
  shows "(\<forall>u \<in> set (concat fs). \<forall>n \<in> set (below (PuTree u)). \<not> carries_table n)
    \<and> list_all2 (\<lambda>u out. \<exists>p. resolveResource mp (PuMessage u) = Ok (Some p)
        \<and> same_outline p (EmPlan out) \<and> EmDir out = unit_dir mp u) (table_units (concat fs)) outs
    \<and> (\<forall>out \<in> set outs. renderSchemaSQL (EmPlan out) = Some (EmDDL out) \<and> emitSchema (EmPlan out) = Ok (EmSchema out))
    \<and> distinct (map (\<lambda>out. (EmDir out, TableName (EmPlan out))) outs)
    \<and> (no_user_scoped_unique (map EmPlan outs) \<longrightarrow>
        (\<forall>out \<in> set outs. \<forall>c \<in> set (Columns (EmPlan out)). \<forall>fk. ForeignKey c = Some fk \<longrightarrow> backed (map EmPlan outs) fk))"
proof (intro conjI)
  show "\<forall>u \<in> set (concat fs). \<forall>n \<in> set (below (PuTree u)). \<not> carries_table n"
    by (rule generate_stages [OF assms]) (simp only: rejectNested_None)
  show "\<forall>out \<in> set outs. renderSchemaSQL (EmPlan out) = Some (EmDDL out) \<and> emitSchema (EmPlan out) = Ok (EmSchema out)"
    by (rule generate_stages [OF assms])
  show "no_user_scoped_unique (map EmPlan outs) \<longrightarrow>
      (\<forall>out \<in> set outs. \<forall>c \<in> set (Columns (EmPlan out)). \<forall>fk. ForeignKey c = Some fk \<longrightarrow> backed (map EmPlan outs) fk)"
    using run_keys_backed [OF assms] by blast
qed (rule outputs_of_units [OF assms] outputs_distinct [OF assms])+

section \<open>A run always returns\<close>

lemma pending_ready:
  assumes "list_all2 (pending_of mp) us pending" "resolveForeignKeys (map PePlan pending) = (plans, errs)"
  shows "\<forall>pe \<in> set (with_plans pending plans). ddl_ready (PePlan pe)"
proof
  note o = resolveForeignKeys_outlines [OF assms(2)]
  fix pe assume "pe \<in> set (with_plans pending plans)"
  then have "PePlan pe \<in> set (map PePlan (with_plans pending plans))" by simp
  then have "PePlan pe \<in> set plans" using with_plans_parts(1) [OF o] by simp
  from list_all2_source [OF o this] obtain pe' where
    "pe' \<in> set pending" "same_outline (PePlan pe') (PePlan pe)" by auto
  moreover from list_all2_source [OF assms(1) this(1)] have "ddl_ready (PePlan pe')"
    using resolved_ddl_ready by blast
  ultimately show "ddl_ready (PePlan pe)" using same_outline_ready by blast
qed

lemma generate_not_Panic: "generate mp fs \<noteq> Panic"
proof -
  obtain errs pending where r: "resolve_files mp fs = Ok (errs, pending)"
    using resolve_files_no_panic [of mp fs] by auto
  obtain plans fk_errs where k: "resolveForeignKeys (map PePlan pending) = (plans, fk_errs)" by fastforce
  have "emit_all (with_plans pending plans) \<noteq> Panic" if "errs = []"
    using emit_all_total pending_ready [OF _ k] resolve_files_Ok [of mp fs pending] r that by blast
  with r k show ?thesis by (auto simp: generate_def Let_def go_simps)
qed

lemma emit_all_succeeds:
  "\<forall>pe \<in> set pes. ddl_ready (PePlan pe) \<Longrightarrow>
     (\<exists>es. emit_all pes = Ok es) \<longleftrightarrow> (\<forall>pe \<in> set pes. \<exists>d. emitSchema (PePlan pe) = Ok d)"
proof (induction pes)
  case (Cons pe pes)
  obtain ddl where r: "renderSchemaSQL (PePlan pe) = Some ddl"
    using ready_renders [of "PePlan pe"] Cons(2) by auto
  from Cons show ?case
    by (cases "emitSchema (PePlan pe)"; cases "emit_all pes") (auto simp: r)
qed simp

lemma generate_outcome:
  "generate mp fs \<noteq> Panic
   \<and> ((\<exists>outs. generate mp fs = Ok outs) \<longleftrightarrow>
      (\<exists>pending plans. resolve_files mp fs = Ok ([], pending) \<and> distinct (map table_key pending)
        \<and> resolveForeignKeys (map PePlan pending) = (plans, [])
        \<and> (\<forall>p \<in> set plans. \<exists>d. emitSchema p = Ok d)))"
proof -
  obtain errs pending where r: "resolve_files mp fs = Ok (errs, pending)"
    using resolve_files_no_panic [of mp fs] by auto
  obtain plans fk_errs where k: "resolveForeignKeys (map PePlan pending) = (plans, fk_errs)" by fastforce
  have "\<forall>pe \<in> set (with_plans pending plans). ddl_ready (PePlan pe)" if "errs = []"
    using pending_ready [OF _ k] resolve_files_Ok [of mp fs pending] r that by blast
  then have "(\<exists>es. emit_all (with_plans pending plans) = Ok es)
      = (\<forall>p \<in> set (map PePlan (with_plans pending plans)). \<exists>d. emitSchema p = Ok d)" if "errs = []"
    using emit_all_succeeds [of "with_plans pending plans"] that by simp
  then have "(\<exists>es. emit_all (with_plans pending plans) = Ok es) = (\<forall>p \<in> set plans. \<exists>d. emitSchema p = Ok d)"
    if "errs = []"
    using with_plans_parts(1) [OF resolveForeignKeys_outlines [OF k]] that by simp
  with r k have "(\<exists>outs. generate mp fs = Ok outs) \<longleftrightarrow>
      errs = [] \<and> distinct (map table_key pending) \<and> fk_errs = [] \<and> (\<forall>p \<in> set plans. \<exists>d. emitSchema p = Ok d)"
    by (auto simp: generate_def Let_def go_simps detectDuplicateTables_def detect_duplicates_Nil)
  with r k generate_not_Panic show ?thesis by auto
qed

text \<open>
  C15: The generator never panics, and it succeeds exactly when every message resolves and none has a
  table option on a nested message, no two messages take one table of a directory, every foreign key
  resolves, and every plan has a schema (each order column has a cursor codec). The emission of the
  DDL never fails.
\<close>

theorem generate_total:
  "generate mp fs \<noteq> Panic
   \<and> ((\<exists>outs. generate mp fs = Ok outs) \<longleftrightarrow>
      (\<exists>pending plans. resolve_files mp fs = Ok ([], pending) \<and> distinct (map table_key pending)
        \<and> resolveForeignKeys (map PePlan pending) = (plans, [])
        \<and> (\<forall>p \<in> set plans. \<exists>d. emitSchema p = Ok d)))"
  by (rule generate_outcome)

section \<open>The types of the jet model\<close>

lemma override_column_lookup:
  "(case override_column table out c t of None \<Rightarrow> None | Some cols \<Rightarrow> cols n) =
     (if Kind c = KindRepeated RTimestamp \<and> t = table \<and> n = DBName c
      then Some \<lparr>TtImport = jettypesImport, TtName = ''jettypes.TimestampArray''\<rparr>
      else case out t of None \<Rightarrow> None | Some cols \<Rightarrow> cols n)"
  by (auto simp: override_column_def split: option.splits)

definition looked_up :: "overrides \<Rightarrow> string \<Rightarrow> string \<Rightarrow> template_type option" where
  "looked_up out t n = (case out t of None \<Rightarrow> None | Some cols \<Rightarrow> cols n)"

definition wants_array :: "resource_plan \<Rightarrow> string \<Rightarrow> string \<Rightarrow> bool" where
  "wants_array p t n \<longleftrightarrow>
     TableName p = t \<and> (\<exists>c \<in> set (Columns p). DBName c = n \<and> Kind c = KindRepeated RTimestamp)"

lemma override_columns_lookup:
  "looked_up (foldl (override_column table) out cs) t n =
     (if t = table \<and> (\<exists>c \<in> set cs. DBName c = n \<and> Kind c = KindRepeated RTimestamp)
      then Some \<lparr>TtImport = jettypesImport, TtName = ''jettypes.TimestampArray''\<rparr> else looked_up out t n)"
  by (induction cs arbitrary: out) (auto simp: looked_up_def override_column_lookup)

lemma overrides_lookup:
  "looked_up (foldl (\<lambda>out p. foldl (override_column (TableName p)) out (Columns p)) out ps) t n =
     (if \<exists>p \<in> set ps. wants_array p t n
      then Some \<lparr>TtImport = jettypesImport, TtName = ''jettypes.TimestampArray''\<rparr> else looked_up out t n)"
  by (induction ps arbitrary: out) (auto simp: override_columns_lookup wants_array_def)

lemma jetColumnOverrides_lookup:
  "looked_up (jetColumnOverrides ps) t n =
     (if \<exists>p \<in> set ps. wants_array p t n
      then Some \<lparr>TtImport = jettypesImport, TtName = ''jettypes.TimestampArray''\<rparr> else None)"
  using overrides_lookup [of Map.empty ps t n] by (simp add: jetColumnOverrides_def looked_up_def)

lemma customise_field_lookup:
  "customise_field ov t n nullable chosen =
     (case looked_up ov t n of
        None \<Rightarrow> chosen
      | Some typ \<Rightarrow> if nullable \<and> \<not> prefix ''*'' (TtName typ) then typ\<lparr>TtName := ''*'' @ TtName typ\<rparr> else typ)"
  by (auto simp: customise_field_def looked_up_def split: option.splits)

lemma timestamps_go_type:
  assumes "column_wf c" "Kind c = KindRepeated RTimestamp"
  shows "JetGoType c = (if Nullable c then ''*'' else []) @ ''jettypes.TimestampArray''"
proof -
  have "SQLType c = ''TIMESTAMPTZ[]''" using assms by (simp add: column_wf_def)
  moreover have "go_type ''TIMESTAMPTZ[]'' = Some ''jettypes.TimestampArray''" by code_simp
  ultimately show ?thesis using assms(1) by (auto simp: column_wf_def split: if_splits)
qed

lemma output_column:
  assumes "resolveResource mp m = Ok (Some p)" "same_outline p q"
  shows "distinct (map DBName (Columns q))"
    and "d \<in> set (Columns q) \<Longrightarrow> Kind d = KindRepeated RTimestamp \<Longrightarrow>
      JetGoType d = (if Nullable d then ''*'' else []) @ ''jettypes.TimestampArray''"
proof -
  have l2: "list_all2 same_column (Columns p) (Columns q)" using assms(2) unfolding same_outline_def by blast
  have "map DBName (Columns q) = map DBName (Columns p)"
  proof (rule nth_equalityI)
    fix n assume "n < length (map DBName (Columns q))"
    then show "map DBName (Columns q) ! n = map DBName (Columns p) ! n"
      using same_column_eqs [OF list_all2_nthD [OF l2, of n]] list_all2_lengthD [OF l2] by simp
  qed (use list_all2_lengthD [OF l2] in simp)
  moreover have "distinct (column_names p)" using resolved_plan_ok [OF assms(1)] unfolding plan_ok_def by blast
  ultimately show "distinct (map DBName (Columns q))" by (simp add: column_names_def)
  assume d: "d \<in> set (Columns q)" "Kind d = KindRepeated RTimestamp"
  obtain c where c: "c \<in> set (Columns p)" "same_column c d" using list_all2_source [OF l2 d(1)] by blast
  have e: "d\<lparr>ForeignKey := None\<rparr> = c\<lparr>ForeignKey := None\<rparr>" using c(2) unfolding same_column_def .
  have k: "Kind d = Kind c" "Nullable d = Nullable c" "JetGoType d = JetGoType c"
    using arg_cong [OF e, of Kind] arg_cong [OF e, of Nullable] arg_cong [OF e, of JetGoType] by simp_all
  have "\<not> (\<exists>t. c \<in> set (scope_columns (Some t)))"
    using d(2) k(1) by (auto simp: scope_columns_def synthesised_column_def)
  with resolved_column [OF assms(1) c(1)] obtain f where "resolveColumn f = Ok (Some c)" by blast
  then show "JetGoType d = (if Nullable d then ''*'' else []) @ ''jettypes.TimestampArray''"
    using timestamps_go_type [OF resolved_column_wf] d(2) k by simp
qed

text \<open>
  C28: In the jet pass over one directory, the template hook gives a column of type
  \<^verbatim>\<open>TIMESTAMPTZ[]\<close> exactly the Go type that the plan, and with it the mapper, assumes for
  it, with the pointer of a nullable column, and leaves every other column of every table of
  the directory as go-jet typed it.
\<close>

theorem jet_model_types:
  assumes "generate mp fs = Ok outs" "out \<in> set outs" "c \<in> set (Columns (EmPlan out))"
  shows "customise_field (jetColumnOverrides (map EmPlan (filter (\<lambda>o'. EmDir o' = EmDir out) outs)))
      (TableName (EmPlan out)) (DBName c) (Nullable c) chosen =
    (if Kind c = KindRepeated RTimestamp then \<lparr>TtImport = jettypesImport, TtName = JetGoType c\<rparr> else chosen)"
proof -
  let ?ps = "map EmPlan (filter (\<lambda>o'. EmDir o' = EmDir out) outs)"
  let ?t = "TableName (EmPlan out)"
  obtain m p where r: "resolveResource mp m = Ok (Some p)" "same_outline p (EmPlan out)"
    using list_all2_source [OF outputs_of_units [OF assms(1)] assms(2)] by blast
  have one: "EmPlan o' = EmPlan out" if "o' \<in> set outs" "EmDir o' = EmDir out" "TableName (EmPlan o') = ?t" for o'
    using that assms(2) outputs_distinct [OF assms(1)]
    by (metis (mono_tags, lifting) distinct_map inj_onD)
  have cols: "d = c" if "d \<in> set (Columns (EmPlan out))" "DBName d = DBName c" for d
    using that assms(3) output_column(1) [OF r] by (metis distinct_map inj_onD)
  have "wants_array q ?t (DBName c) \<longleftrightarrow> q = EmPlan out \<and> Kind c = KindRepeated RTimestamp" if "q \<in> set ?ps" for q
  proof -
    have "TableName q = ?t \<longleftrightarrow> q = EmPlan out" using that one by auto
    then show ?thesis using cols assms(3) by (auto simp: wants_array_def)
  qed
  moreover have "EmPlan out \<in> set ?ps" using assms(2) by auto
  ultimately have "(\<exists>q \<in> set ?ps. wants_array q ?t (DBName c)) \<longleftrightarrow> Kind c = KindRepeated RTimestamp" by blast
  then show ?thesis
    using output_column(2) [OF r assms(3)] by (simp add: customise_field_lookup jetColumnOverrides_lookup prefix_def)
qed

section \<open>A run on two files\<close>

definition times_message :: proto_message where
  "times_message = \<lparr>msg_file = ''lib/v1/times.proto'', msg_fqn = ''lib.v1.Times'', msg_comment = [],
     msg_go_name = ''Times'', msg_go_pkg = ''example.com/lib/v1'',
     msg_fields = [plain_field ''id'' StringKind (no_column_option\<lparr>col_orderable := True\<rparr>),
       (plain_field ''checkpoints'' MessageKind (no_column_option\<lparr>col_nullable := True\<rparr>))
         \<lparr>fld_is_list := True, fld_message := ''google.protobuf.Timestamp''\<rparr>],
     msg_oneofs = [],
     msg_table = Some \<lparr>tb_name = ''times'', tb_primary_key = [''id''], tb_tenancy = None, tb_indexes = [],
        tb_partition = None, tb_custom_sql = [], tb_default_order = ''id'', tb_tie_breaker = ''id''\<rparr>\<rparr>"

definition library_units :: "proto_unit list list" where
  "library_units =
     [[\<lparr>PuSource = ''run.proto:3: Run'', PuTree = Nested ''Run'' True [Nested ''Inner'' False []],
        PuMessage = sample_message, PuOutput = no_output\<rparr>],
      [\<lparr>PuSource = ''times.proto:3: Times'', PuTree = Nested ''Times'' True [],
        PuMessage = times_message, PuOutput = no_output\<rparr>]]"

definition times_plan :: resource_plan where
  "times_plan = (case resolveResource ''example.com/lib'' times_message of Ok (Some p) \<Rightarrow> p | _ \<Rightarrow> empty_plan)"

lemma times_plan_resolved: "resolveResource ''example.com/lib'' times_message = Ok (Some times_plan)"
proof -
  have "case resolveResource ''example.com/lib'' times_message of Ok (Some p) \<Rightarrow> True | _ \<Rightarrow> False"
    by code_simp
  then show ?thesis
    by (auto simp: times_plan_def split: outcome.splits option.splits)
qed

lemma no_keys_resolve:
  assumes "\<forall>p \<in> set ps. list_all (\<lambda>c. ForeignKey c = None) (Columns p)"
  shows "resolveForeignKeys ps = (ps, [])"
proof -
  have none: "ForeignKey (Columns (ps ! i) ! ci) = None" if "(i, ci) \<in> set (fk_positions ps)" for i ci
    using that assms by (auto simp: fk_positions_set list_all_length all_set_conv_all_nth [of ps])
  have "resolve_positions ps xs = (ps, [])"
    if "\<forall>(i, ci) \<in> set xs. ForeignKey (Columns (ps ! i) ! ci) = None" for ps xs
    using that by (induction ps xs rule: resolve_positions.induct) auto
  from this [of "fk_positions ps" ps] none show ?thesis by (auto simp: resolveForeignKeys_def)
qed

text \<open>A run over messages without foreign keys whose schemas can be emitted.\<close>

lemma plain_run:
  assumes "resolve_files mp units = Ok ([], pending)" "distinct (map table_key pending)"
    and "\<forall>p \<in> set (map PePlan pending). list_all (\<lambda>c. ForeignKey c = None) (Columns p) \<and> is_ok (emitSchema p)"
  obtains outs where "generate mp units = Ok outs" "map EmPlan outs = map PePlan pending" "map EmDir outs = map PeGoDir pending"
proof -
  have k: "resolveForeignKeys (map PePlan pending) = (map PePlan pending, [])"
    by (rule no_keys_resolve) (use assms(3) in auto)
  have "\<forall>p \<in> set (map PePlan pending). \<exists>d. emitSchema p = Ok d"
    using assms(3) by (auto simp: is_ok_iff)
  with assms(1,2) k generate_outcome [of mp units]
  obtain outs where g: "generate mp units = Ok outs" by auto
  have "emit_all (with_plans pending (map PePlan pending)) = Ok outs"
    using g assms(1,2) k by (simp add: generate_def Let_def go_simps detectDuplicateTables_def detect_duplicates_Nil)
  moreover have "with_plans pending (map PePlan pending) = pending"
    by (induction pending) (simp_all add: with_plans_def)
  ultimately have "map (\<lambda>e. (EmDir e, EmPlan e)) outs = map (\<lambda>pe. (PeGoDir pe, PePlan pe)) pending"
    using emit_all_Ok by fastforce
  from arg_cong [OF this, of "map fst"] arg_cong [OF this, of "map snd"] g that show thesis
    by (simp add: comp_def)
qed

lemma library_runs:
  obtains outs where "generate ''example.com/lib'' library_units = Ok outs"
    "map EmPlan outs = [sample_resource, times_plan]" "map EmDir outs = [''v1/storage'', ''v1/storage'']"
proof -
  let ?dir = "''v1/storage''"
  let ?pending = "[\<lparr>PeSource = ''run.proto:3: Run'', PeGoDir = ?dir, PePlan = sample_resource\<rparr>,
    \<lparr>PeSource = ''times.proto:3: Times'', PeGoDir = ?dir, PePlan = times_plan\<rparr>]"
  have dir: "GoDir (resolveOutput ''example.com/lib'' ''example.com/lib/v1'' no_output) = ?dir" by code_simp
  have go: "msg_go_pkg sample_message = ''example.com/lib/v1''" "msg_go_pkg times_message = ''example.com/lib/v1''"
    by (simp_all add: sample_message_def times_message_def)
  have r: "resolve_files ''example.com/lib'' library_units = Ok ([], ?pending)"
    by (simp add: library_units_def sample_resource_resolved times_plan_resolved go dir nested_errors_def
        List.map_filter_def)
  have names: "TableName sample_resource = ''runs''" "TableName times_plan = ''times''" by code_simp+
  have d: "distinct (map table_key ?pending)" by (simp add: table_key_def names)
  have "list_all (\<lambda>c. ForeignKey c = None) (Columns sample_resource)" "is_ok (emitSchema sample_resource)"
    "list_all (\<lambda>c. ForeignKey c = None) (Columns times_plan)" "is_ok (emitSchema times_plan)"
    by code_simp+
  then have "\<forall>p \<in> set (map PePlan ?pending). list_all (\<lambda>c. ForeignKey c = None) (Columns p) \<and> is_ok (emitSchema p)"
    by simp
  from plain_run [OF r d this] that show thesis by auto
qed

theorem generate_sound_witness:
  "\<exists>outs. generate ''example.com/lib'' library_units = Ok outs
     \<and> map EmPlan outs = [sample_resource, times_plan]
     \<and> distinct (map (\<lambda>out. (EmDir out, TableName (EmPlan out))) outs)
     \<and> (\<forall>out \<in> set outs. renderSchemaSQL (EmPlan out) = Some (EmDDL out))"
proof (rule library_runs, rule exI)
  fix outs assume o: "generate ''example.com/lib'' library_units = Ok outs" "map EmPlan outs = [sample_resource, times_plan]"
  from generate_sound [OF o(1)] o show "generate ''example.com/lib'' library_units = Ok outs
     \<and> map EmPlan outs = [sample_resource, times_plan]
     \<and> distinct (map (\<lambda>out. (EmDir out, TableName (EmPlan out))) outs)
     \<and> (\<forall>out \<in> set outs. renderSchemaSQL (EmPlan out) = Some (EmDDL out))" by simp
qed

theorem generate_total_witness:
  "\<exists>pending plans. resolve_files ''example.com/lib'' library_units = Ok ([], pending)
     \<and> distinct (map table_key pending) \<and> (\<forall>p \<in> set plans. \<exists>d. emitSchema p = Ok d)"
proof (rule library_runs)
  fix outs assume "generate ''example.com/lib'' library_units = Ok outs"
  with generate_total [of "''example.com/lib''" library_units] show ?thesis by blast
qed

theorem jet_model_types_witness:
  "customise_field (jetColumnOverrides [sample_resource, times_plan]) ''times'' ''checkpoints'' True
     \<lparr>TtImport = [], TtName = ''string''\<rparr>
   = \<lparr>TtImport = jettypesImport, TtName = ''*jettypes.TimestampArray''\<rparr>"
proof (rule library_runs)
  fix outs
  assume o: "generate ''example.com/lib'' library_units = Ok outs" "map EmPlan outs = [sample_resource, times_plan]"
    "map EmDir outs = [''v1/storage'', ''v1/storage'']"
  then obtain o1 o2 where e: "outs = [o1, o2]" "EmPlan o1 = sample_resource" "EmPlan o2 = times_plan"
    "EmDir o1 = ''v1/storage''" "EmDir o2 = ''v1/storage''"
    by (auto simp: map_eq_Cons_conv)
  let ?c = "Columns times_plan ! 1"
  have "(TableName times_plan, map (\<lambda>c. (DBName c, Nullable c, Kind c, JetGoType c)) (Columns times_plan)) =
      (''times'', [(''id'', False, KindScalar, ''string''),
        (''checkpoints'', True, KindRepeated RTimestamp, ''*jettypes.TimestampArray'')])"
    by code_simp
  then have c: "length (Columns times_plan) = 2" "DBName ?c = ''checkpoints''" "Nullable ?c" "Kind ?c = KindRepeated RTimestamp"
    "JetGoType ?c = ''*jettypes.TimestampArray''" "TableName times_plan = ''times''"
    by (auto simp: map_eq_Cons_conv)
  from nth_mem [of 1 "Columns times_plan"] c(1) have "?c \<in> set (Columns (EmPlan o2))" by (simp add: e)
  from jet_model_types [OF o(1) _ this, of "\<lparr>TtImport = [], TtName = ''string''\<rparr>"]
  show ?thesis by (simp add: e c [unfolded One_nat_def])
qed

section \<open>Where the code lands\<close>

text \<open>A relative path in normal form: its components are names.\<close>

definition path_parts :: "string list \<Rightarrow> bool" where
  "path_parts ps \<longleftrightarrow> ps \<noteq> [] \<and> (\<forall>q \<in> set ps. q \<noteq> [] \<and> q \<noteq> ''.'' \<and> q \<noteq> ''..'' \<and> CHR ''/'' \<notin> set q)"

lemma clean_parts:
  "\<forall>q \<in> set ps. q \<noteq> [] \<and> q \<noteq> ''.'' \<and> q \<noteq> ''..'' \<Longrightarrow> foldl (clean_step r) acc ps = acc @ ps"
  by (induction ps arbitrary: acc) auto

lemma join_relative: "path_parts ps \<Longrightarrow> \<not> prefix ''/'' (join ''/'' ps) \<and> join ''/'' ps \<noteq> []"
proof -
  assume p: "path_parts ps"
  then obtain q qs where ps: "ps = q # qs" by (cases ps) (auto simp: path_parts_def)
  with p obtain c w where q: "q = c # w" "c \<noteq> CHR ''/''" by (cases q) (auto simp: path_parts_def)
  show ?thesis by (cases qs) (use q ps in auto)
qed

lemma Clean_parts:
  assumes "path_parts ps"
  shows "filepath_Clean (join ''/'' ps) = join ''/'' ps"
proof -
  have "split_on CHR ''/'' (join ''/'' ps) = ps"
    using assms split_on_join [of ps "CHR ''/''"] by (simp add: path_parts_def)
  moreover have "foldl (clean_step False) [] ps = ps"
    using assms clean_parts [of ps False "[]"] by (simp add: path_parts_def)
  ultimately show ?thesis using join_relative [OF assms] by (simp add: filepath_Clean_def Let_def)
qed

lemma join_append_storage: "ps \<noteq> [] \<Longrightarrow> join ''/'' (ps @ [q]) = join ''/'' ps @ ''/'' @ q"
  by (induction "''/''" ps rule: join.induct) auto

text \<open>
  For a package below the module's root the derived paths agree: the code goes to the
  package's directory followed by \<^verbatim>\<open>storage\<close>, its import path is the package's followed
  by \<^verbatim>\<open>/storage\<close>, and the import paths of the jet packages are those of the
  directories that the jet pass writes below it.
\<close>

theorem output_paths_agree:
  assumes "path_parts rel"
  shows "let out = resolveOutput modulePath (modulePath @ ''/'' @ join ''/'' rel) no_output in
      GoDir out = join ''/'' rel @ ''/storage''
      \<and> GoImportPath out = modulePath @ ''/'' @ join ''/'' rel @ ''/storage''
      \<and> JetModelImport out = modulePath @ ''/'' @ filepath_Join [GoDir out, ''jet'', ''public'', ''model'']
      \<and> JetTableImport out = modulePath @ ''/'' @ filepath_Join [GoDir out, ''jet'', ''public'', ''table'']"
proof -
  have J: "filepath_Join [join ''/'' (rel @ ps), q] = join ''/'' (rel @ ps @ [q])"
    if "path_parts (ps @ [q])" for ps q
  proof -
    have p: "path_parts (rel @ ps)" "path_parts (rel @ ps @ [q])" "q \<noteq> []"
      using assms that by (auto simp: path_parts_def)
    then have "join ''/'' (rel @ ps) @ ''/'' @ q = join ''/'' (rel @ ps @ [q])"
      using join_append_storage [of "rel @ ps" q] by (simp add: path_parts_def)
    then show ?thesis
      using Clean_parts [OF p(2)] join_relative [OF p(1)] p(3) by (simp add: filepath_Join_def)
  qed
  have d: "join ''/'' (rel @ [''storage'']) = join ''/'' rel @ ''/storage''"
    using join_append_storage [of rel "''storage''"] assms by (simp add: path_parts_def)
  have "filepath_Join [join ''/'' rel, ''storage''] = join ''/'' rel @ ''/storage''"
    using J [of "[]" "''storage''"] d by (simp add: path_parts_def)
  moreover have "filepath_Join [join ''/'' rel @ ''/storage'', ''jet'', ''public'', t] = join ''/'' rel @ ''/storage/jet/public/'' @ t"
    if "t = ''model'' \<or> t = ''table''" for t
  proof -
    let ?ps = "rel @ [''storage'', ''jet'', ''public'', t]"
    have "t \<noteq> []" "t \<noteq> ''.''" "t \<noteq> ''..''" "CHR ''/'' \<notin> set t" using that by (elim disjE; simp)+
    then have p: "path_parts ?ps" using assms by (simp add: path_parts_def)
    have "join ''/'' (rel @ [''storage'']) @ ''/jet/public/'' @ t = join ''/'' ?ps"
      using join_append_storage [of "rel @ [''storage'', ''jet'', ''public'']" t]
        join_append_storage [of "rel @ [''storage'', ''jet'']" "''public''"]
        join_append_storage [of "rel @ [''storage'']" "''jet''"] by simp
    with d have "join ''/'' ?ps = join ''/'' rel @ ''/storage/jet/public/'' @ t" by simp
    with Clean_parts [OF p] \<open>t \<noteq> []\<close> show ?thesis by (simp add: filepath_Join_def)
  qed
  moreover have "trim_prefix (modulePath @ ''/'') (modulePath @ ''/'' @ join ''/'' rel) = join ''/'' rel"
    using trim_prefix_append [of "modulePath @ ''/''" "join ''/'' rel"] by simp
  ultimately show ?thesis
    by (simp add: resolveOutput_def Let_def valOr_def no_output_def)
qed

theorem output_paths_agree_witness:
  "GoDir (resolveOutput ''example.com/lib'' (''example.com/lib'' @ ''/'' @ join ''/'' [''books'', ''v1'']) no_output)
     = ''books/v1/storage''"
proof -
  have "path_parts [''books'', ''v1'']" by (simp add: path_parts_def)
  from output_paths_agree [OF this, of "''example.com/lib''"] show ?thesis by (simp add: Let_def)
qed

text \<open>
  For a package at the module's root the prefix with its slash is not there to strip:
  the directory repeats the module path and the import paths disagree with it.
\<close>

theorem module_root_misplaced:
  "let out = resolveOutput ''example.com/lib'' ''example.com/lib'' no_output in
     GoDir out = ''example.com/lib/storage''
     \<and> GoImportPath out = ''example.com/lib/example.com/lib/storage''
     \<and> JetModelImport out = ''example.com/lib/storage/jet/public/model''"
  by code_simp

text \<open>A comment behind the module directive of \<^verbatim>\<open>go.mod\<close> becomes part of the path.\<close>

theorem go_mod_comment_kept:
  "readGoModulePath (''module example.com/lib // Deprecated: moved.'' @ nl @ ''go 1.22'' @ nl)
     = Some ''example.com/lib // Deprecated: moved.''"
  by code_simp

text \<open>
  A role with a double quote, which the policies of the DDL quote correctly, is another role in the
  statement that the jet pass creates it with.
\<close>

theorem role_statement_unescaped:
  "let role = ''app'' @ [CHR 0x22] @ ''x'' in
     read_ident (pgIdent role) = Some (role, []) \<and> read_ident (role_in_statement role) = Some (''app'', ''x'' @ [CHR 0x22])"
  by code_simp

section \<open>Keys that may be null\<close>

text \<open>
  The resolver accepts a nullable column in the primary key. PostgreSQL makes it
  \<^verbatim>\<open>NOT NULL\<close>, so that go-jet types it without the pointer that the plan records.
\<close>

definition null_key_message :: proto_message where
  "null_key_message = times_message
     \<lparr>msg_fields := [plain_field ''id'' StringKind (no_column_option\<lparr>col_orderable := True\<rparr>),
        (plain_field ''area'' StringKind (no_column_option\<lparr>col_nullable := True\<rparr>))\<lparr>fld_optional := True\<rparr>],
      msg_table := map_option (\<lambda>t. t\<lparr>tb_primary_key := [''id'', ''area'']\<rparr>) (msg_table times_message)\<rparr>"

theorem nullable_key_accepted:
  "case resolveResource ''example.com/lib'' null_key_message of
     Ok (Some p) \<Rightarrow> PrimaryKey p = [''id'', ''area'']
       \<and> map (\<lambda>c. (DBName c, Nullable c, JetGoType c)) (Columns p) = [(''id'', False, ''string''), (''area'', True, ''*string'')]
   | _ \<Rightarrow> False"
  by code_simp

section \<open>Roles of the jet pass\<close>

text \<open>
  Unless the environment names another role, every role that a policy of the applied files grants to
  is created first, once.
\<close>

theorem roles_created:
  "distinct (bootstrap_roles (distinctTenantRoles plans) [])
   \<and> (\<forall>p \<in> set plans. case Tenancy p of None \<Rightarrow> True | Some t \<Rightarrow>
        RuntimeRole t = [] \<or> RuntimeRole t \<in> set (bootstrap_roles (distinctTenantRoles plans) []))"
proof -
  have "RuntimeRole t \<in> set (distinctTenantRoles plans)"
    if "p \<in> set plans" "Tenancy p = Some t" "RuntimeRole t \<noteq> []" for p t
  proof -
    have "RuntimeRole t \<in> set (List.map_filter (\<lambda>p. case Tenancy p of
        None \<Rightarrow> None | Some t \<Rightarrow> if RuntimeRole t = [] then None else Some (RuntimeRole t)) plans)"
      using that by (force simp: List.map_filter_def)
    then show ?thesis by (simp add: distinctTenantRoles_def)
  qed
  moreover have "distinct (bootstrap_roles (distinctTenantRoles plans) [])"
    by (simp add: bootstrap_roles_def distinctTenantRoles_def)
  moreover have "set (distinctTenantRoles plans) \<subseteq> set (bootstrap_roles (distinctTenantRoles plans) [])"
    by (simp add: bootstrap_roles_def)
  ultimately show ?thesis by (auto split: option.splits)
qed

section \<open>What a run writes\<close>

text \<open>
  The \<^verbatim>\<open>ddl.sql\<close> files a run writes, as directory and content: \<open>emit\<close> starts with the
  DDL of a plan and goes on with the next plan when a later step of this one fails.
\<close>

definition ddl_writes :: "string \<Rightarrow> proto_unit list list \<Rightarrow> (string \<times> string) list" where
  "ddl_writes modulePath files =
     (case resolve_files modulePath files of
        Ok (errs, pending) \<Rightarrow>
          (case resolveForeignKeys (map PePlan pending) of
             (plans, fk_errs) \<Rightarrow>
               if errs \<noteq> [] \<or> detectDuplicateTables pending \<noteq> [] \<or> fk_errs \<noteq> [] then []
               else List.map_filter (\<lambda>pe. map_option (Pair (PeGoDir pe)) (renderSchemaSQL (PePlan pe)))
                      (with_plans pending plans))
      | _ \<Rightarrow> [])"

lemma map_filter_length: "\<forall>x \<in> set xs. f x \<noteq> None \<Longrightarrow> length (List.map_filter f xs) = length xs"
  by (induction xs) auto

text \<open>
  A run that fails to resolve writes nothing, but one that fails for a column without a cursor codec
  has written the DDL of every message, the failing ones included.
\<close>

theorem failed_emission_writes:
  "(generate mp fs = Err (ResolutionFailed e1) \<or> generate mp fs = Err (DuplicateTables e2)
      \<or> generate mp fs = Err (ForeignKeysFailed e3) \<longrightarrow> ddl_writes mp fs = [])
   \<and> (generate mp fs = Err (EmissionFailed e4) \<longrightarrow> length (ddl_writes mp fs) = length (table_units (concat fs)))"
proof -
  obtain errs pending where r: "resolve_files mp fs = Ok (errs, pending)"
    using resolve_files_no_panic [of mp fs] by auto
  obtain plans fk_errs where k: "resolveForeignKeys (map PePlan pending) = (plans, fk_errs)" by fastforce
  have len: "length (with_plans pending plans) = length pending"
    using list_all2_lengthD [OF resolveForeignKeys_outlines [OF k]] by (simp add: with_plans_def)
  show ?thesis
  proof (cases "errs = []")
    case True
    note u = resolve_files_Ok [of mp fs pending, unfolded r True, simplified, THEN conjunct2]
    have "renderSchemaSQL (PePlan pe) \<noteq> None" if "pe \<in> set (with_plans pending plans)" for pe
      using pending_ready [OF u k] that ready_renders by blast
    then have "length (List.map_filter (\<lambda>pe. map_option (Pair (PeGoDir pe)) (renderSchemaSQL (PePlan pe)))
        (with_plans pending plans)) = length pending"
      using len by (subst map_filter_length) auto
    with True r k list_all2_lengthD [OF u] show ?thesis
      by (auto simp: generate_def ddl_writes_def Let_def go_simps)
  next
    case False
    with r k show ?thesis by (auto simp: generate_def ddl_writes_def Let_def go_simps)
  qed
qed

end
