(* ===== verification/Mapper.thy ===== *)
theory Mapper
  imports Resource_Resolve Cursor_Codec "HOL-Library.AList"
begin

text \<open>
  \<^verbatim>\<open>cmd/protoc-gen-go-jet/emit_mapper.go\<close>: the conversion functions between a proto
  message and a go-jet row that the plugin emits. The emitter writes Go statements column by column;
  here every branch of it is the effect of the statements it writes, so that
  \<open>writeModelFromProto\<close> of a plan is the function \<^verbatim>\<open><Message>ModelFromProto\<close> of the
  generated file and \<open>writeProtoFromModel\<close> is \<^verbatim>\<open><Message>ProtoFromModel\<close>.

  The statements call packages that are not part of the repository:
  \<^verbatim>\<open>timestamppb\<close>, \<^verbatim>\<open>durationpb\<close>, \<^verbatim>\<open>wrapperspb\<close> and
  \<^verbatim>\<open>protojson\<close>, and \<^verbatim>\<open>encoding/json\<close>. They are the fields of a parameter.
\<close>

section \<open>Values\<close>

text \<open>
  Values of the generated Go code. \<open>GNil\<close> is a nil pointer, slice, map or interface; a pointer to
  a scalar is \<open>GPtr\<close>; a pointer to a message is \<open>GMsg\<close>, the message being left abstract.
  Floats are their bit patterns, times their nanoseconds since the epoch. A Go map is the list of
  its entries, in some order of iteration.
\<close>

datatype 'g go_value =
    GNil | GStr string | GBool bool | GBytes string
  | GInt32 "32 word" | GUint32 "32 word" | GInt64 "64 word" | GUint64 "64 word"
  | GFloat32 "32 word" | GFloat64 "64 word" | GEnum "32 word" | GTime int
  | GRaw string | GMsg 'g | GPtr "'g go_value"
  | GList "'g go_value list" | GMap "('g go_value \<times> 'g go_value) list"

record 'g mapper_env =
  AsTime :: "'g option \<Rightarrow> int"
  NewTimestamp :: "int \<Rightarrow> 'g"
  AsDuration :: "'g option \<Rightarrow> 64 word"
  NewDuration :: "64 word \<Rightarrow> 'g"
  GetValue :: "'g \<Rightarrow> 'g go_value"
  WrapperNew :: "string \<Rightarrow> 'g go_value \<Rightarrow> 'g"
  EmptyMessage :: "string \<Rightarrow> 'g"
  ProtoMarshal :: "'g option \<Rightarrow> string option"
  ProtoUnmarshal :: "string \<Rightarrow> string \<Rightarrow> 'g option"
  JsonMarshal :: "'g go_value \<Rightarrow> string option"
  JsonUnmarshal :: "string \<Rightarrow> string \<Rightarrow> 'g go_value option"

datatype mapper_error =
    MarshalFailed | UnmarshalFailed | BadKey string | BaseRequired string | UnknownVariant string

fun msg_of :: "'g go_value \<Rightarrow> 'g option" where
  "msg_of (GMsg g) = Some g"
| "msg_of v = None"

text \<open>The elements of a slice and the entries of a map; nil has none.\<close>

fun elems :: "'g go_value \<Rightarrow> 'g go_value list" where
  "elems (GList xs) = xs"
| "elems v = []"

fun entries :: "'g go_value \<Rightarrow> ('g go_value \<times> 'g go_value) list" where
  "entries (GMap kvs) = kvs"
| "entries v = []"

fun deref :: "'g go_value \<Rightarrow> 'g go_value" where
  "deref (GPtr v) = v"
| "deref v = v"

fun text_of :: "'g go_value \<Rightarrow> string" where
  "text_of (GStr s) = s"
| "text_of (GRaw s) = s"
| "text_of v = []"

section \<open>Conversions\<close>

definition isUnsignedInt32Kind :: "proto_kind \<Rightarrow> bool" where
  "isUnsignedInt32Kind k \<longleftrightarrow> k = IntegerKind Uint32 \<or> k = IntegerKind Fixed32"

definition isUnsignedInt64Kind :: "proto_kind \<Rightarrow> bool" where
  "isUnsignedInt64Kind k \<longleftrightarrow> k = IntegerKind Uint64 \<or> k = IntegerKind Fixed64"

text \<open>Go's conversions between integers of one width keep the bits.\<close>

fun to_int32 :: "'g go_value \<Rightarrow> 'g go_value" where
  "to_int32 (GUint32 w) = GInt32 w"
| "to_int32 v = v"

fun to_int64 :: "'g go_value \<Rightarrow> 'g go_value" where
  "to_int64 (GUint64 w) = GInt64 w"
| "to_int64 v = v"

fun to_uint32 :: "'g go_value \<Rightarrow> 'g go_value" where
  "to_uint32 (GInt32 w) = GUint32 w"
| "to_uint32 v = v"

fun to_uint64 :: "'g go_value \<Rightarrow> 'g go_value" where
  "to_uint64 (GInt64 w) = GUint64 w"
| "to_uint64 v = v"

definition cast_elem :: "string \<Rightarrow> 'g go_value \<Rightarrow> 'g go_value" where
  "cast_elem castElem v =
     (if castElem = ''int32'' then to_int32 v else if castElem = ''int64'' then to_int64 v else v)"

text \<open>
  An enum's \<^verbatim>\<open>String\<close> is the first name declared for the number, or else the number;
  \<^verbatim>\<open><Enum>_value\<close> maps the declared names to their numbers.
\<close>

definition enum_String :: "(string \<times> int) list \<Rightarrow> 'g go_value \<Rightarrow> string" where
  "enum_String values v =
     (case v of
        GEnum w \<Rightarrow>
          (case find (\<lambda>(n, i). i = sint w) values of Some (n, i) \<Rightarrow> n | None \<Rightarrow> FormatInt (sint w))
      | _ \<Rightarrow> [])"

definition enum_number :: "(string \<times> int) list \<Rightarrow> string \<Rightarrow> 32 word option" where
  "enum_number values name = map_option word_of_int (map_of values name)"

fun goMapKeyType :: "proto_kind \<Rightarrow> string" where
  "goMapKeyType StringKind = ''string''"
| "goMapKeyType BoolKind = ''bool''"
| "goMapKeyType (IntegerKind i) =
     (if i \<in> {Int32, Sint32, Sfixed32} then ''int32'' else if i \<in> {Uint32, Fixed32} then ''uint32''
      else if i \<in> {Int64, Sint64, Sfixed64} then ''int64'' else ''uint64'')"
| "goMapKeyType _ = []"

fun goMapScalarValueType :: "proto_kind \<Rightarrow> string" where
  "goMapScalarValueType BytesKind = ''[]byte''"
| "goMapScalarValueType FloatKind = ''float32''"
| "goMapScalarValueType DoubleKind = ''float64''"
| "goMapScalarValueType k = goMapKeyType k"

fun protoKindGoType :: "proto_kind \<Rightarrow> string" where
  "protoKindGoType BytesKind = ''[]byte''"
| "protoKindGoType FloatKind = ''float32''"
| "protoKindGoType DoubleKind = ''float64''"
| "protoKindGoType k = goMapKeyType k"

fun int_of_value :: "'g go_value \<Rightarrow> int" where
  "int_of_value (GInt32 w) = sint w"
| "int_of_value (GUint32 w) = uint w"
| "int_of_value (GInt64 w) = sint w"
| "int_of_value (GUint64 w) = uint w"
| "int_of_value v = 0"

text \<open>The JSON key of a map key; \<^verbatim>\<open>FormatUint\<close> prints a value that is not negative.\<close>

fun emitKeyToString :: "proto_kind \<Rightarrow> 'g go_value \<Rightarrow> string" where
  "emitKeyToString StringKind v = text_of v"
| "emitKeyToString BoolKind v = (case v of GBool b \<Rightarrow> FormatBool b | _ \<Rightarrow> [])"
| "emitKeyToString (IntegerKind i) v = FormatInt (int_of_value v)"
| "emitKeyToString _ v = []"

definition ParseIntBits :: "nat \<Rightarrow> string \<Rightarrow> int option" where
  "ParseIntBits bits s =
     (case ParseInt64 s of
        Ok v \<Rightarrow> if - (2 ^ (bits - 1)) \<le> v \<and> v < 2 ^ (bits - 1) then Some v else None
      | _ \<Rightarrow> None)"

definition ParseUintBits :: "nat \<Rightarrow> string \<Rightarrow> int option" where
  "ParseUintBits bits s =
     (case parse_uint s s of Ok v \<Rightarrow> if v < 2 ^ bits then Some v else None | _ \<Rightarrow> None)"

definition parsed_key :: "string \<Rightarrow> ('a \<Rightarrow> 'g go_value) \<Rightarrow> 'a option \<Rightarrow> (mapper_error, 'g go_value) outcome" where
  "parsed_key s con x = (case x of Some v \<Rightarrow> Ok (con v) | None \<Rightarrow> Err (BadKey s))"

fun emitStringToKey :: "proto_kind \<Rightarrow> string \<Rightarrow> (mapper_error, 'g go_value) outcome" where
  "emitStringToKey StringKind s = Ok (GStr s)"
| "emitStringToKey BoolKind s =
     (case ParseBool s of Ok b \<Rightarrow> Ok (GBool b) | _ \<Rightarrow> Err (BadKey s))"
| "emitStringToKey (IntegerKind i) s =
     (if i \<in> {Int32, Sint32, Sfixed32} then parsed_key s (\<lambda>v. GInt32 (word_of_int v)) (ParseIntBits 32 s)
      else if i \<in> {Int64, Sint64, Sfixed64} then parsed_key s (\<lambda>v. GInt64 (word_of_int v)) (ParseIntBits 64 s)
      else if i \<in> {Uint32, Fixed32} then parsed_key s (\<lambda>v. GUint32 (word_of_int v)) (ParseUintBits 32 s)
      else parsed_key s (\<lambda>v. GUint64 (word_of_int v)) (ParseUintBits 64 s))"
| "emitStringToKey _ s = Ok GNil"

section \<open>The proto message\<close>

record 'g go_message =
  MsgField :: "string \<Rightarrow> 'g go_value"
  MsgOneof :: "string \<Rightarrow> (string \<times> 'g go_value) option"

text \<open>The zero value of a kind, and of the struct field of a proto field.\<close>

fun zero_value :: "proto_kind \<Rightarrow> 'g go_value" where
  "zero_value StringKind = GStr []"
| "zero_value BoolKind = GBool False"
| "zero_value FloatKind = GFloat32 0"
| "zero_value DoubleKind = GFloat64 0"
| "zero_value EnumKind = GEnum 0"
| "zero_value (IntegerKind i) =
     (if i \<in> {Int32, Sint32, Sfixed32} then GInt32 0 else if i \<in> {Uint32, Fixed32} then GUint32 0
      else if i \<in> {Int64, Sint64, Sfixed64} then GInt64 0 else GUint64 0)"
| "zero_value _ = GNil"

definition zero_field :: "proto_field \<Rightarrow> 'g go_value" where
  "zero_field f =
     (if fld_is_list f \<or> fld_is_map f \<or> fld_optional f then GNil else zero_value (fld_kind f))"

definition field_named :: "proto_field list \<Rightarrow> string \<Rightarrow> proto_field option" where
  "field_named fs n = find (\<lambda>f. fld_name f = n) fs"

text \<open>
  \<^verbatim>\<open>p.GetX()\<close> works on a nil message and follows the pointer of an optional field;
  \<^verbatim>\<open>p.X\<close> panics on a nil message.
\<close>

definition getter :: "'g go_message option \<Rightarrow> proto_field \<Rightarrow> 'g go_value" where
  "getter p f =
     (case p of
        None \<Rightarrow> if fld_is_list f \<or> fld_is_map f then GNil else zero_value (fld_kind f)
      | Some m \<Rightarrow>
          (case MsgField m (fld_name f) of
             GPtr v \<Rightarrow> v
           | GNil \<Rightarrow> if fld_is_list f \<or> fld_is_map f then GNil else zero_value (fld_kind f)
           | v \<Rightarrow> v))"

definition field_ref :: "'g go_message option \<Rightarrow> proto_field \<Rightarrow> (mapper_error, 'g go_value) outcome" where
  "field_ref p f = (case p of None \<Rightarrow> Panic | Some m \<Rightarrow> Ok (MsgField m (fld_name f)))"

section \<open>From proto to row\<close>

definition json_text :: "'g mapper_env \<Rightarrow> 'g go_value \<Rightarrow> (mapper_error, 'g go_value) outcome" where
  "json_text env v = (case JsonMarshal env v of None \<Rightarrow> Err MarshalFailed | Some s \<Rightarrow> Ok (GStr s))"

definition proto_raw :: "'g mapper_env \<Rightarrow> 'g go_value \<Rightarrow> (mapper_error, 'g go_value) outcome" where
  "proto_raw env v = (case ProtoMarshal env (msg_of v) of None \<Rightarrow> Err MarshalFailed | Some s \<Rightarrow> Ok (GRaw s))"

text \<open>The loop that re-keys a map by strings.\<close>

definition rekeyed ::
  "proto_kind \<Rightarrow> ('g go_value \<Rightarrow> (mapper_error, 'g go_value) outcome) \<Rightarrow> 'g go_value
     \<Rightarrow> (mapper_error, 'g go_value) outcome" where
  "rekeyed k conv src =
     and_then (map_out (\<lambda>(a, v). and_then (conv v) (\<lambda>w. Ok (GStr (emitKeyToString k a), w))) (entries src))
       (\<lambda>kvs. Ok (GMap (foldl (\<lambda>dst (a, w). AList.update a w dst) [] kvs)))"

definition jsonb_text ::
  "'g mapper_env \<Rightarrow> jsonb_kind \<Rightarrow> proto_field \<Rightarrow> column_plan \<Rightarrow> 'g go_value
     \<Rightarrow> (mapper_error, 'g go_value) outcome" where
  "jsonb_text env j f c src =
     (case j of
        JProto \<Rightarrow> and_then (proto_raw env src) (\<lambda>raw. Ok (GStr (text_of raw)))
      | JProtoList \<Rightarrow> and_then (map_out (proto_raw env) (elems src)) (\<lambda>raws. json_text env (GList raws))
      | JStrMap \<Rightarrow> json_text env src
      | JMapScalar \<Rightarrow> and_then (rekeyed (MapKeyKind c) Ok src) (json_text env)
      | JMapEnum \<Rightarrow>
          and_then (rekeyed (MapKeyKind c) (\<lambda>v. Ok (GStr (enum_String (fld_enum_values f) v))) src) (json_text env)
      | JMapMessage \<Rightarrow> and_then (rekeyed (MapKeyKind c) (proto_raw env) src) (json_text env))"

definition writeRepeatedPrimitiveModelAssign :: "'g go_value \<Rightarrow> string \<Rightarrow> 'g go_value" where
  "writeRepeatedPrimitiveModelAssign src castElem =
     (if castElem = [] then (if src \<noteq> GNil then src else GList [])
      else GList (map (cast_elem castElem) (elems src)))"

definition int32_cast :: "proto_field \<Rightarrow> string" where
  "int32_cast f = (if isUnsignedInt32Kind (fld_kind f) then ''int32'' else [])"

definition int64_cast :: "proto_field \<Rightarrow> string" where
  "int64_cast f = (if isUnsignedInt64Kind (fld_kind f) then ''int64'' else [])"

fun repeated_model_assign :: "'g mapper_env \<Rightarrow> repeated_kind \<Rightarrow> proto_field \<Rightarrow> 'g go_value \<Rightarrow> 'g go_value" where
  "repeated_model_assign env RText f src = (if src \<noteq> GNil then src else GList [])"
| "repeated_model_assign env REnum f src = GList (map (\<lambda>v. GStr (enum_String (fld_enum_values f) v)) (elems src))"
| "repeated_model_assign env RInt32 f src = writeRepeatedPrimitiveModelAssign src (int32_cast f)"
| "repeated_model_assign env RInt64 f src = writeRepeatedPrimitiveModelAssign src (int64_cast f)"
| "repeated_model_assign env RTimestamp f src = GList (map (\<lambda>v. GTime (AsTime env (msg_of v))) (elems src))"
| "repeated_model_assign env RDuration f src = GList (map (\<lambda>v. GInt64 (AsDuration env (msg_of v))) (elems src))"
| "repeated_model_assign env _ f src = writeRepeatedPrimitiveModelAssign src []"

text \<open>The value assigned to the row's field of a column that is not nullable; no branch, no assignment.\<close>

definition writeModelAssignFromProto ::
  "'g mapper_env \<Rightarrow> proto_field \<Rightarrow> column_plan \<Rightarrow> 'g go_value
     \<Rightarrow> (mapper_error, 'g go_value option) outcome" where
  "writeModelAssignFromProto env f c src =
     (case Kind c of
        KindScalar \<Rightarrow>
          Ok (Some (if JetGoType c = ''[]byte'' then (if src \<noteq> GNil then src else GBytes [])
                    else if isUnsignedInt32Kind (fld_kind f) then to_int32 src
                    else if isUnsignedInt64Kind (fld_kind f) then to_int64 src
                    else src))
      | KindDuration \<Rightarrow> Ok (Some (GInt64 (AsDuration env (msg_of src))))
      | KindEnumAsText \<Rightarrow> Ok (Some (GStr (enum_String (fld_enum_values f) src)))
      | KindRepeated r \<Rightarrow> Ok (Some (repeated_model_assign env r f src))
      | KindJSONB j \<Rightarrow>
          if (j = JProto \<or> j = JStrMap) \<and> src = GNil then Ok (Some (GStr ''{}''))
          else and_then (jsonb_text env j f c src) (\<lambda>t. Ok (Some t))
      | _ \<Rightarrow> Ok None)"

definition writeNullableRepeatedPrimitiveAssign :: "'g go_value \<Rightarrow> string \<Rightarrow> 'g go_value option" where
  "writeNullableRepeatedPrimitiveAssign src castElem =
     (if src = GNil then None
      else Some (GPtr (if castElem = [] then src else GList (map (cast_elem castElem) (elems src)))))"

fun nullable_repeated_assign ::
  "'g mapper_env \<Rightarrow> repeated_kind \<Rightarrow> proto_field \<Rightarrow> 'g go_value \<Rightarrow> 'g go_value option" where
  "nullable_repeated_assign env RText f src = (if src = GNil then None else Some (GPtr src))"
| "nullable_repeated_assign env REnum f src =
     (if src = GNil then None
      else Some (GPtr (GList (map (\<lambda>v. GStr (enum_String (fld_enum_values f) v)) (elems src)))))"
| "nullable_repeated_assign env RInt32 f src = writeNullableRepeatedPrimitiveAssign src (int32_cast f)"
| "nullable_repeated_assign env RInt64 f src = writeNullableRepeatedPrimitiveAssign src (int64_cast f)"
| "nullable_repeated_assign env RTimestamp f src =
     (if src = GNil then None else Some (GPtr (GList (map (\<lambda>v. GTime (AsTime env (msg_of v))) (elems src)))))"
| "nullable_repeated_assign env RDuration f src =
     (if src = GNil then None else Some (GPtr (GList (map (\<lambda>v. GInt64 (AsDuration env (msg_of v))) (elems src)))))"
| "nullable_repeated_assign env _ f src = writeNullableRepeatedPrimitiveAssign src []"

definition wrapped :: "'g mapper_env \<Rightarrow> 'g go_value \<Rightarrow> 'g go_value" where
  "wrapped env v = (case v of GMsg g \<Rightarrow> GetValue env g | _ \<Rightarrow> GNil)"

text \<open>Assigned when the struct's field is not nil: \<open>present\<close> is the guard on the field itself.\<close>

definition present ::
  "'g go_message option \<Rightarrow> proto_field \<Rightarrow> 'g go_value \<Rightarrow> (mapper_error, 'g go_value option) outcome" where
  "present p f v = and_then (field_ref p f) (\<lambda>r. Ok (if r = GNil then None else Some (GPtr v)))"

definition writeWrapperModelAssign ::
  "'g mapper_env \<Rightarrow> 'g go_message option \<Rightarrow> proto_field \<Rightarrow> column_plan
     \<Rightarrow> (mapper_error, 'g go_value option) outcome" where
  "writeWrapperModelAssign env p f c =
     present p f
       (if WrapperCtor c = ''UInt32'' then to_int32 (wrapped env (getter p f))
        else if WrapperCtor c = ''UInt64'' then to_int64 (wrapped env (getter p f))
        else wrapped env (getter p f))"

definition writeNullableModelAssign ::
  "'g mapper_env \<Rightarrow> 'g go_message option \<Rightarrow> proto_field \<Rightarrow> column_plan
     \<Rightarrow> (mapper_error, 'g go_value option) outcome" where
  "writeNullableModelAssign env p f c =
     (let src = getter p f in
      if WrapperCtor c \<noteq> [] then writeWrapperModelAssign env p f c
      else case Kind c of
        KindScalar \<Rightarrow>
          present p f
            (if JetGoType c = ''*[]byte'' then src
             else if isUnsignedInt32Kind (fld_kind f) then to_int32 src
             else if isUnsignedInt64Kind (fld_kind f) then to_int64 src
             else src)
      | KindTimestamp \<Rightarrow> Ok (if src = GNil then None else Some (GPtr (GTime (AsTime env (msg_of src)))))
      | KindDuration \<Rightarrow> present p f (GInt64 (AsDuration env (msg_of src)))
      | KindEnumAsText \<Rightarrow> present p f (GStr (enum_String (fld_enum_values f) src))
      | KindRepeated r \<Rightarrow> Ok (nullable_repeated_assign env r f src)
      | KindJSONB j \<Rightarrow>
          if src = GNil then Ok None
          else and_then (jsonb_text env j f c src) (\<lambda>t. Ok (Some (GPtr t)))
      | KindSynthesized \<Rightarrow> Ok None)"

text \<open>The variants of a oneof: the name in the kind column and the field, in the plan's order.\<close>

record oneof_variant =
  VariantName :: string
  VariantField :: proto_field

text \<open>The row: the fields assigned so far; the others have the zero value of their type.\<close>

type_synonym 'g row = "string \<rightharpoonup> 'g go_value"

definition variant_json ::
  "'g mapper_env \<Rightarrow> proto_field \<Rightarrow> 'g go_value \<Rightarrow> (mapper_error, 'g go_value) outcome" where
  "variant_json env f v =
     (case fld_kind f of
        MessageKind \<Rightarrow> and_then (proto_raw env v) (\<lambda>raw. Ok (GStr (text_of raw)))
      | EnumKind \<Rightarrow> json_text env (GStr (enum_String (fld_enum_values f) v))
      | _ \<Rightarrow> json_text env v)"

definition writeOneofModelAssign ::
  "'g mapper_env \<Rightarrow> 'g go_message option \<Rightarrow> oneof_column_plan \<Rightarrow> oneof_variant list \<Rightarrow> 'g row
     \<Rightarrow> (mapper_error, 'g row) outcome" where
  "writeOneofModelAssign env p oc vs m =
     (case (case p of None \<Rightarrow> None | Some msg \<Rightarrow> MsgOneof msg (BaseName oc)) of
        None \<Rightarrow>
          if Optional oc then Ok (m(JetKindField oc \<mapsto> GStr [], JetJSONField oc \<mapsto> GStr ''{}''))
          else Err (BaseRequired (BaseName oc))
      | Some (name, v) \<Rightarrow>
          (case find (\<lambda>vr. fld_name (VariantField vr) = name) vs of
             None \<Rightarrow> Err (UnknownVariant (BaseName oc))
           | Some vr \<Rightarrow>
               and_then (variant_json env (VariantField vr) v) (\<lambda>t.
               Ok (m(JetKindField oc \<mapsto> GStr (VariantName vr), JetJSONField oc \<mapsto> t)))))"

text \<open>Columns the database or the repository fills.\<close>

definition model_skips :: "column_plan \<Rightarrow> bool" where
  "model_skips c \<longleftrightarrow> Synthesized c \<or> (Kind c = KindTimestamp \<and> \<not> Nullable c) \<or> GeneratedExpr c \<noteq> []"

definition model_assign ::
  "'g mapper_env \<Rightarrow> 'g go_message option \<Rightarrow> proto_field \<Rightarrow> column_plan
     \<Rightarrow> (mapper_error, 'g go_value option) outcome" where
  "model_assign env p f c =
     (if Nullable c then writeNullableModelAssign env p f c
      else writeModelAssignFromProto env f c (getter p f))"

definition store :: "'g row \<Rightarrow> column_plan \<Rightarrow> 'g go_value option \<Rightarrow> 'g row" where
  "store m c v = (case v of None \<Rightarrow> m | Some x \<Rightarrow> m(JetFieldName c \<mapsto> x))"

fun model_columns ::
  "'g mapper_env \<Rightarrow> proto_field list \<Rightarrow> 'g go_message option \<Rightarrow> column_plan list \<Rightarrow> 'g row
     \<Rightarrow> (mapper_error, 'g row) outcome" where
  "model_columns env fs p [] m = Ok m"
| "model_columns env fs p (c # cs) m =
     (if model_skips c then model_columns env fs p cs m
      else case field_named fs (ProtoFieldName c) of
        None \<Rightarrow> Panic
      | Some f \<Rightarrow> and_then (model_assign env p f c) (\<lambda>v. model_columns env fs p cs (store m c v)))"

fun model_oneofs ::
  "'g mapper_env \<Rightarrow> 'g go_message option \<Rightarrow> (oneof_column_plan \<times> oneof_variant list) list \<Rightarrow> 'g row
     \<Rightarrow> (mapper_error, 'g row) outcome" where
  "model_oneofs env p [] m = Ok m"
| "model_oneofs env p ((oc, vs) # ocs) m =
     and_then (writeOneofModelAssign env p oc vs m) (\<lambda>m'. model_oneofs env p ocs m')"

definition writeModelFromProto ::
  "'g mapper_env \<Rightarrow> proto_field list \<Rightarrow> column_plan list \<Rightarrow> (oneof_column_plan \<times> oneof_variant list) list
     \<Rightarrow> 'g go_message option \<Rightarrow> (mapper_error, 'g row) outcome" where
  "writeModelFromProto env fs cs ocs p =
     and_then (model_columns env fs p cs Map.empty) (\<lambda>m. model_oneofs env p ocs m)"

section \<open>From row to proto\<close>

text \<open>\<^verbatim>\<open>time.Time{}\<close> is the first of January of the year 1.\<close>

definition zero_time :: int where
  "zero_time = - 62135596800000000000"

definition zero_cell :: "string \<Rightarrow> 'g go_value" where
  "zero_cell t =
     (if t = ''string'' then GStr [] else if t = ''bool'' then GBool False
      else if t = ''int32'' then GInt32 0 else if t = ''int64'' then GInt64 0
      else if t = ''float32'' then GFloat32 0 else if t = ''float64'' then GFloat64 0
      else if t = ''time.Time'' then GTime zero_time else GNil)"

definition cell :: "'g row \<Rightarrow> string \<Rightarrow> string \<Rightarrow> 'g go_value" where
  "cell m n t = (case m n of Some v \<Rightarrow> v | None \<Rightarrow> zero_cell t)"

definition parsed_json ::
  "'g mapper_env \<Rightarrow> string \<Rightarrow> string \<Rightarrow> (mapper_error, 'g go_value) outcome" where
  "parsed_json env t s = (case JsonUnmarshal env t s of None \<Rightarrow> Err UnmarshalFailed | Some v \<Rightarrow> Ok v)"

definition parsed_proto ::
  "'g mapper_env \<Rightarrow> string \<Rightarrow> string \<Rightarrow> (mapper_error, 'g go_value) outcome" where
  "parsed_proto env t s = (case ProtoUnmarshal env t s of None \<Rightarrow> Err UnmarshalFailed | Some g \<Rightarrow> Ok (GMsg g))"

text \<open>The loop that re-keys a decoded map by the proto's key type.\<close>

definition unkeyed ::
  "proto_kind \<Rightarrow> ('g go_value \<Rightarrow> (mapper_error, 'g go_value) outcome) \<Rightarrow> 'g go_value
     \<Rightarrow> (mapper_error, 'g go_value) outcome" where
  "unkeyed k conv tmp =
     and_then (map_out (\<lambda>(a, v). and_then (emitStringToKey k (text_of a)) (\<lambda>rk.
         and_then (conv v) (\<lambda>w. Ok (rk, w)))) (entries tmp))
       (\<lambda>kvs. Ok (GMap (foldl (\<lambda>dst (a, w). AList.update a w dst) [] kvs)))"

definition enum_or_zero :: "(string \<times> int) list \<Rightarrow> string \<Rightarrow> 'g go_value" where
  "enum_or_zero values name = GEnum (case enum_number values name of Some w \<Rightarrow> w | None \<Rightarrow> 0)"

definition jsonb_value ::
  "'g mapper_env \<Rightarrow> jsonb_kind \<Rightarrow> proto_field \<Rightarrow> column_plan \<Rightarrow> string
     \<Rightarrow> (mapper_error, 'g go_value) outcome" where
  "jsonb_value env j f c s =
     (case j of
        JProto \<Rightarrow> parsed_proto env (fld_message f) s
      | JProtoList \<Rightarrow>
          and_then (parsed_json env ''[]json.RawMessage'' s) (\<lambda>parts.
          and_then (map_out (\<lambda>raw. parsed_proto env (fld_message f) (text_of raw)) (elems parts)) (\<lambda>items.
          Ok (GList items)))
      | JStrMap \<Rightarrow> parsed_json env ''map[string]string'' s
      | JMapScalar \<Rightarrow>
          and_then (parsed_json env (''map[string]'' @ goMapScalarValueType (MapValueKind c)) s)
            (unkeyed (MapKeyKind c) Ok)
      | JMapEnum \<Rightarrow>
          and_then (parsed_json env ''map[string]string'' s)
            (unkeyed (MapKeyKind c) (\<lambda>name. Ok (enum_or_zero (fld_enum_values f) (text_of name))))
      | JMapMessage \<Rightarrow>
          and_then (parsed_json env ''map[string]json.RawMessage'' s)
            (unkeyed (MapKeyKind c) (\<lambda>raw. parsed_proto env (fld_message f) (text_of raw))))"

definition time_back :: "'g mapper_env \<Rightarrow> 'g go_value \<Rightarrow> 'g go_value" where
  "time_back env v = GMsg (NewTimestamp env (case v of GTime n \<Rightarrow> n | _ \<Rightarrow> zero_time))"

definition duration_back :: "'g mapper_env \<Rightarrow> 'g go_value \<Rightarrow> 'g go_value" where
  "duration_back env v = GMsg (NewDuration env (case v of GInt64 n \<Rightarrow> n | _ \<Rightarrow> 0))"

fun repeated_proto_value :: "'g mapper_env \<Rightarrow> repeated_kind \<Rightarrow> proto_field \<Rightarrow> 'g go_value \<Rightarrow> 'g go_value" where
  "repeated_proto_value env REnum f v =
     GList (List.map_filter (\<lambda>name. map_option GEnum (enum_number (fld_enum_values f) (text_of name))) (elems v))"
| "repeated_proto_value env RInt32 f v =
     (if isUnsignedInt32Kind (fld_kind f) then GList (map to_uint32 (elems v)) else v)"
| "repeated_proto_value env RInt64 f v =
     (if isUnsignedInt64Kind (fld_kind f) then GList (map to_uint64 (elems v)) else v)"
| "repeated_proto_value env RTimestamp f v =
     GList (map (time_back env) (elems v))"
| "repeated_proto_value env RDuration f v =
     GList (map (duration_back env) (elems v))"
| "repeated_proto_value env _ f v = v"

definition uint_back :: "proto_field \<Rightarrow> 'g go_value \<Rightarrow> 'g go_value" where
  "uint_back f v =
     (if isUnsignedInt32Kind (fld_kind f) then to_uint32 v
      else if isUnsignedInt64Kind (fld_kind f) then to_uint64 v else v)"

definition writeWrapperProtoAssign :: "'g mapper_env \<Rightarrow> column_plan \<Rightarrow> 'g go_value \<Rightarrow> 'g go_value option" where
  "writeWrapperProtoAssign env c src =
     (if src = GNil then None
      else Some (GMsg (WrapperNew env (WrapperCtor c)
        (if WrapperCtor c = ''UInt32'' then to_uint32 (deref src)
         else if WrapperCtor c = ''UInt64'' then to_uint64 (deref src)
         else deref src))))"

text \<open>Behind the nil check, a nullable repeated or JSONB column is read as one that is not nullable.\<close>

definition nullable_repeated_value ::
  "'g mapper_env \<Rightarrow> repeated_kind \<Rightarrow> proto_field \<Rightarrow> 'g go_value \<Rightarrow> (mapper_error, 'g go_value option) outcome" where
  [simp]: "nullable_repeated_value env r f src = Ok (Some (repeated_proto_value env r f (deref src)))"

definition nullable_jsonb_value ::
  "'g mapper_env \<Rightarrow> jsonb_kind \<Rightarrow> proto_field \<Rightarrow> column_plan \<Rightarrow> 'g go_value
     \<Rightarrow> (mapper_error, 'g go_value option) outcome" where
  [simp]: "nullable_jsonb_value env j f c src =
     and_then (jsonb_value env j f c (text_of (deref src))) (\<lambda>v. Ok (Some v))"

definition writeNullableProtoAssign ::
  "'g mapper_env \<Rightarrow> proto_field \<Rightarrow> column_plan \<Rightarrow> 'g go_value
     \<Rightarrow> (mapper_error, 'g go_value option) outcome" where
  "writeNullableProtoAssign env f c src =
     (if WrapperCtor c \<noteq> [] then Ok (writeWrapperProtoAssign env c src)
      else if src = GNil then Ok None
      else case Kind c of
        KindScalar \<Rightarrow>
          if JetGoType c = ''*[]byte'' then Ok (Some (deref src)) else Ok (Some (GPtr (uint_back f (deref src))))
      | KindTimestamp \<Rightarrow> Ok (Some (time_back env (deref src)))
      | KindDuration \<Rightarrow> Ok (Some (duration_back env (deref src)))
      | KindEnumAsText \<Rightarrow>
          Ok (map_option (\<lambda>w. GPtr (GEnum w)) (enum_number (fld_enum_values f) (text_of (deref src))))
      | KindRepeated r \<Rightarrow> nullable_repeated_value env r f src
      | KindJSONB j \<Rightarrow> nullable_jsonb_value env j f c src
      | KindSynthesized \<Rightarrow> Ok None)"

definition writeProtoAssignFromModel ::
  "'g mapper_env \<Rightarrow> proto_field \<Rightarrow> column_plan \<Rightarrow> 'g go_value
     \<Rightarrow> (mapper_error, 'g go_value option) outcome" where
  "writeProtoAssignFromModel env f c src =
     (if Nullable c then writeNullableProtoAssign env f c src
      else case Kind c of
        KindScalar \<Rightarrow> Ok (Some (uint_back f src))
      | KindTimestamp \<Rightarrow> Ok (Some (time_back env src))
      | KindDuration \<Rightarrow> Ok (Some (duration_back env src))
      | KindEnumAsText \<Rightarrow> Ok (map_option GEnum (enum_number (fld_enum_values f) (text_of src)))
      | KindRepeated r \<Rightarrow> Ok (Some (repeated_proto_value env r f src))
      | KindJSONB j \<Rightarrow>
          if text_of src = [] \<or> (j = JProto \<and> text_of src = ''{}'') then Ok None
          else and_then (jsonb_value env j f c (text_of src)) (\<lambda>v. Ok (Some v))
      | KindSynthesized \<Rightarrow> Ok None)"

definition variant_value ::
  "'g mapper_env \<Rightarrow> proto_field \<Rightarrow> string \<Rightarrow> (mapper_error, 'g go_value) outcome" where
  "variant_value env f s =
     (case fld_kind f of
        MessageKind \<Rightarrow>
          if s = [] then Ok (GMsg (EmptyMessage env (fld_message f))) else parsed_proto env (fld_message f) s
      | EnumKind \<Rightarrow>
          and_then (if s = [] then Ok (GStr []) else parsed_json env ''string'' s) (\<lambda>scratch.
          Ok (enum_or_zero (fld_enum_values f) (text_of scratch)))
      | k \<Rightarrow> if s = [] then Ok (zero_value k) else parsed_json env (protoKindGoType k) s)"

definition writeOneofProtoAssign ::
  "'g mapper_env \<Rightarrow> oneof_column_plan \<Rightarrow> oneof_variant list \<Rightarrow> 'g row
     \<Rightarrow> (mapper_error, (string \<times> 'g go_value) option) outcome" where
  "writeOneofProtoAssign env oc vs m =
     (let k = text_of (cell m (JetKindField oc) ''string''); s = text_of (cell m (JetJSONField oc) ''string'') in
      case find (\<lambda>vr. VariantName vr = k) vs of
        Some vr \<Rightarrow>
          and_then (variant_value env (VariantField vr) s) (\<lambda>v. Ok (Some (fld_name (VariantField vr), v)))
      | None \<Rightarrow>
          if k = [] then (if Optional oc then Ok None else Err (BaseRequired (BaseName oc)))
          else Err (UnknownVariant (BaseName oc)))"

fun proto_columns ::
  "'g mapper_env \<Rightarrow> proto_field list \<Rightarrow> 'g row \<Rightarrow> column_plan list \<Rightarrow> 'g go_message
     \<Rightarrow> (mapper_error, 'g go_message) outcome" where
  "proto_columns env fs m [] out = Ok out"
| "proto_columns env fs m (c # cs) out =
     (if Synthesized c then proto_columns env fs m cs out
      else case field_named fs (ProtoFieldName c) of
        None \<Rightarrow> Panic
      | Some f \<Rightarrow>
          and_then (writeProtoAssignFromModel env f c (cell m (JetFieldName c) (JetGoType c))) (\<lambda>v.
          proto_columns env fs m cs
            (case v of None \<Rightarrow> out | Some x \<Rightarrow> out\<lparr>MsgField := (MsgField out)(fld_name f := x)\<rparr>)))"

fun proto_oneofs ::
  "'g mapper_env \<Rightarrow> 'g row \<Rightarrow> (oneof_column_plan \<times> oneof_variant list) list \<Rightarrow> 'g go_message
     \<Rightarrow> (mapper_error, 'g go_message) outcome" where
  "proto_oneofs env m [] out = Ok out"
| "proto_oneofs env m ((oc, vs) # ocs) out =
     and_then (writeOneofProtoAssign env oc vs m) (\<lambda>v.
     proto_oneofs env m ocs
       (case v of None \<Rightarrow> out | Some x \<Rightarrow> out\<lparr>MsgOneof := (MsgOneof out)(BaseName oc := Some x)\<rparr>))"

definition empty_message :: "proto_field list \<Rightarrow> 'g go_message" where
  "empty_message fs =
     \<lparr>MsgField = (\<lambda>n. case field_named fs n of None \<Rightarrow> GNil | Some f \<Rightarrow> zero_field f), MsgOneof = (\<lambda>n. None)\<rparr>"

definition writeProtoFromModel ::
  "'g mapper_env \<Rightarrow> proto_field list \<Rightarrow> column_plan list \<Rightarrow> (oneof_column_plan \<times> oneof_variant list) list
     \<Rightarrow> 'g row option \<Rightarrow> (mapper_error, 'g go_message option) outcome" where
  "writeProtoFromModel env fs cs ocs m =
     (case m of
        None \<Rightarrow> Ok None
      | Some row \<Rightarrow>
          and_then (proto_columns env fs row cs (empty_message fs)) (\<lambda>out.
          and_then (proto_oneofs env row ocs out) (\<lambda>out'. Ok (Some out'))))"

end
