(* ===== verification/Mapper_Roundtrip.thy ===== *)
theory Mapper_Roundtrip
  imports Mapper "HOL-Library.Multiset"
begin

text \<open>
  The values of proto kinds and of Go types, the law of \<^verbatim>\<open>encoding/json\<close> that the mapper
  relies on, and the re-keying of maps by strings there and back.
\<close>

section \<open>Typed values\<close>

definition valid_utf8 :: "string \<Rightarrow> bool" where
  "valid_utf8 s \<longleftrightarrow> (\<forall>c \<in> set (runes s). fst c = rune_error \<longrightarrow> length (snd c) \<noteq> 1)"

fun has_kind :: "proto_kind \<Rightarrow> 'g go_value \<Rightarrow> bool" where
  "has_kind StringKind v = (case v of GStr s \<Rightarrow> valid_utf8 s | _ \<Rightarrow> False)"
| "has_kind BoolKind v = (case v of GBool b \<Rightarrow> True | _ \<Rightarrow> False)"
| "has_kind BytesKind v = (case v of GBytes b \<Rightarrow> True | _ \<Rightarrow> False)"
| "has_kind FloatKind v = (case v of GFloat32 w \<Rightarrow> True | _ \<Rightarrow> False)"
| "has_kind DoubleKind v = (case v of GFloat64 w \<Rightarrow> True | _ \<Rightarrow> False)"
| "has_kind EnumKind v = (case v of GEnum w \<Rightarrow> True | _ \<Rightarrow> False)"
| "has_kind MessageKind v = (case v of GMsg g \<Rightarrow> True | _ \<Rightarrow> False)"
| "has_kind (IntegerKind i) v =
     (case v of
        GInt32 w \<Rightarrow> i \<in> {Int32, Sint32, Sfixed32} | GUint32 w \<Rightarrow> i \<in> {Uint32, Fixed32}
      | GInt64 w \<Rightarrow> i \<in> {Int64, Sint64, Sfixed64} | GUint64 w \<Rightarrow> i \<in> {Uint64, Fixed64}
      | _ \<Rightarrow> False)"
| "has_kind _ v = False"

text \<open>The type \<^verbatim>\<open>protoc-gen-go\<close> gives the struct field of a proto field.\<close>

definition field_typed :: "proto_field \<Rightarrow> 'g go_value \<Rightarrow> bool" where
  "field_typed f v \<longleftrightarrow>
     (if fld_is_list f then v = GNil \<or> (\<exists>xs. v = GList xs \<and> (\<forall>x \<in> set xs. has_kind (fld_kind f) x))
      else if fld_is_map f then
        v = GNil \<or> (\<exists>kvs. v = GMap kvs \<and> distinct (map fst kvs)
          \<and> (\<forall>(a, b) \<in> set kvs. has_kind (fld_map_key f) a \<and> has_kind (fld_map_value f) b))
      else if fld_kind f = BytesKind \<or> fld_kind f = MessageKind then v = GNil \<or> has_kind (fld_kind f) v
      else if fld_optional f then v = GNil \<or> (\<exists>x. v = GPtr x \<and> has_kind (fld_kind f) x)
      else has_kind (fld_kind f) v)"

text \<open>The Go types that go through \<^verbatim>\<open>encoding/json\<close>.\<close>

fun of_go_type :: "string \<Rightarrow> 'g go_value \<Rightarrow> bool" where
  "of_go_type t (GStr s) \<longleftrightarrow> t = ''string'' \<and> valid_utf8 s"
| "of_go_type t (GBool b) \<longleftrightarrow> t = ''bool''"
| "of_go_type t (GBytes b) \<longleftrightarrow> t = ''[]byte''"
| "of_go_type t (GInt32 w) \<longleftrightarrow> t = ''int32''"
| "of_go_type t (GUint32 w) \<longleftrightarrow> t = ''uint32''"
| "of_go_type t (GInt64 w) \<longleftrightarrow> t = ''int64''"
| "of_go_type t (GUint64 w) \<longleftrightarrow> t = ''uint64''"
| "of_go_type t (GFloat32 w) \<longleftrightarrow> t = ''float32''"
| "of_go_type t (GFloat64 w) \<longleftrightarrow> t = ''float64''"
| "of_go_type t (GRaw s) \<longleftrightarrow> t = ''json.RawMessage''"
| "of_go_type t (GList xs) \<longleftrightarrow> prefix ''[]'' t \<and> (\<forall>x \<in> set xs. of_go_type (drop 2 t) x)"
| "of_go_type t (GMap kvs) \<longleftrightarrow>
     prefix ''map[string]'' t \<and> distinct (map fst kvs)
     \<and> (\<forall>kv \<in> set kvs. of_go_type ''string'' (fst kv) \<and> of_go_type (drop 11 t) (snd kv))"
| "of_go_type t _ \<longleftrightarrow> False"

text \<open>
  What decoding gives undo: a raw message comes back compacted, a map in some order.
\<close>

fun compacted :: "(string \<Rightarrow> string) \<Rightarrow> 'g go_value \<Rightarrow> 'g go_value" where
  "compacted cp (GRaw s) = GRaw (cp s)"
| "compacted cp (GList xs) = GList (map (compacted cp) xs)"
| "compacted cp (GMap kvs) = GMap (map (map_prod id (compacted cp)) kvs)"
| "compacted cp v = v"

fun same_value :: "'g go_value \<Rightarrow> 'g go_value \<Rightarrow> bool" where
  "same_value (GMap a) (GMap b) \<longleftrightarrow> mset a = mset b"
| "same_value v w \<longleftrightarrow> v = w"

definition json_law :: "'g mapper_env \<Rightarrow> (string \<Rightarrow> string) \<Rightarrow> bool" where
  "json_law env cp \<longleftrightarrow>
     JsonUnmarshal env ''map[string]string'' ''{}'' = Some (GMap []) \<and>
     (\<forall>t v s. of_go_type t v \<longrightarrow> JsonMarshal env v = Some s \<longrightarrow>
        s \<noteq> [] \<and> (\<exists>v'. JsonUnmarshal env t s = Some v' \<and> same_value v' (compacted cp v)))"

section \<open>Keys\<close>

lemma ascii_valid_utf8: "ascii s \<Longrightarrow> valid_utf8 s"
  by (auto simp: valid_utf8_def runes_ascii ascii_def rune_error_def)

lemma digits_ascii: "ascii (digits n)"
  using digits_range by (fastforce simp: ascii_def)

lemma FormatInt_ascii: "ascii (FormatInt i)"
  using digits_ascii by (auto simp: FormatInt_def ascii_def)

lemma ParseUint_FormatInt:
  assumes "0 \<le> i" "i < 2 ^ 64"
  shows "parse_uint (FormatInt i) (FormatInt i) = Ok i"
  using assms parse_digits_digits [of "nat i"] by (simp add: FormatInt_def parse_uint_def)

lemma sint32_bounds: "- (2 ^ 31) \<le> sint (w :: 32 word)" "sint (w :: 32 word) < 2 ^ 31"
  using sint_greater_eq [of w] sint_less [of w] by simp_all

lemma key_roundtrip:
  assumes "has_kind k a" "goMapKeyType k \<noteq> []"
  shows "emitStringToKey k (emitKeyToString k a) = Ok a \<and> valid_utf8 (emitKeyToString k a)"
proof (cases k)
  case BoolKind
  with assms obtain b where "a = GBool b" by (auto split: go_value.splits)
  with BoolKind show ?thesis
    by (auto simp: FormatBool_def ParseBool_def intro!: ascii_valid_utf8)
next
  case (IntegerKind i)
  consider w where "a = GInt32 w" "i \<in> {Int32, Sint32, Sfixed32}" | w where "a = GUint32 w" "i \<in> {Uint32, Fixed32}"
    | w where "a = GInt64 w" "i \<in> {Int64, Sint64, Sfixed64}" | w where "a = GUint64 w" "i \<in> {Uint64, Fixed64}"
    using assms IntegerKind by (auto split: go_value.splits)
  then show ?thesis
  proof cases
    case 1
    with sint32_bounds [of w] ParseInt64_FormatInt [of "sint w"] show ?thesis
      by (auto simp: IntegerKind parsed_key_def ParseIntBits_def FormatInt_ascii ascii_valid_utf8)
  next
    case 2
    with uint_lt2p [of w] ParseUint_FormatInt [of "uint w"] show ?thesis
      by (auto simp: IntegerKind parsed_key_def ParseUintBits_def FormatInt_ascii ascii_valid_utf8)
  next
    case 3
    with sint64_bounds [of w] ParseInt64_FormatInt [of "sint w"] show ?thesis
      by (auto simp: IntegerKind parsed_key_def ParseIntBits_def FormatInt_ascii ascii_valid_utf8)
  next
    case 4
    with uint_lt2p [of w] ParseUint_FormatInt [of "uint w"] show ?thesis
      by (auto simp: IntegerKind parsed_key_def ParseUintBits_def FormatInt_ascii ascii_valid_utf8)
  qed
qed (use assms in \<open>auto split: go_value.splits\<close>)

lemma update_fresh: "a \<notin> fst ` set dst \<Longrightarrow> AList.update a w dst = dst @ [(a, w)]"
  by (induction dst) auto

lemma built_map: "distinct (map fst (dst @ kvs)) \<Longrightarrow> foldl (\<lambda>d (a, w). AList.update a w d) dst kvs = dst @ kvs"
proof (induction kvs arbitrary: dst)
  case (Cons kv kvs)
  obtain a w where kv: "kv = (a, w)" by fastforce
  with Cons(2) have "a \<notin> fst ` set dst" by auto
  with kv Cons show ?case by (simp add: update_fresh)
qed simp

section \<open>Maps there and back\<close>

lemma rekeyed_Ok:
  assumes "rekeyed k conv src = Ok t" "distinct (map fst (entries src))"
    and "\<forall>kv \<in> set (entries src). has_kind k (fst kv)" "goMapKeyType k \<noteq> []"
  obtains ws where "t = GMap (map2 (\<lambda>(a, v) w. (GStr (emitKeyToString k a), w)) (entries src) ws)"
    "length ws = length (entries src)" "distinct (map (\<lambda>kv. emitKeyToString k (fst kv)) (entries src))"
    "\<forall>i < length (entries src). conv (snd (entries src ! i)) = Ok (ws ! i)"
proof -
  let ?kvs = "entries src"
  let ?f = "\<lambda>(a, v). and_then (conv v) (\<lambda>w. Ok (GStr (emitKeyToString k a), w))"
  obtain ks where ks: "map_out ?f ?kvs = Ok ks" "t = GMap (foldl (\<lambda>dst (a, w). AList.update a w dst) [] ks)"
    using assms(1) by (auto simp: rekeyed_def go_simps)
  then have l2: "list_all2 (\<lambda>kv y. ?f kv = Ok y) ?kvs ks" by (simp add: map_out_Ok_iff)
  then have len: "length ks = length ?kvs" by (simp add: list_all2_lengthD)
  have at: "fst (ks ! i) = GStr (emitKeyToString k (fst (?kvs ! i))) \<and> conv (snd (?kvs ! i)) = Ok (snd (ks ! i))"
    if "i < length ?kvs" for i
    using list_all2_nthD [OF l2 that] by (auto simp: go_simps case_prod_unfold dest: sym [of _ "ks ! i"])
  have inj: "inj_on (\<lambda>kv. emitKeyToString k (fst kv)) (set ?kvs)"
  proof (rule inj_onI)
    fix x y assume x: "x \<in> set ?kvs" "y \<in> set ?kvs" "emitKeyToString k (fst x) = emitKeyToString k (fst y)"
    then have "fst x = fst y"
      using key_roundtrip [OF bspec [OF assms(3)] assms(4)] by (metis outcome.inject(1))
    with x(1,2) assms(2) show "x = y" by (metis distinct_map inj_onD)
  qed
  then have d: "distinct (map (\<lambda>kv. emitKeyToString k (fst kv)) ?kvs)"
    using assms(2) by (simp add: distinct_map)
  have "map fst ks = map (\<lambda>kv. GStr (emitKeyToString k (fst kv))) ?kvs"
    using len at by (auto intro: nth_equalityI)
  moreover have "distinct (map (\<lambda>kv. GStr (emitKeyToString k (fst kv)) :: 'a go_value) ?kvs)"
    using d by (simp add: distinct_conv_nth)
  ultimately have "t = GMap ks" using ks(2) built_map [of "[]" ks] by simp
  also have "ks = map2 (\<lambda>(a, v) w. (GStr (emitKeyToString k a), w)) ?kvs (map snd ks)"
    using len at by (auto intro!: nth_equalityI simp: case_prod_unfold prod_eq_iff)
  finally have "t = GMap (map2 (\<lambda>(a, v) w. (GStr (emitKeyToString k a), w)) ?kvs (map snd ks))" .
  then show thesis using that [of "map snd ks"] len d at by simp
qed

lemma rekeyed_unkeyed:
  fixes src t tmp :: "'a go_value"
  assumes "rekeyed k conv src = Ok t" "distinct (map fst (entries src))"
    and "\<forall>kv \<in> set (entries src). has_kind k (fst kv)" "goMapKeyType k \<noteq> []"
    and "same_value tmp (compacted cp t)"
    and undo: "\<And>kv w. kv \<in> set (entries src) \<Longrightarrow> conv (snd kv) = Ok w \<Longrightarrow> conv' (compacted cp w) = Ok (snd kv)"
  shows "\<exists>kvs. unkeyed k conv' tmp = Ok (GMap kvs) \<and> mset kvs = mset (entries src)"
proof -
  let ?kvs = "entries src"
  obtain ws where t: "t = GMap (map2 (\<lambda>(a, v) w. (GStr (emitKeyToString k a), w)) ?kvs ws)"
    and len: "length ws = length ?kvs" and cv: "\<forall>i < length ?kvs. conv (snd (?kvs ! i)) = Ok (ws ! i)"
    by (rule rekeyed_Ok [OF assms(1-4)])
  define cs where "cs = map2 (\<lambda>(a, v) w. (GStr (emitKeyToString k a) :: 'a go_value, compacted cp w)) ?kvs ws"
  have "compacted cp t = GMap cs"
    by (simp add: t cs_def case_prod_unfold)
  with assms(5) obtain ks where ks: "tmp = GMap ks" "mset ks = mset cs" by (cases tmp) auto
  let ?f = "\<lambda>(a :: 'a go_value, v). and_then (emitStringToKey k (text_of a) :: (mapper_error, 'a go_value) outcome) (\<lambda>rk. and_then (conv' v) (\<lambda>w. Ok (rk, w)))"
  have fc: "?f (cs ! i) = Ok (?kvs ! i)" if "i < length ?kvs" for i
  proof -
    have m: "?kvs ! i \<in> set ?kvs" using that by simp
    then have "conv' (compacted cp (ws ! i)) = Ok (snd (?kvs ! i))" using undo cv that by blast
    with key_roundtrip [OF bspec [OF assms(3) m] assms(4)] that len show ?thesis
      by (simp add: cs_def case_prod_unfold)
  qed
  define h :: "'a go_value \<times> 'a go_value \<Rightarrow> 'a go_value \<times> 'a go_value" where "h x = (case ?f x of Ok y \<Rightarrow> y | _ \<Rightarrow> (GNil, GNil))" for x
  have lc: "length cs = length ?kvs" using len by (simp add: cs_def)
  have hc: "map h cs = ?kvs" using lc fc by (auto intro!: nth_equalityI simp: h_def)
  have "\<forall>x \<in> set cs. ?f x = Ok (h x)"
  proof
    fix x assume "x \<in> set cs"
    then obtain i where "i < length cs" "x = cs ! i" by (auto simp: in_set_conv_nth)
    with fc lc show "?f x = Ok (h x)" by (simp add: h_def)
  qed
  moreover have "set ks = set cs" by (rule mset_eq_setD [OF ks(2)])
  ultimately have "map_out ?f ks = Ok (map h ks)" by (intro map_out_map) simp
  moreover have "mset (map h ks) = mset ?kvs" using ks(2) hc by (metis mset_map)
  moreover from this have "distinct (map fst (map h ks))"
    using assms(2) by (metis mset_eq_imp_distinct_iff mset_map)
  ultimately show ?thesis using built_map [of "[]" "map h ks"] by (simp add: unkeyed_def ks(1))
qed

lemma rekeyed_typed:
  fixes src t :: "'a go_value"
  assumes "rekeyed k conv src = Ok t" "distinct (map fst (entries src))"
    and "\<forall>kv \<in> set (entries src). has_kind k (fst kv)" "goMapKeyType k \<noteq> []"
    and ty: "\<And>kv w. kv \<in> set (entries src) \<Longrightarrow> conv (snd kv) = Ok w \<Longrightarrow> of_go_type e w"
  shows "of_go_type (''map[string]'' @ e) t"
proof -
  let ?kvs = "entries src"
  obtain ws where t: "t = GMap (map2 (\<lambda>(a, v) w. (GStr (emitKeyToString k a), w)) ?kvs ws)"
    and len: "length ws = length ?kvs" and d: "distinct (map (\<lambda>kv. emitKeyToString k (fst kv)) ?kvs)"
    and cv: "\<forall>i < length ?kvs. conv (snd (?kvs ! i)) = Ok (ws ! i)"
    by (rule rekeyed_Ok [OF assms(1-4)])
  define ks where "ks = map2 (\<lambda>(a, v) w. (GStr (emitKeyToString k a) :: 'a go_value, w)) ?kvs ws"
  have at: "ks ! i = (GStr (emitKeyToString k (fst (?kvs ! i))), ws ! i)" if "i < length ?kvs" for i
    using that len by (simp add: ks_def case_prod_unfold)
  have lk: "length ks = length ?kvs" using len by (simp add: ks_def)
  have "distinct (map fst ks)"
    using d lk at by (simp add: distinct_conv_nth)
  moreover have "of_go_type ''string'' (fst kv) \<and> of_go_type e (snd kv)" if kv: "kv \<in> set ks" for kv
  proof -
    obtain i where i: "i < length ?kvs" and i2: "kv = ks ! i" using kv unfolding in_set_conv_nth lk by auto
    with i2 at ty [of "?kvs ! i" "ws ! i"] cv key_roundtrip [OF bspec [OF assms(3)] assms(4), of "?kvs ! i"]
    show ?thesis by simp
  qed
  ultimately show ?thesis by (simp add: t flip: ks_def)
qed

end
