(* ===== verification/Mapper_Keep.thy ===== *)
theory Mapper_Keep
  imports Mapper_Roundtrip
begin

text \<open>
  One column there and back: the field is assigned to its part of the row and the row's part to the
  field. \<open>encodes\<close> relates a field to the column the resolver makes of it, \<open>kept\<close> names the
  values the outside packages must give back, and \<open>settled\<close> is the value that comes back.
\<close>

section \<open>What a column can keep\<close>

text \<open>The column the resolver makes of a field: its kind follows the field's.\<close>

fun repeated_fits :: "repeated_kind \<Rightarrow> proto_kind \<Rightarrow> bool" where
  "repeated_fits RText k \<longleftrightarrow> k = StringKind"
| "repeated_fits REnum k \<longleftrightarrow> k = EnumKind"
| "repeated_fits RBool k \<longleftrightarrow> k = BoolKind"
| "repeated_fits RInt32 k \<longleftrightarrow> (case k of IntegerKind i \<Rightarrow> is_32_bit i | _ \<Rightarrow> False)"
| "repeated_fits RInt64 k \<longleftrightarrow> (case k of IntegerKind i \<Rightarrow> \<not> is_32_bit i | _ \<Rightarrow> False)"
| "repeated_fits RFloat32 k \<longleftrightarrow> k = FloatKind"
| "repeated_fits RFloat64 k \<longleftrightarrow> k = DoubleKind"
| "repeated_fits RTimestamp k \<longleftrightarrow> k = MessageKind"
| "repeated_fits RDuration k \<longleftrightarrow> k = MessageKind"

definition scalar_kind :: "proto_kind \<Rightarrow> bool" where
  "scalar_kind k \<longleftrightarrow> k \<notin> {MessageKind, EnumKind, GroupKind, NoKind}"

fun map_value_fits :: "jsonb_kind \<Rightarrow> proto_kind \<Rightarrow> proto_kind \<Rightarrow> bool" where
  "map_value_fits JStrMap k v \<longleftrightarrow> k = StringKind \<and> v = StringKind"
| "map_value_fits JMapScalar k v \<longleftrightarrow> scalar_kind v"
| "map_value_fits JMapEnum k v \<longleftrightarrow> v = EnumKind"
| "map_value_fits JMapMessage k v \<longleftrightarrow> v = MessageKind"
| "map_value_fits _ k v \<longleftrightarrow> False"

text \<open>The column of a field, which is not part of a oneof: the shape of the field its kind stands for.\<close>

definition singular :: "proto_field \<Rightarrow> bool" where
  "singular f \<longleftrightarrow> \<not> fld_is_list f \<and> \<not> fld_is_map f"

fun kind_fits :: "column_kind \<Rightarrow> proto_field \<Rightarrow> bool" where
  "kind_fits KindScalar f \<longleftrightarrow> singular f \<and> (scalar_kind (fld_kind f) \<or> fld_kind f = MessageKind)"
| "kind_fits KindTimestamp f \<longleftrightarrow> singular f \<and> fld_kind f = MessageKind"
| "kind_fits KindDuration f \<longleftrightarrow> singular f \<and> fld_kind f = MessageKind"
| "kind_fits KindEnumAsText f \<longleftrightarrow> singular f \<and> fld_kind f = EnumKind"
| "kind_fits (KindRepeated r) f \<longleftrightarrow> fld_is_list f \<and> repeated_fits r (fld_kind f)"
| "kind_fits (KindJSONB JProto) f \<longleftrightarrow> singular f \<and> fld_kind f = MessageKind"
| "kind_fits (KindJSONB JProtoList) f \<longleftrightarrow> fld_is_list f \<and> fld_kind f = MessageKind"
| "kind_fits (KindJSONB j) f \<longleftrightarrow>
     \<not> fld_is_list f \<and> fld_is_map f \<and> map_value_fits j (fld_map_key f) (fld_map_value f)"
| "kind_fits KindSynthesized f \<longleftrightarrow> False"

definition encodes :: "proto_field \<Rightarrow> column_plan \<Rightarrow> bool" where
  "encodes f c \<longleftrightarrow>
     kind_fits (Kind c) f
     \<and> (fld_is_map f \<and> \<not> fld_is_list f \<longrightarrow> MapKeyKind c = fld_map_key f \<and> MapValueKind c = fld_map_value f)
     \<and> (WrapperCtor c \<noteq> [] \<longleftrightarrow> Kind c = KindScalar \<and> fld_kind f = MessageKind)
     \<and> (WrapperCtor c \<noteq> [] \<longrightarrow> Nullable c)
     \<and> (Kind c = KindScalar \<longrightarrow> (JetGoType c = (if Nullable c then ''*[]byte'' else ''[]byte'') \<longleftrightarrow>
           fld_kind f = BytesKind \<or> WrapperCtor c = ''Bytes''))
     \<and> (Nullable c \<and> Kind c \<in> {KindScalar, KindEnumAsText} \<longrightarrow> WrapperCtor c \<noteq> [] \<or> fld_optional f)
     \<and> ProtoFieldName c = fld_name f \<and> (Nullable c \<longrightarrow> prefix ''*'' (JetGoType c))"

text \<open>
  The values that come back: declared enum numbers, times and durations their packages convert back,
  messages \<^verbatim>\<open>protojson\<close> reads back, also compacted.
\<close>

definition enum_kept :: "(string \<times> int) list \<Rightarrow> 'g go_value \<Rightarrow> bool" where
  "enum_kept values v \<longleftrightarrow>
     map_option GEnum (enum_number values (enum_String values v)) = Some v \<and> valid_utf8 (enum_String values v)"

definition time_kept :: "'g mapper_env \<Rightarrow> 'g go_value \<Rightarrow> bool" where
  "time_kept env v \<longleftrightarrow> time_back env (GTime (AsTime env (msg_of v))) = v"

definition duration_kept :: "'g mapper_env \<Rightarrow> 'g go_value \<Rightarrow> bool" where
  "duration_kept env v \<longleftrightarrow> duration_back env (GInt64 (AsDuration env (msg_of v))) = v"

definition message_kept :: "'g mapper_env \<Rightarrow> (string \<Rightarrow> string) \<Rightarrow> string \<Rightarrow> 'g go_value \<Rightarrow> bool" where
  "message_kept env cp ty v \<longleftrightarrow>
     (\<forall>raw. ProtoMarshal env (msg_of v) = Some raw \<longrightarrow>
        raw \<noteq> [] \<and> parsed_proto env ty raw = Ok v \<and> parsed_proto env ty (cp raw) = Ok v)"

definition wrapper_kept :: "'g mapper_env \<Rightarrow> string \<Rightarrow> 'g go_value \<Rightarrow> bool" where
  "wrapper_kept env ctor v \<longleftrightarrow>
     GMsg (WrapperNew env ctor (wrapped env v)) = v
     \<and> (ctor = ''UInt32'' \<longrightarrow> to_uint32 (to_int32 (wrapped env v)) = wrapped env v)
     \<and> (ctor = ''UInt64'' \<longrightarrow> to_uint64 (to_int64 (wrapped env v)) = wrapped env v)"

definition kept :: "'g mapper_env \<Rightarrow> (string \<Rightarrow> string) \<Rightarrow> proto_field \<Rightarrow> column_plan \<Rightarrow> 'g go_value \<Rightarrow> bool" where
  "kept env cp f c v \<longleftrightarrow>
     (case Kind c of
        KindScalar \<Rightarrow> WrapperCtor c = [] \<or> v = GNil \<or> wrapper_kept env (WrapperCtor c) v
      | KindTimestamp \<Rightarrow> v = GNil \<or> time_kept env v
      | KindDuration \<Rightarrow> v = GNil \<or> duration_kept env v
      | KindEnumAsText \<Rightarrow> v = GNil \<or> enum_kept (fld_enum_values f) (deref v)
      | KindRepeated REnum \<Rightarrow> \<forall>x \<in> set (elems v). enum_kept (fld_enum_values f) x
      | KindRepeated RTimestamp \<Rightarrow> \<forall>x \<in> set (elems v). time_kept env x
      | KindRepeated RDuration \<Rightarrow> \<forall>x \<in> set (elems v). duration_kept env x
      | KindRepeated r \<Rightarrow> True
      | KindJSONB JProto \<Rightarrow> v = GNil \<or> message_kept env cp (fld_message f) v
      | KindJSONB JProtoList \<Rightarrow> \<forall>x \<in> set (elems v). message_kept env cp (fld_message f) x
      | KindJSONB JMapMessage \<Rightarrow> \<forall>kv \<in> set (entries v). message_kept env cp (fld_message f) (snd kv)
      | KindJSONB JMapEnum \<Rightarrow> \<forall>kv \<in> set (entries v). enum_kept (fld_enum_values f) (snd kv)
      | KindJSONB j \<Rightarrow> True
      | KindSynthesized \<Rightarrow> True)"

text \<open>
  The field after the way through a row: a nullable column tells unset from empty, another one does
  not, and a message whose JSON is the empty object comes back unset.
\<close>

definition settled :: "'g mapper_env \<Rightarrow> proto_field \<Rightarrow> column_plan \<Rightarrow> 'g go_value \<Rightarrow> 'g go_value" where
  "settled env f c v =
     (if Nullable c then v
      else case Kind c of
        KindScalar \<Rightarrow> if fld_kind f = BytesKind \<and> v = GNil then GBytes [] else v
      | KindDuration \<Rightarrow> if v = GNil then duration_back env (GInt64 (AsDuration env None)) else v
      | KindRepeated r \<Rightarrow> if v = GNil then GList [] else v
      | KindJSONB JProto \<Rightarrow> if ProtoMarshal env (msg_of v) = Some ''{}'' then GNil else v
      | KindJSONB JProtoList \<Rightarrow> if v = GNil then GList [] else v
      | KindJSONB j \<Rightarrow> if v = GNil then GMap [] else v
      | _ \<Rightarrow> v)"

section \<open>The column of a field\<close>

lemma encoded_list:
  "inferListEncoding k msg c = Ok c' \<Longrightarrow> fld_is_list f \<Longrightarrow> fld_kind f = k \<Longrightarrow>
     kind_fits (Kind c') f \<and> WrapperCtor c' = WrapperCtor c \<and> Kind c' \<noteq> KindScalar"
  by (induction k msg c rule: inferListEncoding.induct) (auto simp: encode_as_def split: if_splits)

lemma encoded_map:
  "inferMapEncoding f ov c = Ok c' \<Longrightarrow> validateStorageOverride f ov = Ok u \<Longrightarrow> fld_is_map f \<Longrightarrow> \<not> fld_is_list f \<Longrightarrow>
     kind_fits (Kind c') f \<and> WrapperCtor c' = WrapperCtor c \<and> Kind c' \<noteq> KindScalar
     \<and> MapKeyKind c' = fld_map_key f \<and> MapValueKind c' = fld_map_value f"
  by (auto simp: inferMapEncoding_def validateStorageOverride_def encode_as_def scalar_kind_def Let_def
      split: if_splits proto_kind.splits storage.splits)

lemma wrapper_names:
  "wrapperNative msg = Some w \<Longrightarrow> w_ctor w \<noteq> [] \<and> (w_goType w = ''[]byte'' \<longleftrightarrow> w_ctor w = ''Bytes'')"
  using map_of_SomeD [of _ msg w] unfolding wrapperNative_def by fastforce

lemma encoded_message:
  assumes "singular f" "fld_kind f = MessageKind" "WrapperCtor c = []"
  shows "let c' = messageEncoding msg c in
     kind_fits (Kind c') f \<and> (WrapperCtor c' \<noteq> [] \<longleftrightarrow> Kind c' = KindScalar) \<and> (WrapperCtor c' \<noteq> [] \<longrightarrow> Nullable c')
     \<and> (Kind c' = KindScalar \<longrightarrow> (JetGoType c' = ''[]byte'' \<longleftrightarrow> WrapperCtor c' = ''Bytes''))"
  using assms wrapper_names
  by (auto simp: messageEncoding_def encode_as_def default_to_def Let_def split: option.splits)

lemma encoded_scalar:
  assumes "inferScalarEncoding k f col c = Ok c'" "singular f" "fld_kind f = k" "WrapperCtor c = []"
  shows "kind_fits (Kind c') f \<and> (WrapperCtor c' \<noteq> [] \<longleftrightarrow> Kind c' = KindScalar \<and> k = MessageKind)
     \<and> (WrapperCtor c' \<noteq> [] \<longrightarrow> Nullable c')
     \<and> (Kind c' = KindScalar \<longrightarrow> (JetGoType c' = ''[]byte'' \<longleftrightarrow> k = BytesKind \<or> WrapperCtor c' = ''Bytes''))"
proof (cases k)
  case EnumKind
  with assms show ?thesis
    by (auto simp: enumEncoding_def encode_as_def Let_def split: if_splits)
next
  case MessageKind
  with assms encoded_message [of f c "fld_message f"] show ?thesis by (auto simp: Let_def)
qed (use assms in \<open>auto simp: encode_as_def default_to_def scalar_kind_def Let_def split: if_splits\<close>)

lemma encoded_field:
  assumes "inferFieldEncoding f col c = Ok c'" "WrapperCtor c = []"
  shows "kind_fits (Kind c') f
     \<and> (fld_is_map f \<and> \<not> fld_is_list f \<longrightarrow> MapKeyKind c' = fld_map_key f \<and> MapValueKind c' = fld_map_value f)
     \<and> (WrapperCtor c' \<noteq> [] \<longleftrightarrow> Kind c' = KindScalar \<and> fld_kind f = MessageKind)
     \<and> (WrapperCtor c' \<noteq> [] \<longrightarrow> Nullable c')
     \<and> (Kind c' = KindScalar \<longrightarrow> (JetGoType c' = ''[]byte'' \<longleftrightarrow> fld_kind f = BytesKind \<or> WrapperCtor c' = ''Bytes''))"
proof -
  obtain u where u: "validateStorageOverride f (col_storage col) = Ok u"
    using assms(1) by (auto simp: inferFieldEncoding_def go_simps)
  consider (lst) "fld_is_list f" | (mp) "fld_is_map f" "\<not> fld_is_list f" | (sg) "singular f"
    by (auto simp: singular_def)
  then show ?thesis
  proof cases
    case lst
    with assms u have "inferListEncoding (fld_kind f) (fld_message f) c = Ok c'" by (simp add: inferFieldEncoding_def)
    from encoded_list [OF this lst] lst assms(2) show ?thesis by simp
  next
    case mp
    with assms u have "inferMapEncoding f (col_storage col) c = Ok c'" by (simp add: inferFieldEncoding_def)
    from encoded_map [OF this u mp] mp assms(2) show ?thesis by simp
  next
    case sg
    with assms u have "inferScalarEncoding (fld_kind f) f col c = Ok c'"
      by (simp add: inferFieldEncoding_def singular_def)
    from encoded_scalar [OF this sg _ assms(2)] sg show ?thesis by (simp add: singular_def)
  qed
qed

text \<open>What the options after the encoding leave alone.\<close>

lemma options_keep:
  assumes "settleNullable f ud c2 = Ok c3" "renameOption col c3 = Ok c4" "jsonbOptions col c4 = Ok c5"
    "keyOptions col c5 = Ok c6" "applyGeneratedExpr col c6 = Ok c"
  shows "Kind c = Kind c2 \<and> WrapperCtor c = WrapperCtor c2 \<and> MapKeyKind c = MapKeyKind c2
     \<and> MapValueKind c = MapValueKind c2 \<and> ProtoFieldName c = ProtoFieldName c2 \<and> JetFieldName c = JetFieldName c2
     \<and> JetGoType c = (if Nullable c then ''*'' @ JetGoType c2 else JetGoType c2)
     \<and> (Nullable c2 \<longrightarrow> Nullable c) \<and> (defaultsToNullable (Kind c2) \<and> ud = [] \<longrightarrow> Nullable c)
     \<and> (Nullable c \<and> Kind c \<in> {KindScalar, KindEnumAsText, KindDuration} \<longrightarrow> WrapperCtor c \<noteq> [] \<or> fld_optional f)"
proof (rule settleNullable_shape [OF assms(1)])
  fix n
  assume c3: "c3 = c2\<lparr>Nullable := n, NotNull := \<not> n, JetGoType := (if n then ''*'' @ JetGoType c2 else JetGoType c2),
      DefaultExpr := (if n \<and> ud = [] then [] else DefaultExpr c2)\<rparr>"
    and n: "n \<longleftrightarrow> Nullable c2 \<or> ud = [] \<and> defaultsToNullable (Kind c2)"
    "n \<and> Kind c2 \<in> {KindScalar, KindEnumAsText, KindDuration} \<longrightarrow> WrapperCtor c2 \<noteq> [] \<or> fld_optional f"
  obtain r where c4: "c4 = c3\<lparr>RenameFrom := r\<rparr>" using renameOption_shape [OF assms(2)] by metis
  obtain ps g where c5: "c5 = c4\<lparr>JSONBIndexedPaths := ps, JSONBGinIndex := g\<rparr>"
    using jsonbOptions_shape [OF assms(3)] by metis
  obtain u fk where c6: "c6 = c5\<lparr>Unique := u, ForeignKey := fk\<rparr>" using keyOptions_shape [OF assms(4)] by metis
  have "\<exists>d g. c = c6\<lparr>DefaultExpr := d, GeneratedExpr := g\<rparr>"
    using applyGeneratedExpr_shape [OF assms(5)]
  proof (elim disjE conjE)
    assume "c = c6"
    then have "c = c6\<lparr>DefaultExpr := DefaultExpr c6, GeneratedExpr := GeneratedExpr c6\<rparr>" by simp
    then show ?thesis by blast
  qed blast
  then obtain d g where c: "c = c6\<lparr>DefaultExpr := d, GeneratedExpr := g\<rparr>" by blast
  show ?thesis using n by (cases n) (simp_all add: c c6 c5 c4 c3, blast)
qed

lemma resolved_encodes:
  assumes "resolveColumn f = Ok (Some c)"
  shows "encodes f c \<and> \<not> Synthesized c"
proof (rule resolveColumn_stages [OF assms])
  fix c2 c3 c4 c5 c6
  assume inf: "inferFieldEncoding f (option_of f) (named_column f) = Ok c2"
    and st: "settleNullable f (col_default_expr (option_of f)) c2 = Ok c3" "renameOption (option_of f) c3 = Ok c4"
    "jsonbOptions (option_of f) c4 = Ok c5" "keyOptions (option_of f) c5 = Ok c6" "applyGeneratedExpr (option_of f) c6 = Ok c"
  have start: "WrapperCtor (named_column f) = []" "ProtoFieldName (named_column f) = fld_name f"
    by (simp_all add: named_column_def start_column_def empty_column_def Let_def)
  have "ProtoFieldName c2 = fld_name f"
    using start(2) by (subst inferFieldEncoding_shape [OF inf, THEN conjunct2, unfolded encoding_frame_def]) simp
  moreover have "\<not> Synthesized c" using resolved_column_wf [OF assms] by (simp add: column_wf_def)
  moreover note keep = options_keep [OF st]
  moreover from keep have eqs: "Kind c2 = Kind c" "WrapperCtor c2 = WrapperCtor c" "MapKeyKind c2 = MapKeyKind c"
    "MapValueKind c2 = MapValueKind c" "ProtoFieldName c2 = ProtoFieldName c"
    "JetGoType c2 = ''[]byte'' \<longleftrightarrow> JetGoType c = (if Nullable c then ''*[]byte'' else ''[]byte'')"
    "Nullable c \<longrightarrow> prefix ''*'' (JetGoType c)" by simp_all
  ultimately show ?thesis
    using encoded_field [OF inf start(1), unfolded eqs] unfolding encodes_def eqs by (intro conjI) blast+
qed

section \<open>JSON documents there and back\<close>

definition empty_value :: "jsonb_kind \<Rightarrow> 'g go_value" where
  "empty_value j = (if j = JProtoList then GList [] else GMap [])"

lemma json_lawD:
  assumes "json_law env cp" "of_go_type t v" "json_text env v = Ok x"
  obtains s v' where "x = GStr s" "s \<noteq> []" "parsed_json env t s = Ok v'" "same_value v' (compacted cp v)"
proof -
  obtain s where s: "JsonMarshal env v = Some s" "x = GStr s"
    using assms(3) by (auto simp: json_text_def split: option.splits)
  with assms(1,2) obtain v' where "s \<noteq> []" "JsonUnmarshal env t s = Some v'" "same_value v' (compacted cp v)"
    unfolding json_law_def by blast
  with s(2) that show thesis by (simp add: parsed_json_def)
qed

lemma same_list [simp]: "same_value v (GList xs) \<longleftrightarrow> v = GList xs"
  by (cases v) auto

lemma proto_raw_shape: "proto_raw env v = Ok w \<Longrightarrow> \<exists>s. w = GRaw s \<and> ProtoMarshal env (msg_of v) = Some s"
  by (auto simp: proto_raw_def split: option.splits)

lemma message_back:
  assumes "message_kept env cp ty v" "proto_raw env v = Ok w"
  shows "parsed_proto env ty (text_of w) = Ok v \<and> parsed_proto env ty (text_of (compacted cp w)) = Ok v
    \<and> text_of w \<noteq> []"
  using assms proto_raw_shape [OF assms(2)] by (auto simp: message_kept_def)

lemma enum_back: "enum_kept vs v \<Longrightarrow> enum_or_zero vs (enum_String vs v) = v"
  by (auto simp: enum_kept_def enum_or_zero_def)

lemma enum_valid: "enum_kept vs v \<Longrightarrow> valid_utf8 (enum_String vs v)"
  by (simp add: enum_kept_def)

lemma scalar_typed:
  assumes "has_kind k v" "scalar_kind k"
  shows "of_go_type (goMapScalarValueType k) v \<and> compacted cp v = v"
  using assms by (cases k; cases v) (auto simp: scalar_kind_def)

lemma string_typed: "has_kind StringKind v \<Longrightarrow> of_go_type ''string'' v \<and> compacted cp v = v"
  by (cases v) auto

lemma list_back:
  assumes law: "json_law env cp" and kept: "\<forall>x \<in> set (elems v). message_kept env cp (fld_message f) x"
    and ok: "jsonb_text env JProtoList f c v = Ok t"
  shows "\<exists>s. t = GStr s \<and> s \<noteq> [] \<and> jsonb_value env JProtoList f c s = Ok (GList (elems v))"
proof -
  obtain raws where raws: "map_out (proto_raw env) (elems v) = Ok raws" "json_text env (GList raws) = Ok t"
    using ok by (auto simp: jsonb_text_def go_simps)
  then have l2: "list_all2 (\<lambda>x w. proto_raw env x = Ok w) (elems v) raws" by (simp add: map_out_Ok_iff)
  then have "\<forall>w \<in> set raws. \<exists>s. w = GRaw s"
    using proto_raw_shape by (fastforce simp: list_all2_conv_all_nth in_set_conv_nth)
  then have "of_go_type ''[]json.RawMessage'' (GList raws)" by auto
  from json_lawD [OF law this raws(2)] obtain s where s: "t = GStr s" "s \<noteq> []"
    "parsed_json env ''[]json.RawMessage'' s = Ok (GList (map (compacted cp) raws))" by auto
  have "list_all2 (\<lambda>w x. parsed_proto env (fld_message f) (text_of w) = Ok x) (map (compacted cp) raws) (elems v)"
    using l2 kept message_back by (fastforce simp: list_all2_conv_all_nth)
  then have "map_out (\<lambda>raw. parsed_proto env (fld_message f) (text_of raw)) (map (compacted cp) raws) = Ok (elems v)"
    by (simp add: map_out_Ok_iff)
  with s show ?thesis by (simp add: jsonb_value_def)
qed

text \<open>The three kinds of maps that are re-keyed differ in how a value is written and read.\<close>

lemma map_back:
  assumes law: "json_law env cp" and k: "goMapKeyType k \<noteq> []"
    and keys: "distinct (map fst (entries v))" "\<forall>kv \<in> set (entries v). has_kind k (fst kv)"
    and ok: "and_then (rekeyed k conv v) (json_text env) = Ok t"
    and ty: "\<And>kv w. kv \<in> set (entries v) \<Longrightarrow> conv (snd kv) = Ok w \<Longrightarrow> of_go_type e w"
    and undo: "\<And>kv w. kv \<in> set (entries v) \<Longrightarrow> conv (snd kv) = Ok w \<Longrightarrow> conv' (compacted cp w) = Ok (snd kv)"
  shows "\<exists>s kvs. t = GStr s \<and> s \<noteq> [] \<and> mset kvs = mset (entries v)
    \<and> and_then (parsed_json env (''map[string]'' @ e) s) (unkeyed k conv') = Ok (GMap kvs)"
proof -
  obtain r where r: "rekeyed k conv v = Ok r" "json_text env r = Ok t"
    using ok by (auto simp: go_simps)
  from rekeyed_typed [OF r(1) keys k ty] have "of_go_type (''map[string]'' @ e) r" .
  from json_lawD [OF law this r(2)] obtain s v' where s: "t = GStr s" "s \<noteq> []"
    "parsed_json env (''map[string]'' @ e) s = Ok v'" "same_value v' (compacted cp r)" by metis
  moreover have "\<exists>kvs. unkeyed k conv' v' = Ok (GMap kvs) \<and> mset kvs = mset (entries v)"
    by (rule rekeyed_unkeyed [OF r(1) keys k s(4)]) (rule undo)
  ultimately show ?thesis by auto
qed

lemma jsonb_back:
  assumes law: "json_law env cp" and enc: "kind_fits (KindJSONB j) f" "fld_is_map f \<and> \<not> fld_is_list f \<longrightarrow> MapKeyKind c = fld_map_key f \<and> MapValueKind c = fld_map_value f"
    and key: "fld_is_map f \<longrightarrow> goMapKeyType (fld_map_key f) \<noteq> []" and ty: "field_typed f v"
    and nn: "v \<noteq> GNil \<or> j \<noteq> JProto \<and> j \<noteq> JStrMap" and kind: "Kind c = KindJSONB j" and kp: "kept env cp f c v"
    and ok: "jsonb_text env j f c v = Ok t"
  shows "\<exists>s v'. t = GStr s \<and> s \<noteq> [] \<and> jsonb_value env j f c s = Ok v'
    \<and> same_value v' (if v = GNil then empty_value j else v)"
proof -
  have maps: "\<exists>s v'. t = GStr s \<and> s \<noteq> [] \<and> jsonb_value env j f c s = Ok v'
      \<and> same_value v' (if v = GNil then empty_value j else v)"
    if m: "\<exists>s kvs. t = GStr s \<and> s \<noteq> [] \<and> mset kvs = mset (entries v) \<and> jsonb_value env j f c s = Ok (GMap kvs)"
      and fm: "fld_is_map f" "\<not> fld_is_list f" "j \<noteq> JProtoList"
    using m fm ty by (fastforce simp: field_typed_def empty_value_def)
  have keys: "distinct (map fst (entries v))" "\<forall>kv \<in> set (entries v). has_kind (fld_map_key f) (fst kv)"
    "\<forall>kv \<in> set (entries v). has_kind (fld_map_value f) (snd kv)" if "fld_is_map f" "\<not> fld_is_list f"
    using ty that by (auto simp: field_typed_def)
  show ?thesis
  proof (cases j)
    case JProto
    then have "v \<noteq> GNil" "message_kept env cp (fld_message f) v" using nn kp kind by (auto simp: kept_def)
    moreover obtain w where "proto_raw env v = Ok w" "t = GStr (text_of w)"
      using ok JProto by (auto simp: jsonb_text_def go_simps)
    ultimately have "jsonb_value env j f c (text_of w) = Ok v" "text_of w \<noteq> []" "t = GStr (text_of w)" "v \<noteq> GNil"
      using JProto message_back [of env cp "fld_message f" v w] by (auto simp: jsonb_value_def)
    moreover have "same_value v v" by (cases v) auto
    ultimately show ?thesis by auto
  next
    case JProtoList
    then have "\<forall>x \<in> set (elems v). message_kept env cp (fld_message f) x" using kp kind by (auto simp: kept_def)
    from list_back [OF law this ok [unfolded JProtoList]] show ?thesis
      using ty enc(1) JProtoList by (auto simp: field_typed_def empty_value_def)
  next
    case JStrMap
    then have f: "fld_is_map f" "\<not> fld_is_list f" "fld_map_key f = StringKind" "fld_map_value f = StringKind" using enc by auto
    then obtain kvs where v: "v = GMap kvs" "distinct (map fst kvs)" using nn JStrMap ty by (auto simp: field_typed_def)
    have each: "\<forall>kv \<in> set kvs. of_go_type ''string'' (fst kv) \<and> of_go_type ''string'' (snd kv) \<and> compacted cp (snd kv) = snd kv"
      using keys [OF f(1,2)] unfolding f(3,4) v(1) by (simp add: string_typed del: has_kind.simps)
    then have same: "map (map_prod id (compacted cp)) kvs = kvs" by (auto intro!: map_idI simp: prod_eq_iff)
    have "of_go_type ''map[string]string'' v" using v each by simp
    from json_lawD [OF law this] ok JStrMap obtain s v' where "t = GStr s" "s \<noteq> []"
      "parsed_json env ''map[string]string'' s = Ok v'" "same_value v' (compacted cp v)"
      by (metis jsonb_text_def jsonb_kind.simps(33))
    with same v(1) JStrMap show ?thesis by (auto simp: jsonb_value_def)
  next
    case JMapScalar
    then have f: "fld_is_map f" "\<not> fld_is_list f" "scalar_kind (fld_map_value f)" using enc by auto
    with enc key have k: "MapKeyKind c = fld_map_key f" "MapValueKind c = fld_map_value f" "goMapKeyType (fld_map_key f) \<noteq> []"
      by auto
    have "and_then (rekeyed (fld_map_key f) Ok v) (json_text env) = Ok t"
      using ok JMapScalar k by (simp add: jsonb_text_def)
    then have "\<exists>s kvs. t = GStr s \<and> s \<noteq> [] \<and> mset kvs = mset (entries v)
        \<and> and_then (parsed_json env (''map[string]'' @ goMapScalarValueType (fld_map_value f)) s) (unkeyed (fld_map_key f) Ok) = Ok (GMap kvs)"
      by (rule map_back [OF law k(3) keys(1,2) [OF f(1,2)]])
        (use scalar_typed [OF _ f(3)] keys(3) [OF f(1,2)] in auto)
    then have "\<exists>s kvs. t = GStr s \<and> s \<noteq> [] \<and> mset kvs = mset (entries v) \<and> jsonb_value env j f c s = Ok (GMap kvs)"
      using JMapScalar k by (simp add: jsonb_value_def)
    from maps [OF this f(1,2)] show ?thesis by (simp add: JMapScalar)
  next
    case JMapEnum
    then have f: "fld_is_map f" "\<not> fld_is_list f" "fld_map_value f = EnumKind" using enc by auto
    with enc key have k: "MapKeyKind c = fld_map_key f" "goMapKeyType (fld_map_key f) \<noteq> []" by auto
    have kp': "\<forall>kv \<in> set (entries v). enum_kept (fld_enum_values f) (snd kv)" using kp kind JMapEnum by (simp add: kept_def)
    have "and_then (rekeyed (fld_map_key f) (\<lambda>v. Ok (GStr (enum_String (fld_enum_values f) v))) v) (json_text env) = Ok t"
      using ok JMapEnum k by (simp add: jsonb_text_def)
    then have "\<exists>s kvs. t = GStr s \<and> s \<noteq> [] \<and> mset kvs = mset (entries v)
        \<and> and_then (parsed_json env (''map[string]'' @ ''string'') s) (unkeyed (fld_map_key f) (\<lambda>name. Ok (enum_or_zero (fld_enum_values f) (text_of name)))) = Ok (GMap kvs)"
      by (rule map_back [OF law k(2) keys(1,2) [OF f(1,2)]])
        (use kp' in \<open>auto simp: enum_back enum_valid\<close>)
    then have "\<exists>s kvs. t = GStr s \<and> s \<noteq> [] \<and> mset kvs = mset (entries v) \<and> jsonb_value env j f c s = Ok (GMap kvs)"
      using JMapEnum k by (simp add: jsonb_value_def)
    from maps [OF this f(1,2)] show ?thesis by (simp add: JMapEnum)
  next
    case JMapMessage
    then have f: "fld_is_map f" "\<not> fld_is_list f" "fld_map_value f = MessageKind" using enc by auto
    with enc key have k: "MapKeyKind c = fld_map_key f" "goMapKeyType (fld_map_key f) \<noteq> []" by auto
    have kp': "\<forall>kv \<in> set (entries v). message_kept env cp (fld_message f) (snd kv)" using kp kind JMapMessage by (simp add: kept_def)
    have "and_then (rekeyed (fld_map_key f) (proto_raw env) v) (json_text env) = Ok t"
      using ok JMapMessage k by (simp add: jsonb_text_def)
    then have "\<exists>s kvs. t = GStr s \<and> s \<noteq> [] \<and> mset kvs = mset (entries v)
        \<and> and_then (parsed_json env (''map[string]'' @ ''json.RawMessage'') s) (unkeyed (fld_map_key f) (\<lambda>raw. parsed_proto env (fld_message f) (text_of raw))) = Ok (GMap kvs)"
      by (rule map_back [OF law k(2) keys(1,2) [OF f(1,2)]])
        (use proto_raw_shape [of env] message_back [OF bspec [OF kp']] in fastforce)+
    then have "\<exists>s kvs. t = GStr s \<and> s \<noteq> [] \<and> mset kvs = mset (entries v) \<and> jsonb_value env j f c s = Ok (GMap kvs)"
      using JMapMessage k by (simp add: jsonb_value_def)
    from maps [OF this f(1,2)] show ?thesis by (simp add: JMapMessage)
  qed
qed

section \<open>A column there and back\<close>

lemma uint_there_back:
  assumes "has_kind (fld_kind f) x"
  shows "uint_back f (if isUnsignedInt32Kind (fld_kind f) then to_int32 x
     else if isUnsignedInt64Kind (fld_kind f) then to_int64 x else x) = x"
  using assms by (cases "fld_kind f"; cases x)
    (auto simp: uint_back_def isUnsignedInt32Kind_def isUnsignedInt64Kind_def)

lemma cast_there_back:
  assumes "\<forall>x \<in> set xs. has_kind k x"
  shows "isUnsignedInt32Kind k \<Longrightarrow> map to_uint32 (map (cast_elem ''int32'') xs) = xs"
    and "isUnsignedInt64Kind k \<Longrightarrow> map to_uint64 (map (cast_elem ''int64'') xs) = xs"
proof -
  have "x \<in> set xs \<Longrightarrow> isUnsignedInt32Kind k \<Longrightarrow> to_uint32 (to_int32 x) = x"
    "x \<in> set xs \<Longrightarrow> isUnsignedInt64Kind k \<Longrightarrow> to_uint64 (to_int64 x) = x" for x
    using bspec [OF assms, of x]
    by (cases x; auto simp: isUnsignedInt32Kind_def isUnsignedInt64Kind_def)+
  then show "isUnsignedInt32Kind k \<Longrightarrow> map to_uint32 (map (cast_elem ''int32'') xs) = xs"
    "isUnsignedInt64Kind k \<Longrightarrow> map to_uint64 (map (cast_elem ''int64'') xs) = xs"
    by (auto simp: cast_elem_def intro!: map_idI)
qed

lemma enum_typed: "has_kind EnumKind x \<Longrightarrow> \<exists>w. x = GEnum w"
  by (cases x) auto

lemma names_back:
  "\<forall>x \<in> set xs. enum_kept vs x \<Longrightarrow>
     List.map_filter (\<lambda>name. map_option GEnum (enum_number vs (text_of name))) (map (\<lambda>v. GStr (enum_String vs v) :: 'g go_value) xs) = (xs :: 'g go_value list)"
  by (induction xs) (auto simp: enum_kept_def)

lemma list_typed:
  "field_typed f v \<Longrightarrow> fld_is_list f \<Longrightarrow> (v = GNil \<or> v = GList (elems v)) \<and> (\<forall>x \<in> set (elems v). has_kind (fld_kind f) x)"
  by (auto simp: field_typed_def)

lemma repeated_back:
  assumes fits: "repeated_fits r (fld_kind f)" and ty: "field_typed f v" "fld_is_list f"
    and kp: "kept env cp f c v" "Kind c = KindRepeated r"
  shows "repeated_proto_value env r f (repeated_model_assign env r f v) = (if v = GNil then GList [] else v)"
proof -
  note t = list_typed [OF ty]
  show ?thesis
  proof (cases r)
    case REnum
    then have "\<forall>x \<in> set (elems v). enum_kept (fld_enum_values f) x" using kp by (simp add: kept_def)
    from names_back [OF this] REnum t show ?thesis by (auto simp del: map_map)
  next
    case RInt32
    with t cast_there_back(1) [of "elems v" "fld_kind f"] show ?thesis
      by (auto simp: writeRepeatedPrimitiveModelAssign_def int32_cast_def)
  next
    case RInt64
    with t cast_there_back(2) [of "elems v" "fld_kind f"] show ?thesis
      by (auto simp: writeRepeatedPrimitiveModelAssign_def int64_cast_def)
  next
    case RTimestamp
    then have "\<forall>x \<in> set (elems v). time_kept env x" using kp by (simp add: kept_def)
    then have "map (time_back env) (map (\<lambda>v. GTime (AsTime env (msg_of v))) (elems v)) = elems v"
      by (auto simp: time_kept_def intro!: map_idI)
    with RTimestamp t show ?thesis by (auto simp del: map_map)
  next
    case RDuration
    then have "\<forall>x \<in> set (elems v). duration_kept env x" using kp by (simp add: kept_def)
    then have "map (duration_back env) (map (\<lambda>v. GInt64 (AsDuration env (msg_of v))) (elems v)) = elems v"
      by (auto simp: duration_kept_def intro!: map_idI)
    with RDuration t show ?thesis by (auto simp del: map_map)
  qed (auto simp: writeRepeatedPrimitiveModelAssign_def)
qed

lemma nullable_repeated:
  "nullable_repeated_assign env r f v = (if v = GNil then None else Some (GPtr (repeated_model_assign env r f v)))"
  by (cases r) (auto simp: writeNullableRepeatedPrimitiveAssign_def writeRepeatedPrimitiveModelAssign_def
      int32_cast_def int64_cast_def)

lemma zero_cell_pointer: "prefix ''*'' t \<Longrightarrow> zero_cell t = GNil"
  by (auto simp: zero_cell_def prefix_def)

text \<open>
  The row's value of a column once the message is converted, and the message's value once the row is
  converted back.
\<close>

definition there :: "'g mapper_env \<Rightarrow> 'g go_message option \<Rightarrow> proto_field \<Rightarrow> column_plan \<Rightarrow> (mapper_error, 'g go_value) outcome" where
  "there env p f c =
     and_then (model_assign env p f c) (\<lambda>st. Ok (case st of Some x \<Rightarrow> x | None \<Rightarrow> zero_cell (JetGoType c)))"

definition back_again :: "'g mapper_env \<Rightarrow> proto_field \<Rightarrow> column_plan \<Rightarrow> 'g go_value \<Rightarrow> (mapper_error, 'g go_value) outcome" where
  "back_again env f c src =
     and_then (writeProtoAssignFromModel env f c src) (\<lambda>b. Ok (case b of Some x \<Rightarrow> x | None \<Rightarrow> zero_field f))"

text \<open>Where the emitted assignments are well typed: a pointer field has a pointer column.\<close>

definition assignable :: "proto_field \<Rightarrow> column_plan \<Rightarrow> bool" where
  "assignable f c \<longleftrightarrow>
     (fld_optional f \<and> Kind c \<in> {KindScalar, KindEnumAsText} \<and> fld_kind f \<noteq> BytesKind \<longrightarrow> Nullable c)"

text \<open>The keys of a map field are of a kind that may be a key.\<close>

definition key_legal :: "proto_field \<Rightarrow> bool" where
  "key_legal f \<longleftrightarrow> (fld_is_map f \<longrightarrow> goMapKeyType (fld_map_key f) \<noteq> [])"

lemma nil_field: "zero_field f = GNil" if "fld_is_list f \<or> fld_is_map f \<or> fld_optional f \<or> fld_kind f \<in> {MessageKind, BytesKind}"
  using that by (auto simp: zero_field_def)

lemma column_back_nullable:
  assumes law: "json_law env cp" and enc: "encodes f c" and key: "key_legal f" and n: "Nullable c"
    and v: "MsgField m (fld_name f) = v" and ty: "field_typed f v" and kp: "kept env cp f c v"
    and ok: "there env (Some m) f c = Ok src"
  shows "\<exists>v'. back_again env f c src = Ok v' \<and> same_value v' v"
proof -
  have z: "zero_cell (JetGoType c) = GNil" using enc n zero_cell_pointer by (auto simp: encodes_def)
  have refl: "same_value v v" by (cases v) auto
  note defs = there_def back_again_def model_assign_def writeNullableModelAssign_def writeProtoAssignFromModel_def
    writeNullableProtoAssign_def Let_def n z
  show ?thesis
  proof (cases "Kind c")
    case KindScalar
    show ?thesis
    proof (cases "WrapperCtor c = []")
      case False
      with KindScalar enc have "singular f" "fld_kind f = MessageKind" by (auto simp: encodes_def)
      then have "v = GNil \<or> (\<exists>g. v = GMsg g)" "zero_field f = GNil"
        using ty by (auto simp: field_typed_def singular_def nil_field split: go_value.splits)
      with False KindScalar kp ok v show ?thesis
        by (auto simp: defs writeWrapperModelAssign_def writeWrapperProtoAssign_def present_def field_ref_def
            getter_def kept_def wrapper_kept_def split: if_splits)
    next
      case True
      with KindScalar enc n have f: "singular f" "scalar_kind (fld_kind f)" "fld_optional f"
        "JetGoType c = ''*[]byte'' \<longleftrightarrow> fld_kind f = BytesKind" by (auto simp: encodes_def)
      consider "v = GNil" | b where "v = GBytes b" "fld_kind f = BytesKind"
        | x where "v = GPtr x" "has_kind (fld_kind f) x" "fld_kind f \<noteq> BytesKind"
        using ty f by (auto simp: field_typed_def singular_def scalar_kind_def split: go_value.splits)
      then show ?thesis
        using True KindScalar ok v f uint_there_back [of f]
        by cases (auto simp: defs present_def field_ref_def getter_def nil_field)
    qed
  next
    case (KindRepeated r)
    with enc have f: "fld_is_list f" "repeated_fits r (fld_kind f)" "WrapperCtor c = []" by (auto simp: encodes_def)
    with list_typed [OF ty] v have "getter (Some m) f = v" by (auto simp: getter_def split: go_value.splits)
    with repeated_back [OF f(2) ty f(1) kp KindRepeated] KindRepeated f ok refl show ?thesis
      by (auto simp: defs nullable_repeated nil_field split: if_splits)
  next
    case (KindJSONB j)
    with enc have f: "kind_fits (KindJSONB j) f"
      "fld_is_map f \<and> \<not> fld_is_list f \<longrightarrow> MapKeyKind c = fld_map_key f \<and> MapValueKind c = fld_map_value f"
      "WrapperCtor c = []" by (simp_all add: encodes_def)
    have nil: "zero_field f = GNil" using f(1) by (cases j) (auto simp: nil_field)
    have g: "getter (Some m) f = v"
      using ty v f(1) by (cases j) (auto simp: getter_def field_typed_def singular_def split: go_value.splits)
    show ?thesis
    proof (cases "v = GNil")
      case True
      with g nil KindJSONB f ok show ?thesis by (auto simp: defs)
    next
      case False
      with g KindJSONB f ok obtain t where t: "jsonb_text env j f c v = Ok t" "src = GPtr t"
        by (auto simp: defs go_simps)
      from jsonb_back [OF law f(1,2) key [unfolded key_legal_def] ty _ KindJSONB kp t(1)] False
      obtain s v' where "t = GStr s" "jsonb_value env j f c s = Ok v'" "same_value v' v" by auto
      with t KindJSONB f show ?thesis by (auto simp: defs)
    qed
  next
    case KindTimestamp
    with enc have f: "singular f" "fld_kind f = MessageKind" "WrapperCtor c = []" by (auto simp: encodes_def)
    then have "v = GNil \<or> (\<exists>g. v = GMsg g)"
      using ty by (auto simp: field_typed_def singular_def split: go_value.splits)
    with f KindTimestamp kp ok v show ?thesis
      by (auto simp: defs getter_def kept_def time_kept_def nil_field)
  next
    case KindDuration
    with enc have f: "singular f" "fld_kind f = MessageKind" "WrapperCtor c = []" by (auto simp: encodes_def)
    then have "v = GNil \<or> (\<exists>g. v = GMsg g)"
      using ty by (auto simp: field_typed_def singular_def split: go_value.splits)
    with f KindDuration kp ok v show ?thesis
      by (auto simp: defs getter_def present_def field_ref_def kept_def duration_kept_def nil_field)
  next
    case KindEnumAsText
    with enc n have f: "singular f" "fld_kind f = EnumKind" "fld_optional f" "WrapperCtor c = []" by (auto simp: encodes_def)
    then have "v = GNil \<or> (\<exists>w. v = GPtr (GEnum w))"
      using ty enum_typed by (fastforce simp: field_typed_def singular_def simp del: has_kind.simps)
    with f KindEnumAsText kp ok v show ?thesis
      by (auto simp: defs getter_def present_def field_ref_def kept_def enum_kept_def nil_field)
  next
    case KindSynthesized
    with enc show ?thesis by (simp add: encodes_def)
  qed
qed

lemma column_back_plain:
  assumes law: "json_law env cp" and enc: "encodes f c" and key: "key_legal f" and n: "\<not> Nullable c"
    and kind: "Kind c \<noteq> KindTimestamp" and asg: "assignable f c"
    and v: "MsgField m (fld_name f) = v" and ty: "field_typed f v" and kp: "kept env cp f c v"
    and ok: "there env (Some m) f c = Ok src"
  shows "\<exists>v'. back_again env f c src = Ok v' \<and> same_value v' (settled env f c v)"
proof -
  have refl: "same_value x x" for x :: "'a go_value" by (cases x) auto
  have w: "WrapperCtor c = []" using enc n by (auto simp: encodes_def)
  note defs = there_def back_again_def model_assign_def writeModelAssignFromProto_def writeProtoAssignFromModel_def n w
    settled_def
  show ?thesis
  proof (cases "Kind c")
    case KindScalar
    with enc n w have f: "singular f" "scalar_kind (fld_kind f)"
      "JetGoType c = ''[]byte'' \<longleftrightarrow> fld_kind f = BytesKind" by (auto simp: encodes_def)
    consider "v = GNil" "fld_kind f = BytesKind" | b where "v = GBytes b" "fld_kind f = BytesKind"
      | "has_kind (fld_kind f) v" "fld_kind f \<noteq> BytesKind"
      using ty f asg n KindScalar
      by (auto simp: field_typed_def singular_def scalar_kind_def assignable_def split: go_value.splits)
    then show ?thesis
    proof cases
      case 3
      then have "getter (Some m) f = v" using v by (cases "fld_kind f"; cases v) (auto simp: getter_def)
      with 3 ok f KindScalar uint_there_back [of f v] refl show ?thesis by (auto simp: defs)
    qed (use ok f v KindScalar in \<open>auto simp: defs getter_def singular_def uint_back_def isUnsignedInt32Kind_def isUnsignedInt64Kind_def\<close>)
  next
    case (KindRepeated r)
    with enc have f: "fld_is_list f" "repeated_fits r (fld_kind f)" by (auto simp: encodes_def)
    with list_typed [OF ty] v have "getter (Some m) f = v" by (auto simp: getter_def split: go_value.splits)
    with repeated_back [OF f(2) ty f(1) kp KindRepeated] KindRepeated ok refl show ?thesis
      by (auto simp: defs)
  next
    case (KindJSONB j)
    with enc have f: "kind_fits (KindJSONB j) f"
      "fld_is_map f \<and> \<not> fld_is_list f \<longrightarrow> MapKeyKind c = fld_map_key f \<and> MapValueKind c = fld_map_value f"
      by (simp_all add: encodes_def)
    have nil: "zero_field f = GNil" using f(1) by (cases j) (auto simp: nil_field)
    have g: "getter (Some m) f = v"
      using ty v f(1) by (cases j) (auto simp: getter_def field_typed_def singular_def split: go_value.splits)
    have s: "settled env f c v = (if j = JProto then if ProtoMarshal env (msg_of v) = Some ''{}'' then GNil else v
        else if v = GNil then empty_value j else v)"
      using KindJSONB n by (auto simp: settled_def empty_value_def split: jsonb_kind.splits)
    show ?thesis
    proof (cases "v = GNil \<and> (j = JProto \<or> j = JStrMap)")
      case True
      with g ok KindJSONB have "src = GStr ''{}''" by (auto simp: defs)
      with True KindJSONB law nil show ?thesis
        by (auto simp: there_def back_again_def writeProtoAssignFromModel_def n settled_def
            jsonb_value_def parsed_json_def json_law_def)
    next
      case False
      with g KindJSONB ok obtain t where t: "jsonb_text env j f c v = Ok t" "src = t" by (auto simp: defs go_simps)
      from jsonb_back [OF law f(1,2) key [unfolded key_legal_def] ty _ KindJSONB kp t(1)] False
      obtain s' v' where b: "t = GStr s'" "s' \<noteq> []" "jsonb_value env j f c s' = Ok v'"
        "same_value v' (if v = GNil then empty_value j else v)" by auto
      show ?thesis
      proof (cases "j = JProto")
        case True
        with t(1) b(1) False have "ProtoMarshal env (msg_of v) = Some s'"
          by (auto simp: jsonb_text_def go_simps dest!: proto_raw_shape)
        with True b t KindJSONB False nil show ?thesis
          by (auto simp: back_again_def writeProtoAssignFromModel_def n s)
      next
        case False
        with b t KindJSONB show ?thesis by (auto simp: back_again_def writeProtoAssignFromModel_def n s)
      qed
    qed
  next
    case KindDuration
    with enc have f: "singular f" "fld_kind f = MessageKind" by (auto simp: encodes_def)
    then have "v = GNil \<or> (\<exists>g. v = GMsg g)"
      using ty by (auto simp: field_typed_def singular_def split: go_value.splits)
    with f KindDuration kp ok v refl show ?thesis
      by (auto simp: defs getter_def kept_def duration_kept_def singular_def)
  next
    case KindEnumAsText
    with enc asg n have f: "singular f" "fld_kind f = EnumKind" "\<not> fld_optional f"
      by (auto simp: encodes_def assignable_def)
    then have "\<exists>w. v = GEnum w" using ty enum_typed by (fastforce simp: field_typed_def singular_def simp del: has_kind.simps)
    with f KindEnumAsText kp ok v show ?thesis by (auto simp: defs getter_def kept_def enum_kept_def)
  qed (use kind enc in \<open>simp_all add: encodes_def\<close>)
qed

lemma column_back:
  assumes "json_law env cp" "encodes f c" "key_legal f" "assignable f c" "\<not> model_skips c"
    "field_typed f (MsgField m (fld_name f))" "kept env cp f c (MsgField m (fld_name f))"
    "there env (Some m) f c = Ok src"
  shows "\<exists>v'. back_again env f c src = Ok v' \<and> same_value v' (settled env f c (MsgField m (fld_name f)))"
proof (cases "Nullable c")
  case True
  then have "settled env f c v = v" for v :: "'a go_value" by (simp add: settled_def)
  with column_back_nullable [OF assms(1-3) True refl assms(6-8)] show ?thesis by simp
next
  case False
  moreover from this assms(5) have "Kind c \<noteq> KindTimestamp" by (simp add: model_skips_def)
  ultimately show ?thesis using column_back_plain [OF assms(1-3) _ _ assms(4) refl assms(6-8)] by simp
qed

end
