(* ===== verification/Mapper_Message.thy ===== *)
theory Mapper_Message
  imports Mapper_Keep
begin

text \<open>
  Whole messages: the loops over the columns and the oneofs, and the row between them. The lemma
  \<open>mapped_message\<close> puts the columns of \<open>Mapper_Keep\<close> and the oneofs together.
\<close>

section \<open>Rows and messages\<close>

text \<open>What the loop over the columns leaves in the row for a column, from the row it started with.\<close>

definition filled ::
  "'g mapper_env \<Rightarrow> proto_field list \<Rightarrow> 'g go_message option \<Rightarrow> 'g row \<Rightarrow> 'g row \<Rightarrow> column_plan \<Rightarrow> bool" where
  "filled env fs p m0 row c \<longleftrightarrow>
     (if model_skips c then row (JetFieldName c) = m0 (JetFieldName c)
      else \<exists>f st. field_named fs (ProtoFieldName c) = Some f \<and> model_assign env p f c = Ok st
        \<and> row (JetFieldName c) = (case st of None \<Rightarrow> m0 (JetFieldName c) | Some x \<Rightarrow> Some x))"

lemma filled_store: "JetFieldName d \<noteq> JetFieldName c \<Longrightarrow> filled env fs p (store m0 c st) row d = filled env fs p m0 row d"
  by (simp add: filled_def store_def split: option.splits)

lemma model_columns_row:
  assumes "model_columns env fs p cs m0 = Ok row" "distinct (map JetFieldName cs)"
  shows "(\<forall>n. n \<notin> JetFieldName ` set cs \<longrightarrow> row n = m0 n)
    \<and> (\<forall>c \<in> set cs. filled env fs p m0 row c)"
  using assms
proof (induction cs arbitrary: m0)
  case (Cons c cs)
  show ?case
  proof (cases "model_skips c")
    case True
    moreover from this Cons.prems have "model_columns env fs p cs m0 = Ok row" by simp
    moreover note Cons.IH [OF this]
    moreover have "filled env fs p m0 row c"
      using True Cons.prems Cons.IH [of m0] by (simp add: filled_def)
    ultimately show ?thesis using Cons.prems(2) by simp
  next
    case False
    with Cons.prems obtain f st where f: "field_named fs (ProtoFieldName c) = Some f"
      "model_assign env p f c = Ok st" "model_columns env fs p cs (store m0 c st) = Ok row"
      by (auto simp: go_simps split: option.splits)
    have "row (JetFieldName c) = store m0 c st (JetFieldName c)" using Cons.IH [OF f(3)] Cons.prems(2) by simp
    moreover have fresh: "\<forall>d \<in> set cs. JetFieldName d \<noteq> JetFieldName c"
      using Cons.prems(2) by (auto simp: image_iff)
    ultimately have "filled env fs p m0 row c" using f False by (simp add: filled_def store_def split: option.splits)
    moreover have "filled env fs p m0 row d" if "d \<in> set cs" for d
      using Cons.IH [OF f(3)] Cons.prems(2) filled_store [OF bspec [OF fresh that], of env fs p m0 st row] that by simp
    moreover have "row n = m0 n" if "n \<notin> JetFieldName ` set (c # cs)" for n
      using that Cons.IH [OF f(3)] Cons.prems(2) by (simp add: store_def split: option.splits)
    ultimately show ?thesis by simp
  qed
qed simp

lemma oneof_cells:
  assumes "writeOneofModelAssign env p oc vs m = Ok m'"
  obtains k j where "m' = m(JetKindField oc \<mapsto> k, JetJSONField oc \<mapsto> j)"
  using assms by (auto simp: writeOneofModelAssign_def go_simps split: option.splits if_splits)

definition oneof_names :: "(oneof_column_plan \<times> oneof_variant list) list \<Rightarrow> string list" where
  "oneof_names ocs = concat (map (\<lambda>(oc, vs). [JetKindField oc, JetJSONField oc]) ocs)"

lemma model_oneofs_row:
  assumes "model_oneofs env p ocs m = Ok row" "distinct (oneof_names ocs)"
  shows "(\<forall>n. n \<notin> set (oneof_names ocs) \<longrightarrow> row n = m n)
    \<and> (\<forall>(oc, vs) \<in> set ocs. \<exists>m1 m2. writeOneofModelAssign env p oc vs m1 = Ok m2
         \<and> row (JetKindField oc) = m2 (JetKindField oc) \<and> row (JetJSONField oc) = m2 (JetJSONField oc))"
  using assms
proof (induction ocs arbitrary: m)
  case (Cons x ocs)
  obtain oc vs where x: "x = (oc, vs)" by fastforce
  with Cons.prems obtain m1 where m1: "writeOneofModelAssign env p oc vs m = Ok m1" "model_oneofs env p ocs m1 = Ok row"
    by (auto simp: go_simps)
  from m1(1) obtain k j where kj: "m1 = m(JetKindField oc \<mapsto> k, JetJSONField oc \<mapsto> j)" by (rule oneof_cells)
  have d: "distinct (oneof_names ocs)" "JetKindField oc \<notin> set (oneof_names ocs)" "JetJSONField oc \<notin> set (oneof_names ocs)"
    "JetKindField oc \<noteq> JetJSONField oc"
    using Cons.prems(2) by (auto simp: x oneof_names_def)
  from Cons.IH [OF m1(2) d(1)] have ih: "\<forall>n. n \<notin> set (oneof_names ocs) \<longrightarrow> row n = m1 n"
    "\<forall>(oc, vs) \<in> set ocs. \<exists>m1 m2. writeOneofModelAssign env p oc vs m1 = Ok m2
         \<and> row (JetKindField oc) = m2 (JetKindField oc) \<and> row (JetJSONField oc) = m2 (JetJSONField oc)" by auto
  have "row n = m n" if "n \<notin> set (oneof_names (x # ocs))" for n
    using that ih(1) kj by (simp add: x oneof_names_def)
  with ih m1(1) d(2,3) show ?case by (auto simp: x)
qed (simp add: oneof_names_def)

definition set_field :: "'g go_message \<Rightarrow> string \<Rightarrow> 'g go_value option \<Rightarrow> 'g go_message" where
  "set_field out n v = (case v of None \<Rightarrow> out | Some x \<Rightarrow> out\<lparr>MsgField := (MsgField out)(n := x)\<rparr>)"

definition assigned :: "'g go_message \<Rightarrow> 'g go_message \<Rightarrow> column_plan \<Rightarrow> 'g go_value option \<Rightarrow> bool" where
  "assigned out out' c v \<longleftrightarrow>
     MsgField out' (ProtoFieldName c) = (case v of None \<Rightarrow> MsgField out (ProtoFieldName c) | Some x \<Rightarrow> x)"

lemma set_field_simps [simp]:
  "MsgOneof (set_field out n v) = MsgOneof out" "k \<noteq> n \<Longrightarrow> MsgField (set_field out n v) k = MsgField out k"
  "ProtoFieldName d \<noteq> n \<Longrightarrow> assigned (set_field out n v) out' d w = assigned out out' d w"
  "MsgField (set_field out n v) n = (case v of None \<Rightarrow> MsgField out n | Some x \<Rightarrow> x)"
  by (simp_all add: set_field_def assigned_def split: option.splits)

text \<open>The columns the reading loop visits.\<close>

definition read_columns :: "column_plan list \<Rightarrow> column_plan list" where
  "read_columns cs = filter (\<lambda>c. \<not> Synthesized c) cs"

lemma read_columns_simps [simp]:
  "read_columns [] = []" "Synthesized c \<Longrightarrow> read_columns (c # cs) = read_columns cs"
  "\<not> Synthesized c \<Longrightarrow> read_columns (c # cs) = c # read_columns cs"
  by (simp_all add: read_columns_def)

lemma proto_columns_fields:
  assumes "\<forall>c \<in> set (read_columns cs). \<exists>f. field_named fs (ProtoFieldName c) = Some f \<and> fld_name f = ProtoFieldName c
      \<and> writeProtoAssignFromModel env f c (cell row (JetFieldName c) (JetGoType c)) = Ok (b c)"
    and "distinct (map ProtoFieldName (read_columns cs))"
  shows "\<exists>out'. proto_columns env fs row cs out = Ok out' \<and> MsgOneof out' = MsgOneof out
    \<and> (\<forall>c \<in> set (read_columns cs). assigned out out' c (b c))
    \<and> (\<forall>n. n \<notin> ProtoFieldName ` set (read_columns cs) \<longrightarrow> MsgField out' n = MsgField out n)"
  using assms
proof (induction cs arbitrary: out)
  case (Cons c cs)
  show ?case
  proof (cases "Synthesized c")
    case True
    with Cons.prems Cons.IH [of out] show ?thesis by simp
  next
    case False
    let ?out = "set_field out (ProtoFieldName c) (b c)"
    from False Cons.prems(1) obtain f where f: "field_named fs (ProtoFieldName c) = Some f" "fld_name f = ProtoFieldName c"
      "writeProtoAssignFromModel env f c (cell row (JetFieldName c) (JetGoType c)) = Ok (b c)" by auto
    from Cons.prems False Cons.IH [of ?out] obtain out' where out': "proto_columns env fs row cs ?out = Ok out'"
      "MsgOneof out' = MsgOneof out" "\<forall>c \<in> set (read_columns cs). assigned ?out out' c (b c)"
      "\<forall>n. n \<notin> ProtoFieldName ` set (read_columns cs) \<longrightarrow> MsgField out' n = MsgField ?out n" by auto
    have fresh: "ProtoFieldName c \<notin> ProtoFieldName ` set (read_columns cs)" using Cons.prems(2) False by simp
    have step: "proto_columns env fs row (c # cs) out = Ok out'"
      using f False out'(1) by (cases "b c") (simp_all add: set_field_def)
    have "assigned out out' c (b c)" using out'(4) fresh by (simp add: assigned_def)
    moreover have "assigned out out' d (b d)" if "d \<in> set (read_columns cs)" for d
      using bspec [OF out'(3) that] fresh that by (metis imageI set_field_simps(3))
    moreover have "MsgField out' n = MsgField out n" if "n \<notin> ProtoFieldName ` set (read_columns (c # cs))" for n
      using that out'(4) False by simp
    ultimately show ?thesis using step out'(2) False by auto
  qed
qed simp

section \<open>A oneof there and back\<close>

text \<open>The values of a oneof that come back, and what tells its variants apart.\<close>

definition variant_kept :: "'g mapper_env \<Rightarrow> (string \<Rightarrow> string) \<Rightarrow> proto_field \<Rightarrow> 'g go_value \<Rightarrow> bool" where
  "variant_kept env cp f v \<longleftrightarrow> has_kind (fld_kind f) v
     \<and> (fld_kind f = MessageKind \<longrightarrow> message_kept env cp (fld_message f) v)
     \<and> (fld_kind f = EnumKind \<longrightarrow> enum_kept (fld_enum_values f) v)"

definition oneof_kept ::
  "'g mapper_env \<Rightarrow> (string \<Rightarrow> string) \<Rightarrow> 'g go_message \<Rightarrow> oneof_column_plan \<Rightarrow> oneof_variant list \<Rightarrow> bool" where
  "oneof_kept env cp m oc vs \<longleftrightarrow>
     (\<forall>vr v. vr \<in> set vs \<longrightarrow> MsgOneof m (BaseName oc) = Some (fld_name (VariantField vr), v) \<longrightarrow>
        variant_kept env cp (VariantField vr) v)"

definition variants_apart :: "oneof_variant list \<Rightarrow> bool" where
  "variants_apart vs \<longleftrightarrow> distinct (map VariantName vs) \<and> [] \<notin> set (map VariantName vs)"

lemma variant_back:
  assumes law: "json_law env cp" and kp: "variant_kept env cp f v" and ok: "variant_json env f v = Ok t"
  shows "\<exists>s. t = GStr s \<and> variant_value env f s = Ok v"
proof (cases "fld_kind f \<in> {MessageKind, EnumKind}")
  case True
  then consider "fld_kind f = MessageKind" | "fld_kind f = EnumKind" by auto
  then show ?thesis
  proof cases
    case 1
    with ok obtain w where w: "proto_raw env v = Ok w" "t = GStr (text_of w)" by (auto simp: variant_json_def go_simps)
    with message_back [OF _ w(1)] kp 1 show ?thesis by (auto simp: variant_kept_def variant_value_def)
  next
    case 2
    with kp have e: "enum_kept (fld_enum_values f) v" by (simp add: variant_kept_def)
    let ?name = "GStr (enum_String (fld_enum_values f) v) :: 'a go_value"
    have "of_go_type ''string'' ?name" using enum_valid [OF e] by simp
    moreover have "json_text env ?name = Ok t" using ok 2 by (simp add: variant_json_def)
    ultimately obtain s v' where s: "t = GStr s" "s \<noteq> []" "parsed_json env ''string'' s = Ok v'"
      "same_value v' (compacted cp ?name)" by (rule json_lawD [OF law])
    then have "v' = ?name" by (cases v') auto
    with s 2 enum_back [OF e] show ?thesis by (auto simp: variant_value_def)
  qed
next
  case False
  with kp have k: "has_kind (fld_kind f) v" "scalar_kind (fld_kind f)"
    by (auto simp: variant_kept_def scalar_kind_def intro: ccontr)
  have "protoKindGoType (fld_kind f) = goMapScalarValueType (fld_kind f)" by (cases "fld_kind f") auto
  with scalar_typed [OF k] have ty: "of_go_type (protoKindGoType (fld_kind f)) v" "compacted cp v = v" by simp_all
  have "json_text env v = Ok t" using ok False by (auto simp: variant_json_def split: proto_kind.splits)
  from json_lawD [OF law ty(1) this] ty(2) obtain s v' where s: "t = GStr s" "s \<noteq> []"
    "parsed_json env (protoKindGoType (fld_kind f)) s = Ok v'" "same_value v' v" by metis
  have "v' = v" using s(4) k by (cases v'; cases v; cases "fld_kind f") auto
  with s False show ?thesis by (auto simp: variant_value_def split: proto_kind.splits)
qed

lemma find_variant:
  assumes "vr \<in> set vs" "distinct (map VariantName vs)"
  shows "find (\<lambda>x. VariantName x = VariantName vr) vs = Some vr"
  using assms by (induction vs) (auto simp: image_iff)

lemma oneof_back:
  assumes law: "json_law env cp" and kp: "oneof_kept env cp m oc vs" and ap: "variants_apart vs"
    and differ: "JetKindField oc \<noteq> JetJSONField oc"
    and ok: "writeOneofModelAssign env (Some m) oc vs r0 = Ok r1"
    and same: "row (JetKindField oc) = r1 (JetKindField oc)" "row (JetJSONField oc) = r1 (JetJSONField oc)"
  shows "writeOneofProtoAssign env oc vs row = Ok (MsgOneof m (BaseName oc))"
proof (cases "MsgOneof m (BaseName oc)")
  case None
  have "find (\<lambda>vr. VariantName vr = []) vs = None" using ap by (auto simp: find_None_iff variants_apart_def image_iff)
  with None ok same differ show ?thesis
    by (auto simp: writeOneofModelAssign_def writeOneofProtoAssign_def cell_def split: if_splits)
next
  case (Some nv)
  obtain n v where nv: "nv = (n, v)" by fastforce
  from ok Some nv obtain vr t where vr: "find (\<lambda>vr. fld_name (VariantField vr) = n) vs = Some vr"
    "variant_json env (VariantField vr) v = Ok t"
    "r1 = r0(JetKindField oc \<mapsto> GStr (VariantName vr), JetJSONField oc \<mapsto> t)"
    by (auto simp: writeOneofModelAssign_def go_simps split: option.splits)
  then have in_vs: "vr \<in> set vs" "fld_name (VariantField vr) = n" by (auto simp: find_Some_iff in_set_conv_nth)
  with kp Some nv have "variant_kept env cp (VariantField vr) v" by (auto simp: oneof_kept_def)
  from variant_back [OF law this vr(2)] obtain s where "t = GStr s" "variant_value env (VariantField vr) s = Ok v" by auto
  with vr(3) same differ find_variant [OF in_vs(1)] ap Some nv in_vs(2) show ?thesis
    by (auto simp: writeOneofProtoAssign_def cell_def variants_apart_def)
qed

section \<open>A message there and back\<close>

lemma zero_cell_text: "text_of (zero_cell t) = []"
  by (simp add: zero_cell_def)

lemma zero_cell_read:
  assumes "encodes f c"
  shows "\<exists>b. writeProtoAssignFromModel env f c (zero_cell (JetGoType c)) = Ok b"
proof (cases "Nullable c")
  case True
  with assms zero_cell_pointer have "zero_cell (JetGoType c) = (GNil :: 'a go_value)" by (auto simp: encodes_def)
  with True show ?thesis
    by (auto simp: writeProtoAssignFromModel_def writeNullableProtoAssign_def writeWrapperProtoAssign_def)
next
  case False
  then show ?thesis
    by (cases "Kind c") (auto simp: writeProtoAssignFromModel_def zero_cell_text)
qed

text \<open>What the two functions rely on of a plan beside its columns being those of the fields.\<close>

definition mappable :: "proto_field list \<Rightarrow> column_plan list \<Rightarrow> (oneof_column_plan \<times> oneof_variant list) list \<Rightarrow> bool" where
  "mappable fs cs ocs \<longleftrightarrow>
     distinct (map fld_name fs)
     \<and> distinct (map JetFieldName cs @ oneof_names ocs)
     \<and> distinct (map ProtoFieldName (read_columns cs))
     \<and> distinct (map (\<lambda>oc. BaseName (fst oc)) ocs)
     \<and> (\<forall>oc \<in> set ocs. variants_apart (snd oc))
     \<and> (\<forall>f \<in> set fs. key_legal f)"

definition message_typed ::
  "'g mapper_env \<Rightarrow> (string \<Rightarrow> string) \<Rightarrow> proto_field list \<Rightarrow> column_plan list
     \<Rightarrow> (oneof_column_plan \<times> oneof_variant list) list \<Rightarrow> 'g go_message \<Rightarrow> bool" where
  "message_typed env cp fs cs ocs m \<longleftrightarrow>
     (\<forall>f \<in> set fs. \<forall>c \<in> set cs. resolveColumn f = Ok (Some c) \<and> \<not> model_skips c \<longrightarrow>
        assignable f c \<and> field_typed f (MsgField m (fld_name f)) \<and> kept env cp f c (MsgField m (fld_name f)))
     \<and> (\<forall>oc \<in> set ocs. oneof_kept env cp m (fst oc) (snd oc))"

text \<open>The message that comes back.\<close>

definition message_settled ::
  "'g mapper_env \<Rightarrow> proto_field list \<Rightarrow> column_plan list \<Rightarrow> (oneof_column_plan \<times> oneof_variant list) list
     \<Rightarrow> 'g go_message \<Rightarrow> 'g go_message \<Rightarrow> bool" where
  "message_settled env fs cs ocs m out \<longleftrightarrow>
     (\<forall>f \<in> set fs. \<forall>c \<in> set cs. resolveColumn f = Ok (Some c) \<and> \<not> model_skips c \<longrightarrow>
        same_value (MsgField out (fld_name f)) (settled env f c (MsgField m (fld_name f))))
     \<and> (\<forall>oc \<in> set ocs. MsgOneof out (BaseName (fst oc)) = MsgOneof m (BaseName (fst oc)))"

lemma field_named_iff:
  "distinct (map fld_name fs) \<Longrightarrow> field_named fs n = Some f \<longleftrightarrow> f \<in> set fs \<and> fld_name f = n"
  by (induction fs) (auto simp: field_named_def image_iff)

lemma proto_oneofs_back:
  assumes "\<forall>oc \<in> set ocs. writeOneofProtoAssign env (fst oc) (snd oc) row = Ok (MsgOneof m (BaseName (fst oc)))"
    and "distinct (map (\<lambda>oc. BaseName (fst oc)) ocs)" "\<forall>oc \<in> set ocs. MsgOneof out (BaseName (fst oc)) = None"
  shows "\<exists>out'. proto_oneofs env row ocs out = Ok out' \<and> MsgField out' = MsgField out
    \<and> (\<forall>oc \<in> set ocs. MsgOneof out' (BaseName (fst oc)) = MsgOneof m (BaseName (fst oc)))
    \<and> (\<forall>n. n \<notin> set (map (\<lambda>oc. BaseName (fst oc)) ocs) \<longrightarrow> MsgOneof out' n = MsgOneof out n)"
  using assms
proof (induction ocs arbitrary: out)
  case (Cons x ocs)
  obtain oc vs where x: "x = (oc, vs)" by fastforce
  let ?n = "BaseName oc"
  define out1 where "out1 = (case MsgOneof m ?n of None \<Rightarrow> out | Some v \<Rightarrow> out\<lparr>MsgOneof := (MsgOneof out)(?n := Some v)\<rparr>)"
  have o1: "MsgField out1 = MsgField out" "MsgOneof out1 ?n = MsgOneof m ?n"
    "k \<noteq> ?n \<Longrightarrow> MsgOneof out1 k = MsgOneof out k" for k
    using Cons.prems(3) by (simp_all add: out1_def x split: option.splits)
  have step: "proto_oneofs env row (x # ocs) out = proto_oneofs env row ocs out1"
    using Cons.prems(1) by (simp add: x out1_def)
  have none: "\<forall>oc \<in> set ocs. MsgOneof out1 (BaseName (fst oc)) = None"
  proof
    fix y assume y: "y \<in> set ocs"
    then have "BaseName (fst y) \<in> (\<lambda>oc. BaseName (fst oc)) ` set ocs" by simp
    moreover have "?n \<notin> (\<lambda>oc. BaseName (fst oc)) ` set ocs" using Cons.prems(2) by (simp add: x)
    ultimately have "BaseName (fst y) \<noteq> ?n" by metis
    with o1(3) Cons.prems(3) y show "MsgOneof out1 (BaseName (fst y)) = None" by simp
  qed
  from Cons.IH [OF _ _ none] Cons.prems(1,2) obtain out' where out': "proto_oneofs env row ocs out1 = Ok out'"
    "MsgField out' = MsgField out1" "\<forall>oc \<in> set ocs. MsgOneof out' (BaseName (fst oc)) = MsgOneof m (BaseName (fst oc))"
    "\<forall>n. n \<notin> set (map (\<lambda>oc. BaseName (fst oc)) ocs) \<longrightarrow> MsgOneof out' n = MsgOneof out1 n" by auto
  have "MsgOneof out' ?n = MsgOneof m ?n" using out'(4) o1(2) Cons.prems(2) by (simp add: x)
  with out' o1 step show ?case by (intro exI [of _ out']) (auto simp: x)
qed simp

text \<open>The value a column's part of the row is converted to, and why it comes back.\<close>

lemma column_settled:
  assumes law: "json_law env cp" and res: "resolveColumn f = Ok (Some c)" and key: "key_legal f"
    and fill: "filled env fs (Some m) Map.empty row c" and named: "field_named fs (ProtoFieldName c) = Some f"
    and ty: "\<not> model_skips c \<longrightarrow> assignable f c \<and> field_typed f (MsgField m (fld_name f))
      \<and> kept env cp f c (MsgField m (fld_name f))"
  shows "\<exists>b. writeProtoAssignFromModel env f c (cell row (JetFieldName c) (JetGoType c)) = Ok b
    \<and> (\<not> model_skips c \<longrightarrow> same_value (case b of Some x \<Rightarrow> x | None \<Rightarrow> zero_field f)
         (settled env f c (MsgField m (fld_name f))))"
proof (cases "model_skips c")
  case True
  with fill have "cell row (JetFieldName c) (JetGoType c) = zero_cell (JetGoType c)"
    by (simp add: filled_def cell_def)
  with True zero_cell_read resolved_encodes [OF res] show ?thesis by (metis)
next
  case False
  with fill named obtain st where st: "model_assign env (Some m) f c = Ok st" "row (JetFieldName c) = st"
    by (auto simp: filled_def split: option.splits)
  then have "there env (Some m) f c = Ok (cell row (JetFieldName c) (JetGoType c))"
    by (simp add: there_def cell_def split: option.splits)
  from column_back [OF law _ key _ False _ _ this] resolved_encodes [OF res] ty False obtain v' where
    "back_again env f c (cell row (JetFieldName c) (JetGoType c)) = Ok v'"
    "same_value v' (settled env f c (MsgField m (fld_name f)))" by auto
  then show ?thesis by (auto simp: back_again_def go_simps)
qed

lemma mapped_message:
  assumes law: "json_law env cp" and map: "mappable fs cs ocs"
    and res: "\<forall>c \<in> set (read_columns cs). \<exists>f \<in> set fs. resolveColumn f = Ok (Some c)"
    and ty: "message_typed env cp fs cs ocs m"
    and ok: "writeModelFromProto env fs cs ocs (Some m) = Ok row"
  shows "\<exists>out. writeProtoFromModel env fs cs ocs (Some row) = Ok (Some out) \<and> message_settled env fs cs ocs m out"
proof -
  obtain r0 where r0: "model_columns env fs (Some m) cs Map.empty = Ok r0" "model_oneofs env (Some m) ocs r0 = Ok row"
    using ok by (auto simp: writeModelFromProto_def go_simps)
  have d: "distinct (map fld_name fs)" "distinct (map JetFieldName cs)" "distinct (oneof_names ocs)"
    "set (map JetFieldName cs) \<inter> set (oneof_names ocs) = {}" "distinct (map ProtoFieldName (read_columns cs))"
    "distinct (map (\<lambda>oc. BaseName (fst oc)) ocs)" "\<forall>oc \<in> set ocs. variants_apart (snd oc)" "\<forall>f \<in> set fs. key_legal f"
    using map by (auto simp: mappable_def)
  have names: "ProtoFieldName c = fld_name f" if "resolveColumn f = Ok (Some c)" for f c
    using resolved_encodes [OF that] by (simp add: encodes_def)
  note mo = model_oneofs_row [OF r0(2) d(3)]
  have fill: "filled env fs (Some m) Map.empty row c" if c: "c \<in> set cs" for c
  proof -
    have "JetFieldName c \<notin> set (oneof_names ocs)" using c d(4) by auto
    with mo have "row (JetFieldName c) = r0 (JetFieldName c)" by blast
    then have "filled env fs (Some m) Map.empty row c = filled env fs (Some m) Map.empty r0 c" by (simp add: filled_def)
    with model_columns_row [OF r0(1) d(2)] c show ?thesis by blast
  qed
  define g where "g c = (SOME f. f \<in> set fs \<and> resolveColumn f = Ok (Some c))" for c
  have g: "g c \<in> set fs \<and> resolveColumn (g c) = Ok (Some c)" if "c \<in> set (read_columns cs)" for c
    unfolding g_def by (rule someI_ex) (use res that in blast)
  then have named: "field_named fs (ProtoFieldName c) = Some (g c) \<and> fld_name (g c) = ProtoFieldName c"
    if "c \<in> set (read_columns cs)" for c
    using names [OF conjunct2 [OF g [OF that]]] g [OF that] by (simp add: field_named_iff [OF d(1)])
  have in_cs: "c \<in> set (read_columns cs) \<Longrightarrow> c \<in> set cs" for c by (simp add: read_columns_def)
  have "\<exists>b. writeProtoAssignFromModel env (g c) c (cell row (JetFieldName c) (JetGoType c)) = Ok b
    \<and> (\<not> model_skips c \<longrightarrow> same_value (case b of Some x \<Rightarrow> x | None \<Rightarrow> zero_field (g c))
         (settled env (g c) c (MsgField m (fld_name (g c)))))" if c: "c \<in> set (read_columns cs)" for c
    by (rule column_settled [OF law conjunct2 [OF g [OF c]] _ fill [OF in_cs [OF c]]])
      (use g [OF c] named [OF c] d(8) ty in_cs [OF c] in \<open>auto simp: message_typed_def\<close>)
  then obtain b where b: "\<forall>c \<in> set (read_columns cs).
      writeProtoAssignFromModel env (g c) c (cell row (JetFieldName c) (JetGoType c)) = Ok (b c)
      \<and> (\<not> model_skips c \<longrightarrow> same_value (case b c of Some x \<Rightarrow> x | None \<Rightarrow> zero_field (g c))
           (settled env (g c) c (MsgField m (fld_name (g c)))))" by metis
  have "\<exists>out'. proto_columns env fs row cs (empty_message fs) = Ok out' \<and> MsgOneof out' = MsgOneof (empty_message fs)
    \<and> (\<forall>c \<in> set (read_columns cs). assigned (empty_message fs) out' c (b c))
    \<and> (\<forall>n. n \<notin> ProtoFieldName ` set (read_columns cs) \<longrightarrow> MsgField out' n = MsgField (empty_message fs) n)"
    by (rule proto_columns_fields [OF _ d(5)]) (use b named in blast)
  then obtain out where out: "proto_columns env fs row cs (empty_message fs) = Ok out"
    "MsgOneof out = MsgOneof (empty_message fs)" "\<forall>c \<in> set (read_columns cs). assigned (empty_message fs) out c (b c)"
    by blast
  have again: "writeOneofProtoAssign env (fst oc) (snd oc) row = Ok (MsgOneof m (BaseName (fst oc)))" if oc: "oc \<in> set ocs" for oc
  proof -
    obtain m1 m2 where "writeOneofModelAssign env (Some m) (fst oc) (snd oc) m1 = Ok m2"
      "row (JetKindField (fst oc)) = m2 (JetKindField (fst oc))" "row (JetJSONField (fst oc)) = m2 (JetJSONField (fst oc))"
      using mo oc by fastforce
    moreover have "JetKindField (fst oc) \<noteq> JetJSONField (fst oc)"
      using d(3) oc by (induction ocs) (auto simp: oneof_names_def)
    moreover have "oneof_kept env cp m (fst oc) (snd oc)" using ty oc by (simp add: message_typed_def)
    ultimately show ?thesis using oneof_back [OF law] d(7) oc by blast
  qed
  from proto_oneofs_back [of ocs env row m out] again d(6) out(2) obtain out' where
    out': "proto_oneofs env row ocs out = Ok out'" "MsgField out' = MsgField out"
    "\<forall>oc \<in> set ocs. MsgOneof out' (BaseName (fst oc)) = MsgOneof m (BaseName (fst oc))"
    by (auto simp: empty_message_def)
  have "same_value (MsgField out' (fld_name f)) (settled env f c (MsgField m (fld_name f)))"
    if f: "f \<in> set fs" "c \<in> set cs" "resolveColumn f = Ok (Some c)" "\<not> model_skips c" for f c
  proof -
    have rc: "c \<in> set (read_columns cs)" using f resolved_encodes [OF f(3)] by (simp add: read_columns_def)
    have "field_named fs (ProtoFieldName c) = Some f" using f names by (simp add: field_named_iff [OF d(1)])
    with named [OF rc] have gf: "g c = f" by simp
    have "MsgField (empty_message fs) (ProtoFieldName c) = zero_field f"
      using named [OF rc] gf by (simp add: empty_message_def)
    then have "MsgField out' (fld_name f) = (case b c of Some x \<Rightarrow> x | None \<Rightarrow> zero_field f)"
      using bspec [OF out(3) rc] out'(2) names [OF f(3)] by (simp add: assigned_def split: option.splits)
    with bspec [OF b rc, unfolded gf] f(4) show ?thesis by simp
  qed
  with out(1) out' show ?thesis by (auto simp: writeProtoFromModel_def message_settled_def)
qed

end
