(* ===== verification/Mapper_Sound.thy ===== *)
theory Mapper_Sound
  imports Mapper_Message
begin

text \<open>
  The properties of the generated mapper: a message survives its way through a row, when a conversion
  fails, and what is lost outside these bounds.
\<close>

section \<open>A message through a row\<close>

lemma resolved_read_columns:
  assumes "resolveResource modulePath msg = Ok (Some p)"
  shows "\<forall>c \<in> set (read_columns (Columns p)). \<exists>f \<in> set (msg_fields msg). resolveColumn f = Ok (Some c)"
  using resolved_column [OF assms] by (auto simp: read_columns_def)


text \<open>A message with every sort of column, and packages that know the values it holds.\<close>

definition id_field :: proto_field where
  "id_field = plain_field ''id'' StringKind (no_column_option\<lparr>col_orderable := True, col_check := ''id <> '' @ quoted []\<rparr>)"

definition count_field :: proto_field where
  "count_field = (plain_field ''count'' (IntegerKind Uint32) (no_column_option\<lparr>col_nullable := True\<rparr>))\<lparr>fld_optional := True\<rparr>"

definition tags_field :: proto_field where
  "tags_field = (plain_field ''tags'' StringKind no_column_option)\<lparr>fld_is_list := True\<rparr>"

definition flags_field :: proto_field where
  "flags_field = (plain_field ''flags'' MessageKind no_column_option)
     \<lparr>fld_is_map := True, fld_map_key := IntegerKind Int32, fld_map_value := BoolKind\<rparr>"

definition trip_fields :: "proto_field list" where
  "trip_fields = [id_field, state_field, count_field, tags_field, flags_field]"

definition trip_message :: proto_message where
  "trip_message = sample_message\<lparr>msg_fields := trip_fields\<rparr>"

definition trip_plan :: resource_plan where
  "trip_plan = (case resolveResource ''example.com/lib'' trip_message of Ok (Some p) \<Rightarrow> p | _ \<Rightarrow> empty_plan)"

definition text_variant :: oneof_variant where
  "text_variant = \<lparr>VariantName = ''text'', VariantField = plain_field ''text'' StringKind no_column_option\<rparr>"

definition spec_variant :: oneof_variant where
  "spec_variant = \<lparr>VariantName = ''spec'', VariantField = plain_field ''spec'' MessageKind no_column_option\<rparr>"

definition trip_oneofs :: "(oneof_column_plan \<times> oneof_variant list) list" where
  "trip_oneofs = map (\<lambda>oc. (oc, [text_variant, spec_variant])) (OneofColumns trip_plan)"

definition trip_note :: "string go_message" where
  "trip_note =
     \<lparr>MsgField = (\<lambda>n. if n = ''id'' then GStr ''r1'' else if n = ''runState'' then GEnum 1
         else if n = ''count'' then GPtr (GUint32 4294967295) else if n = ''tags'' then GList []
         else if n = ''flags'' then GMap [(GInt32 7, GBool True)] else GNil),
      MsgOneof = (\<lambda>n. if n = ''body_part'' then Some (''text'', GStr ''hi'') else None)\<rparr>"

definition trip_env :: "string mapper_env" where
  "trip_env = \<lparr>AsTime = (\<lambda>g. 0), NewTimestamp = (\<lambda>t. []), AsDuration = (\<lambda>g. 0), NewDuration = (\<lambda>d. []),
     GetValue = (\<lambda>g. GStr g), WrapperNew = (\<lambda>n v. text_of v), EmptyMessage = (\<lambda>n. []),
     ProtoMarshal = (\<lambda>g. None), ProtoUnmarshal = (\<lambda>n s. None),
     JsonMarshal = (\<lambda>v. if v = GMap [(GStr ''7'', GBool True)] then Some ''flags''
        else if v = GStr ''hi'' then Some ''hi'' else None),
     JsonUnmarshal = (\<lambda>t s. if s = ''{}'' then Some (GMap []) else if s = ''flags'' then Some (GMap [(GStr ''7'', GBool True)])
        else Some (GStr s))\<rparr>"

lemma trip_plan_resolved: "resolveResource ''example.com/lib'' trip_message = Ok (Some trip_plan)"
proof -
  have "case resolveResource ''example.com/lib'' trip_message of Ok (Some p) \<Rightarrow> True | _ \<Rightarrow> False"
    by code_simp
  then show ?thesis by (auto simp: trip_plan_def split: outcome.splits option.splits)
qed

lemma trip_json_law: "json_law trip_env id"
  by (auto simp: json_law_def trip_env_def split: if_splits)

definition trip_column :: "proto_field \<Rightarrow> column_plan" where
  "trip_column f = (case resolveColumn f of Ok (Some c) \<Rightarrow> c | _ \<Rightarrow> empty_column)"

lemma trip_fields_evaluated:
  "map (\<lambda>f. (fld_name f, fld_kind f, fld_is_list f, fld_is_map f, fld_map_key f, fld_map_value f, fld_optional f)) trip_fields =
     [(''id'', StringKind, False, False, NoKind, NoKind, False), (''runState'', EnumKind, False, False, NoKind, NoKind, False),
      (''count'', IntegerKind Uint32, False, False, NoKind, NoKind, True), (''tags'', StringKind, True, False, NoKind, NoKind, False),
      (''flags'', MessageKind, False, True, IntegerKind Int32, BoolKind, False)]"
  "fld_enum_values state_field = [(''IDLE'', 0), (''BUSY'', 1)]"
  by code_simp+

lemma trip_columns_evaluated:
  "map (\<lambda>f. (Kind (trip_column f), Nullable (trip_column f), WrapperCtor (trip_column f))) trip_fields =
     [(KindScalar, False, []), (KindEnumAsText, False, []), (KindScalar, True, []), (KindRepeated RText, True, []),
      (KindJSONB JMapScalar, True, [])]"
  by code_simp

lemma trip_mappable: "mappable trip_fields (Columns trip_plan) trip_oneofs"
  by code_simp

lemma trip_row:
  "case writeModelFromProto trip_env trip_fields (Columns trip_plan) trip_oneofs (Some trip_note) of
     Ok row \<Rightarrow> True | _ \<Rightarrow> False"
  by code_simp

definition trip_ok :: "proto_field \<Rightarrow> bool" where
  "trip_ok f \<longleftrightarrow> assignable f (trip_column f) \<and> field_typed f (MsgField trip_note (fld_name f))
     \<and> kept trip_env id f (trip_column f) (MsgField trip_note (fld_name f))"

lemma trip_values:
  "MsgField trip_note ''id'' = GStr ''r1''" "MsgField trip_note ''runState'' = GEnum 1"
  "MsgField trip_note ''count'' = GPtr (GUint32 4294967295)" "MsgField trip_note ''tags'' = GList []"
  "MsgField trip_note ''flags'' = GMap [(GInt32 7, GBool True)]"
  by (simp_all add: trip_note_def)

lemma trip_fields_ok: "trip_ok id_field" "trip_ok state_field" "trip_ok count_field" "trip_ok tags_field" "trip_ok flags_field"
proof -
  note e = trip_columns_evaluated [unfolded trip_fields_def, simplified] trip_fields_evaluated [unfolded trip_fields_def, simplified]
  have utf: "valid_utf8 ''r1''" "valid_utf8 ''BUSY''" by code_simp+
  have en: "enum_kept [(''IDLE'', 0), (''BUSY'', 1)] (GEnum 1 :: string go_value)"
    using utf by (simp add: enum_kept_def enum_String_def enum_number_def)
  show "trip_ok id_field" by (simp add: trip_ok_def e assignable_def field_typed_def kept_def trip_values utf)
  show "trip_ok state_field" by (simp add: trip_ok_def e assignable_def field_typed_def kept_def trip_values en)
  show "trip_ok count_field" by (simp add: trip_ok_def e assignable_def field_typed_def kept_def trip_values)
  show "trip_ok tags_field" by (simp add: trip_ok_def e assignable_def field_typed_def kept_def trip_values)
  show "trip_ok flags_field" by (simp add: trip_ok_def e assignable_def field_typed_def kept_def trip_values)
qed

lemma trip_typed: "message_typed trip_env id trip_fields cs trip_oneofs trip_note"
proof -
  have each: "trip_ok f" if "f \<in> set trip_fields" for f
    using that trip_fields_ok by (auto simp: trip_fields_def)
  have names: "fld_name (VariantField text_variant) = ''text''" "fld_kind (VariantField text_variant) = StringKind"
    "fld_name (VariantField spec_variant) = ''spec''"
    by (simp_all add: text_variant_def spec_variant_def plain_field_def)
  have "valid_utf8 ''hi''" by code_simp
  then have "oneof_kept trip_env id trip_note (fst oc) (snd oc)" if "oc \<in> set trip_oneofs" for oc
    using that by (auto simp: oneof_kept_def trip_oneofs_def trip_note_def variant_kept_def names)
  moreover have "resolveColumn f = Ok (Some c) \<Longrightarrow> trip_column f = c" for f c by (simp add: trip_column_def)
  ultimately show ?thesis
    using each unfolding message_typed_def trip_ok_def by blast
qed


section \<open>When a conversion fails\<close>

lemma json_text_errors: "json_text env v \<noteq> Panic \<and> (json_text env v = Err e \<longrightarrow> e = MarshalFailed)"
  by (auto simp: json_text_def split: option.splits)

lemma proto_raw_errors: "proto_raw env v \<noteq> Panic \<and> (proto_raw env v = Err e \<longrightarrow> e = MarshalFailed)"
  by (auto simp: proto_raw_def split: option.splits)

text \<open>An outcome that is a result or a failed marshalling.\<close>

definition marshals :: "(mapper_error, 'a) outcome \<Rightarrow> bool" where
  "marshals x \<longleftrightarrow> x \<noteq> Panic \<and> (\<forall>e. x = Err e \<longrightarrow> e = MarshalFailed)"

lemma marshals_simps [simp]: "marshals (Ok x)" "marshals (Err e) \<longleftrightarrow> e = MarshalFailed" "\<not> marshals Panic"
  by (simp_all add: marshals_def)

lemma marshals_and_then: "marshals x \<Longrightarrow> (\<And>y. x = Ok y \<Longrightarrow> marshals (k y)) \<Longrightarrow> marshals (and_then x k)"
  by (cases x) auto

lemma marshals_map_out: "(\<And>x. x \<in> set xs \<Longrightarrow> marshals (k x)) \<Longrightarrow> marshals (map_out k xs)"
  by (induction xs) (auto intro!: marshals_and_then)

lemma marshals_parts: "marshals (json_text env v)" "marshals (proto_raw env v)"
  by (auto simp: json_text_def proto_raw_def split: option.splits)

lemma marshals_rekeyed: "(\<And>v. marshals (conv v)) \<Longrightarrow> marshals (rekeyed k conv src)"
  by (auto simp: rekeyed_def intro!: marshals_and_then marshals_map_out)

lemma marshals_jsonb: "marshals (jsonb_text env j f c v)"
  by (cases j) (auto simp: jsonb_text_def intro!: marshals_and_then marshals_map_out marshals_parts marshals_rekeyed)

lemma marshals_column: "marshals (model_assign env (Some m) f c)"
  by (auto simp: model_assign_def writeNullableModelAssign_def writeModelAssignFromProto_def writeWrapperModelAssign_def
      present_def field_ref_def Let_def intro!: marshals_and_then marshals_jsonb split: column_kind.splits)

lemma model_columns_outcome:
  assumes "\<forall>c \<in> set cs. \<not> model_skips c \<longrightarrow> field_named fs (ProtoFieldName c) \<noteq> None"
  shows "marshals (model_columns env fs (Some m) cs r)"
  using assms by (induction cs arbitrary: r) (auto intro!: marshals_and_then marshals_column)

definition oneof_error_of :: "'g go_message \<Rightarrow> oneof_column_plan \<Rightarrow> oneof_variant list \<Rightarrow> mapper_error option" where
  "oneof_error_of m oc vs =
     (case MsgOneof m (BaseName oc) of
        None \<Rightarrow> if Optional oc then None else Some (BaseRequired (BaseName oc))
      | Some (n, v) \<Rightarrow>
          if n \<in> (\<lambda>vr. fld_name (VariantField vr)) ` set vs then None else Some (UnknownVariant (BaseName oc)))"

lemma oneof_outcome:
  "case oneof_error_of m oc vs of
     None \<Rightarrow> marshals (writeOneofModelAssign env (Some m) oc vs r)
   | Some e \<Rightarrow> writeOneofModelAssign env (Some m) oc vs r = Err e"
proof -
  have v: "marshals (variant_json env f v)" for f v
    by (auto simp: variant_json_def intro!: marshals_and_then marshals_parts split: proto_kind.splits)
  show ?thesis
    by (auto simp: oneof_error_of_def writeOneofModelAssign_def find_None_iff find_Some_iff image_iff
        intro!: marshals_and_then v split: option.splits)
qed

lemma model_oneofs_outcome:
  "model_oneofs env (Some m) ocs r \<noteq> Panic
   \<and> (\<forall>e. model_oneofs env (Some m) ocs r = Err e \<longrightarrow>
        e = MarshalFailed \<or> (\<exists>oc \<in> set ocs. oneof_error_of m (fst oc) (snd oc) = Some e))
   \<and> ((\<exists>oc \<in> set ocs. oneof_error_of m (fst oc) (snd oc) \<noteq> None) \<longrightarrow> \<not> is_ok (model_oneofs env (Some m) ocs r))"
proof (induction ocs arbitrary: r)
  case (Cons x ocs)
  obtain oc vs where x: "x = (oc, vs)" by fastforce
  show ?case
  proof (cases "oneof_error_of m oc vs")
    case (Some e)
    with oneof_outcome [of env m oc vs r] show ?thesis by (simp add: x)
  next
    case None
    with oneof_outcome [of env m oc vs r] have v: "marshals (writeOneofModelAssign env (Some m) oc vs r)" by simp
    show ?thesis
    proof (cases "writeOneofModelAssign env (Some m) oc vs r")
      case (Ok r')
      with Cons.IH [of r'] None show ?thesis by (auto simp: x)
    qed (use v in \<open>auto simp: x\<close>)
  qed
qed simp

lemma parse_no_panic: "parsed_json env t s \<noteq> Panic" "parsed_proto env t s \<noteq> Panic"
  by (auto simp: parsed_json_def parsed_proto_def split: option.splits)

lemma key_no_panic: "emitStringToKey k s \<noteq> Panic"
  by (cases k) (auto simp: parsed_key_def split: option.splits outcome.splits)

lemma unkeyed_no_panic:
  assumes "\<And>v. conv v \<noteq> Panic"
  shows "unkeyed k conv tmp \<noteq> Panic"
proof -
  have "map_out (\<lambda>(a, v). and_then (emitStringToKey k (text_of a)) (\<lambda>rk. and_then (conv v) (\<lambda>w. Ok (rk, w)))) (entries tmp)
      \<noteq> Panic"
    by (rule map_out_not_Panic) (auto simp: go_simps key_no_panic assms)
  then show ?thesis by (simp add: unkeyed_def go_simps)
qed

lemma parsed_list_no_panic: "map_out (\<lambda>raw. parsed_proto env ty (text_of raw)) xs \<noteq> Panic"
  by (rule map_out_not_Panic) (rule parse_no_panic)

lemma jsonb_value_no_panic: "jsonb_value env j f c s \<noteq> Panic"
  by (cases j) (auto simp: jsonb_value_def go_simps parse_no_panic parsed_list_no_panic unkeyed_no_panic)

lemma proto_assign_no_panic: "writeProtoAssignFromModel env f c v \<noteq> Panic"
  by (auto simp: writeProtoAssignFromModel_def writeNullableProtoAssign_def go_simps jsonb_value_no_panic
      split: column_kind.splits)

lemma proto_columns_no_panic:
  "\<forall>c \<in> set (read_columns cs). field_named fs (ProtoFieldName c) \<noteq> None \<Longrightarrow> proto_columns env fs r cs out \<noteq> Panic"
proof (induction cs arbitrary: out)
  case (Cons c cs)
  then show ?case by (cases "Synthesized c") (auto simp: go_simps proto_assign_no_panic)
qed simp

lemma variant_value_no_panic: "variant_value env f s \<noteq> Panic"
  by (auto simp: variant_value_def go_simps parse_no_panic split: proto_kind.splits)

lemma proto_oneofs_no_panic: "proto_oneofs env r ocs out \<noteq> Panic"
proof (induction ocs arbitrary: out)
  case (Cons x ocs)
  obtain oc vs where x: "x = (oc, vs)" by fastforce
  have "writeOneofProtoAssign env oc vs r \<noteq> Panic"
    by (auto simp: writeOneofProtoAssign_def Let_def go_simps variant_value_no_panic split: option.splits)
  with Cons show ?case by (auto simp: x go_simps)
qed simp



section \<open>What is lost\<close>

text \<open>
  An optional field without \<^verbatim>\<open>nullable\<close> is accepted, its column holds a plain value, and the
  emitted assignment gives the pointer field of the message that value: the mapper does not compile.
\<close>

definition nickname_field :: proto_field where
  "nickname_field = (plain_field ''nickname'' StringKind no_column_option)\<lparr>fld_optional := True\<rparr>"

theorem optional_without_nullable:
  "\<exists>c. resolveColumn nickname_field = Ok (Some c) \<and> \<not> Nullable c \<and> JetGoType c = ''string''
    \<and> writeProtoAssignFromModel env nickname_field c (GStr ''ann'') = Ok (Some (GStr ''ann''))
    \<and> \<not> field_typed nickname_field (GStr ''ann'' :: 'g go_value)"
proof -
  have c: "resolveColumn nickname_field = Ok (Some (trip_column nickname_field)) \<and> \<not> Nullable (trip_column nickname_field)
      \<and> JetGoType (trip_column nickname_field) = ''string'' \<and> Kind (trip_column nickname_field) = KindScalar"
    by code_simp
  have f: "fld_kind nickname_field = StringKind" "fld_optional nickname_field" "\<not> fld_is_list nickname_field"
    "\<not> fld_is_map nickname_field"
    by (simp_all add: nickname_field_def plain_field_def)
  with c show ?thesis
    by (intro exI [of _ "trip_column nickname_field"])
      (simp add: writeProtoAssignFromModel_def uint_back_def isUnsignedInt32Kind_def isUnsignedInt64Kind_def field_typed_def)
qed

lemma state_names:
  "enum_String [(''IDLE'', 0), (''BUSY'', 1)] (GEnum 7) = ''7''"
  "enum_String [(''IDLE'', 0), (''BUSY'', 1)] (GEnum 1) = ''BUSY''"
proof -
  have "FormatInt 7 = ''7''" by code_simp
  then show "enum_String [(''IDLE'', 0), (''BUSY'', 1)] (GEnum 7) = ''7''"
    "enum_String [(''IDLE'', 0), (''BUSY'', 1)] (GEnum 1) = ''BUSY''"
    by (simp_all add: enum_String_def)
qed

text \<open>
  A number the enum does not declare, which proto3 admits: in a repeated field the element disappears
  on the way back, in a map its value becomes the zero value.
\<close>

theorem unknown_enum_lost:
  assumes "fld_enum_values f = [(''IDLE'', 0), (''BUSY'', 1)]"
  shows "repeated_proto_value env REnum f (repeated_model_assign env REnum f (GList [GEnum 7, GEnum 1])) = GList [GEnum 1]
    \<and> enum_or_zero (fld_enum_values f) (enum_String (fld_enum_values f) (GEnum 7)) = GEnum 0"
  by (simp add: assms state_names enum_number_def enum_or_zero_def)

theorem unknown_enum_lost_witness:
  "repeated_proto_value trip_env REnum state_field (repeated_model_assign trip_env REnum state_field (GList [GEnum 7, GEnum 1])) = GList [GEnum 1]"
  using unknown_enum_lost [OF trip_fields_evaluated(2)] by blast

end
