(* ===== verification/Migration.thy ===== *)
theory Migration
  imports Drift Cursor_Codec
begin

text \<open>
  The two commands as a whole: \<^verbatim>\<open>runCheck\<close> of \<^verbatim>\<open>check.go\<close> and
  \<^verbatim>\<open>runDiff\<close> of \<^verbatim>\<open>migration_scaffold.go\<close> with the text of the scaffolded
  migration. Flags come parsed, and the files under the roots as the list discovery walks. The
  PostgreSQL containers are a parameter: how one starts, executes a script, applies the migrations,
  and what its catalog holds for a table.
\<close>

section \<open>Parameters\<close>

record command_args =
  ArgRoots :: "string list"
  ArgMigrations :: string
  ArgTenantRole :: string
  ArgResources :: "string list"

record 'db postgres =
  NewPG :: "'db option"
  ConnectPG :: "'db \<Rightarrow> bool"
  PingPG :: "'db \<Rightarrow> bool"
  ExecSQL :: "'db \<Rightarrow> string \<Rightarrow> 'db option"
  MigrateUp :: "'db \<Rightarrow> string \<Rightarrow> 'db option"
  CatalogOf :: "'db \<Rightarrow> string \<Rightarrow> catalog"

datatype pg_side = DdlSide | MigrationsSide

datatype command_error =
    RootsRequired | MigrationsRequired | DiscoverFailed discover_error
  | NoTablesMatched "string list" "string list" | NoTablesFound "string list"
  | InvalidTenantRole pg_side string | StartFailed pg_side | ConnectFailed pg_side
  | RoleFailed pg_side | PingFailed pg_side | ScanFailed string | ReadFailed string
  | SortFailed "string list" | ExecFailed string | MigrateFailed string
  | SnapshotFailed pg_side string "string \<times> int" | Drifted "(string \<times> table_drift) list"

section \<open>Both commands\<close>

definition managed_tables ::
  "file_content list \<Rightarrow> command_args \<Rightarrow> (command_error, plugin_managed list) outcome" where
  "managed_tables files args =
     (if ArgRoots args = [] then Err RootsRequired
      else if ArgMigrations args = [] then Err MigrationsRequired
      else and_then (map_err DiscoverFailed (discoverPluginTables files (ArgResources args))) (\<lambda>tables.
        if tables = []
        then Err (if ArgResources args \<noteq> [] then NoTablesMatched (ArgResources args) (ArgRoots args)
                  else NoTablesFound (ArgRoots args))
        else Ok tables))"

definition role_script :: "string \<Rightarrow> string" where
  "role_script role = concat (map (\<lambda>l. nl @ [CHR 0x09, CHR 0x09] @ l)
     [''DO $$ BEGIN'',
      CHR 0x09 # ''IF NOT EXISTS (SELECT FROM pg_roles WHERE rolname = '' @ [CHR 0x27] @ role @ [CHR 0x27] @ '') THEN'',
      CHR 0x09 # CHR 0x09 # ''CREATE ROLE '' @ [CHR 0x22] @ role @ [CHR 0x22] @ '' LOGIN PASSWORD ''
        @ [CHR 0x27] @ role @ [CHR 0x27] @ '';'',
      CHR 0x09 # ''END IF;'',
      ''END $$;'',
      ''GRANT CONNECT ON DATABASE postgres TO '' @ [CHR 0x22] @ role @ [CHR 0x22] @ '';'',
      ''GRANT USAGE ON SCHEMA public TO '' @ [CHR 0x22] @ role @ [CHR 0x22] @ '';''])
     @ nl @ [CHR 0x09]"

definition bootstrapCheckPG ::
  "'db postgres \<Rightarrow> pg_side \<Rightarrow> string \<Rightarrow> (command_error, 'db) outcome" where
  "bootstrapCheckPG pg side tenantRole =
     (if \<not> tenantRolePattern tenantRole then Err (InvalidTenantRole side tenantRole)
      else case NewPG pg of
        None \<Rightarrow> Err (StartFailed side)
      | Some db \<Rightarrow>
          if \<not> ConnectPG pg db then Err (ConnectFailed side)
          else case ExecSQL pg db (role_script tenantRole) of
            None \<Rightarrow> Err (RoleFailed side)
          | Some db' \<Rightarrow> if PingPG pg db' then Ok db' else Err (PingFailed side))"

definition read_ddl :: "file_content list \<Rightarrow> plugin_managed \<Rightarrow> (command_error, file_content) outcome" where
  "read_ddl files t =
     (case find (\<lambda>f. FilePath f = DDLPath t) files of
        None \<Rightarrow> Err (ReadFailed (DDLPath t))
      | Some f \<Rightarrow> Ok f)"

definition ordered_ddl ::
  "file_content list \<Rightarrow> plugin_managed list \<Rightarrow> (command_error, file_content list) outcome" where
  "ordered_ddl files tables =
     and_then (map_out (read_ddl files) tables) (\<lambda>fs. map_err SortFailed (topoSortDDL fs))"

fun exec_all :: "'db postgres \<Rightarrow> 'db \<Rightarrow> file_content list \<Rightarrow> (command_error, 'db) outcome" where
  "exec_all pg db [] = Ok db"
| "exec_all pg db (f # fs) =
     (case ExecSQL pg db (Content f) of
        None \<Rightarrow> Err (ExecFailed (FilePath f))
      | Some db' \<Rightarrow> exec_all pg db' fs)"

definition applyDDLFiles ::
  "'db postgres \<Rightarrow> file_content list \<Rightarrow> 'db \<Rightarrow> plugin_managed list \<Rightarrow> (command_error, 'db) outcome" where
  "applyDDLFiles pg files db tables = and_then (ordered_ddl files tables) (exec_all pg db)"

definition applyMigrations :: "'db postgres \<Rightarrow> 'db \<Rightarrow> string \<Rightarrow> (command_error, 'db) outcome" where
  "applyMigrations pg db dir = (case MigrateUp pg db dir of None \<Rightarrow> Err (MigrateFailed dir) | Some db' \<Rightarrow> Ok db')"

text \<open>
  Two goroutines with a database of their own each; \<^verbatim>\<open>errgroup\<close> returns the error of the
  one that fails first, which is \<open>first\<close> when both fail.
\<close>

fun both :: "pg_side \<Rightarrow> ('e, 'a) outcome \<Rightarrow> ('e, 'b) outcome \<Rightarrow> ('e, 'a \<times> 'b) outcome" where
  "both first (Ok a) (Ok b) = Ok (a, b)"
| "both first (Err e) (Ok b) = Err e"
| "both first (Ok a) (Err e) = Err e"
| "both first (Err d) (Err e) = Err (if first = DdlSide then d else e)"
| "both first x y = Panic"

definition two_databases ::
  "'db postgres \<Rightarrow> pg_side \<Rightarrow> file_content list \<Rightarrow> command_args \<Rightarrow> plugin_managed list
     \<Rightarrow> (command_error, 'db \<times> 'db) outcome" where
  "two_databases pg first files args tables =
     both first
       (and_then (bootstrapCheckPG pg DdlSide (ArgTenantRole args)) (\<lambda>db. applyDDLFiles pg files db tables))
       (and_then (bootstrapCheckPG pg MigrationsSide (ArgTenantRole args)) (\<lambda>db. applyMigrations pg db (ArgMigrations args)))"

definition table_sides ::
  "'db postgres \<Rightarrow> 'db \<Rightarrow> 'db \<Rightarrow> plugin_managed
     \<Rightarrow> (command_error, plugin_managed \<times> table_snapshot \<times> table_snapshot) outcome" where
  "table_sides pg ddl migrations t =
     and_then (map_err (SnapshotFailed DdlSide (ManagedTable t)) (snapshotTable (CatalogOf pg ddl (ManagedTable t)))) (\<lambda>expected.
     and_then (map_err (SnapshotFailed MigrationsSide (ManagedTable t))
                 (snapshotTable (CatalogOf pg migrations (ManagedTable t)))) (\<lambda>actual.
     Ok (t, expected, actual)))"

section \<open>The check command\<close>

text \<open>The result is the number of tables it prints; the error carries the failures it prints.\<close>

definition runCheck ::
  "'db postgres \<Rightarrow> pg_side \<Rightarrow> file_content list \<Rightarrow> command_args \<Rightarrow> (command_error, nat) outcome" where
  "runCheck pg first files args =
     and_then (managed_tables files args) (\<lambda>tables.
     and_then (two_databases pg first files args tables) (\<lambda>(ddl, migrations).
     and_then (map_out (table_sides pg ddl migrations) tables) (\<lambda>sides.
     let failures = check_failures sides in
     if failures \<noteq> [] then Err (Drifted failures) else Ok (length tables))))"

text \<open>
  What the command prints: on standard error the failures, \<open>diff\<close> being \<^verbatim>\<open>cmp.Diff\<close>, or one line
  on standard output. \<^verbatim>\<open>filepath.Base\<close> of a path.
\<close>

definition path_base :: "string \<Rightarrow> string" where
  "path_base p =
     (if p = [] then ''.''
      else let q = rev (dropWhile (\<lambda>c. c = CHR ''/'') (rev p)) in
        if q = [] then ''/'' else last (split_on CHR ''/'' q))"

definition failure_text ::
  "(table_snapshot \<Rightarrow> table_snapshot \<Rightarrow> string) \<Rightarrow> plugin_managed \<times> table_snapshot \<times> table_snapshot \<Rightarrow> string option" where
  "failure_text diff side =
     (case side of (t, expected, actual) \<Rightarrow>
        map_option (\<lambda>d. case d of
            MissingOnMigrationsSide \<Rightarrow> ManagedTable t @ '': missing on migrations side '' @ em_dash
              @ '' add CREATE TABLE (copy from TARGET in the scaffolded .up.sql, or from '' @ path_base (DDLPath t) @ '')''
          | SchemaDiffers \<Rightarrow> ManagedTable t @ '':'' @ nl @ indent (diff expected actual) ''    '')
          (check_table expected actual))"

definition drift_report :: "string \<Rightarrow> string list \<Rightarrow> string" where
  "drift_report dir failures = concat (map line
     ([''drift detected '' @ em_dash @ '' migrations do not produce the schema ddl.sql declares'',
       ''  (- lines: expected / what ddl.sql says; + lines: actual / what migrations produced)'', []]
      @ failures
      @ [[], ''Fix: `protoc-gen-go-jet diff` scaffolds an LLM'',
         ''brief under '' @ dir @ '' with the structural DELTA and the concatenated'',
         ''TARGET ddl.sql. Author forward-only ALTER/CREATE/DROP beneath the'',
         ''TODO(llm) marker, then re-run this check. Patterns:'', ''.claude/skills/protoc-gen-go-jet/SKILL.md.'']))"

definition check_printed ::
  "(table_snapshot \<Rightarrow> table_snapshot \<Rightarrow> string) \<Rightarrow> string
     \<Rightarrow> (plugin_managed \<times> table_snapshot \<times> table_snapshot) list \<Rightarrow> string \<times> string" where
  "check_printed diff dir sides =
     (let failures = List.map_filter (failure_text diff) sides in
      if failures \<noteq> [] then ([], drift_report dir failures)
      else (line (''ok '' @ em_dash @ '' '' @ FormatInt (int (length sides))
              @ '' plugin-managed table(s) match between ddl.sql and migrations''), []))"

lemma failures_printed:
  "length (List.map_filter (failure_text diff) sides) = length (check_failures sides)"
proof -
  have "failure_text diff x = None \<longleftrightarrow>
      (case x of (t, expected, actual) \<Rightarrow> map_option (Pair (ManagedTable t)) (check_table expected actual)) = None" for x
    by (auto simp: failure_text_def split: prod.splits)
  then show ?thesis
    unfolding check_failures_def List.map_filter_def by (induction sides) auto
qed

lemma silent_error: "snd (check_printed diff dir sides) = [] \<longleftrightarrow> check_failures sides = []"
  using failures_printed [of diff sides]
  by (auto simp: check_printed_def drift_report_def line_def Let_def)

section \<open>The diff command\<close>

text \<open>\<^verbatim>\<open>fmt.Println\<close> of a line is \<open>line\<close>.\<close>

definition migrationPreamble :: string where
  "migrationPreamble = join nl
     [''-- Forward-only migration scaffolded by `protoc-gen-go-jet diff`.'',
      ''-- Initial migrations are a 1:1 copy of the generated ddl.sql files.'',
      ''-- Subsequent migrations are authored beneath an LLM brief (see'',
      ''-- `.claude/skills/protoc-gen-go-jet/SKILL.md`). `protoc-gen-go-jet check`'',
      ''-- re-runs the full migration chain and fails if it diverges from'',
      ''-- ddl.sql, so the LLM-authored SQL is always machine-verified.'']"

definition from_line :: "string \<Rightarrow> string" where
  "from_line path = line (''-- from '' @ path_base path)"

fun initial_blocks :: "bool \<Rightarrow> file_content list \<Rightarrow> string" where
  "initial_blocks later [] = []"
| "initial_blocks later (f # fs) =
     (if later then line [] else []) @ from_line (FilePath f) @ stripDDLHeader (Content f) @ initial_blocks True fs"

definition emitInitialFromDDL ::
  "file_content list \<Rightarrow> plugin_managed list \<Rightarrow> (command_error, string) outcome" where
  "emitInitialFromDDL files tables =
     and_then (ordered_ddl files tables) (\<lambda>ordered.
     Ok (line migrationPreamble @ line [] @ initial_blocks False ordered))"

definition rename_text :: "rename_directive \<Rightarrow> string" where
  "rename_text d = line (''--   '' @ RenTable d @ ''.'' @ RenFrom d @ '' -> '' @ RenTo d)"

definition target_text :: "file_content list \<Rightarrow> string" where
  "target_text fs = concat (map (\<lambda>f.
     let content = stripDDLHeader (Content f) in
     from_line (FilePath f) @ content @ (if suffix nl content then [] else nl)) fs)"

definition rule_line :: string where
  "rule_line = ''-- ======================================================================''"

definition brief_text :: "rename_directive list \<Rightarrow> string list \<Rightarrow> string \<Rightarrow> string" where
  "brief_text directives delta target =
     concat (map line
       [migrationPreamble, [], rule_line,
        ''-- LLM BRIEF '' @ em_dash @ '' author the migration body below, then run `protoc-gen-go-jet check`'',
        rule_line, ''--'', ''-- See .claude/skills/protoc-gen-go-jet/SKILL.md for authoring patterns'',
        ''-- (rename_from, column drops, NOT VALID CHECK idiom, CONCURRENTLY + no-tx,'',
        ''--  RLS policy changes, etc.).'', ''--''])
     @ (if directives \<noteq> []
        then line ''-- Active PLUGIN-RENAME directives (author as ALTER ... RENAME COLUMN):''
             @ concat (map rename_text directives) @ line ''--''
        else [])
     @ line ''-- ------------------- DELTA (what needs to change) ---------------------''
     @ (if delta = []
        then line (''-- (no structural delta '' @ em_dash @ '' likely a comment-only or no-op change)'')
        else concat (map (\<lambda>d. line (''-- '' @ d)) delta))
     @ line ''--'' @ line ''-- ------------------- TARGET (canonical ddl.sql) -----------------------''
     @ commentBlock target
     @ concat (map line
       [rule_line, [], ''-- TODO(llm): author the forward-only ALTER / CREATE / DROP below that'',
        ''-- closes the DELTA. protoc-gen-go-jet check will fail until the migration chain'',
        ''-- produces the same shape as ddl.sql.''])"

definition brief_delta :: "(plugin_managed \<times> table_snapshot \<times> table_snapshot) list \<Rightarrow> string list" where
  "brief_delta sides = concat (map (\<lambda>(t, target, current). table_delta (ManagedTable t) current target) sides)"

definition emitLLMBrief ::
  "'db postgres \<Rightarrow> pg_side \<Rightarrow> file_content list \<Rightarrow> command_args \<Rightarrow> plugin_managed list
     \<Rightarrow> (command_error, string list \<times> string) outcome" where
  "emitLLMBrief pg first files args tables =
     and_then (two_databases pg first files args tables) (\<lambda>(ddl, migrations).
     and_then (map_out (table_sides pg ddl migrations) tables) (\<lambda>sides.
     and_then (map_out (read_ddl files) tables) (\<lambda>fs.
     let delta = brief_delta sides in
     Ok (delta, brief_text (discoverRenameDirectives fs) delta (target_text fs)))))"

text \<open>
  The migrations directory comes as its entries, which are none when it does not exist; \<open>None\<close> stands for
  a directory that cannot be read for another reason.
\<close>

definition runDiff ::
  "'db postgres \<Rightarrow> pg_side \<Rightarrow> file_content list \<Rightarrow> (string \<times> bool \<times> nat) list option \<Rightarrow> command_args
     \<Rightarrow> (command_error, string) outcome" where
  "runDiff pg first files entries args =
     and_then (managed_tables files args) (\<lambda>tables.
     case entries of
       None \<Rightarrow> Err (ScanFailed (ArgMigrations args))
     | Some es \<Rightarrow>
         if \<not> hasNonEmptyMigrations es then emitInitialFromDDL files tables
         else and_then (emitLLMBrief pg first files args tables) (\<lambda>(delta, text). Ok text))"

section \<open>The executable lines of a script\<close>

definition idle_line :: "string \<Rightarrow> bool" where
  "idle_line l \<longleftrightarrow> trim_space l = [] \<or> prefix ''--'' (trim_space l)"

definition sql_lines :: "string \<Rightarrow> string list" where
  "sql_lines s = filter (\<lambda>l. \<not> idle_line l) (split_on CHR 0x0A s)"

lemma sql_lines_line: "sql_lines (line s @ t) = sql_lines s @ sql_lines t"
  using split_on_two [of "CHR 0x0A" s t] by (simp add: sql_lines_def line_def)

lemma sql_lines_concat: "concat (map (\<lambda>x. sql_lines (g x)) xs) = [] \<Longrightarrow> sql_lines (concat (map (\<lambda>x. line (g x)) xs) @ t) = sql_lines t"
  by (induction xs) (auto simp: sql_lines_line)

lemma idle_comment: "prefix ''--'' l \<Longrightarrow> idle_line l"
  using trim_space_comment [of l] by (simp add: idle_line_def)

lemma idle_nil: "idle_line []"
  by (simp add: idle_line_def)

lemma sql_lines_one: "one_line l \<Longrightarrow> idle_line l \<Longrightarrow> sql_lines l = []"
  using split_on_join [of "[l]" "CHR 0x0A"] by (simp add: sql_lines_def)

lemma sql_lines_comment: "one_line l \<Longrightarrow> prefix ''--'' l \<Longrightarrow> sql_lines l = []"
  by (rule sql_lines_one [OF _ idle_comment])

lemma sql_lines_Nil [simp]: "sql_lines [] = []"
  by (simp add: sql_lines_def idle_nil)

lemma preamble_idle: "sql_lines migrationPreamble = []"
  by code_simp

lemma lines_of_join: "ls \<noteq> [] \<Longrightarrow> \<forall>l \<in> set ls. one_line l \<Longrightarrow> split_on CHR 0x0A (join nl ls) = ls"
  using split_on_join [of ls "CHR 0x0A"] by simp

lemma split_one_line: "l \<in> set (split_on CHR 0x0A s) \<Longrightarrow> one_line l"
  by (rule split_on_free)

lemma drop_header_suffix: "\<exists>hs. ls = hs @ drop_header ls \<and> (\<forall>h \<in> set hs. idle_line h)"
proof (induction ls)
  case (Cons l ls)
  then obtain hs where "ls = hs @ drop_header ls" "\<forall>h \<in> set hs. idle_line h" by blast
  then have "idle_line l \<Longrightarrow> ?case" by (intro exI [of _ "l # hs"]) (auto simp: idle_line_def Let_def)
  moreover have "\<not> idle_line l \<Longrightarrow> ?case" by (intro exI [of _ "[]"]) (auto simp: idle_line_def Let_def)
  ultimately show ?case by blast
qed simp

lemma join_suffix: "ls \<noteq> [] \<Longrightarrow> join nl (hs @ ls) = concat (map line hs) @ join nl ls"
proof (induction hs)
  case (Cons h hs)
  then show ?case by (cases "hs @ ls") (auto simp: line_def)
qed simp

lemma sql_lines_strip: "sql_lines (stripDDLHeader s) = sql_lines s"
proof -
  obtain hs where hs: "split_on CHR 0x0A s = hs @ drop_header (split_on CHR 0x0A s)" "\<forall>h \<in> set hs. idle_line h"
    using drop_header_suffix by blast
  let ?ls = "drop_header (split_on CHR 0x0A s)"
  have "sql_lines s = filter (\<lambda>l. \<not> idle_line l) ?ls"
    using hs(2) by (subst sql_lines_def, subst hs(1)) simp
  also have "\<dots> = sql_lines (join nl ?ls)"
  proof (cases "?ls = []")
    case False
    have "\<forall>l \<in> set ?ls. one_line l" using split_one_line hs(1) by (metis Un_iff set_append)
    with lines_of_join [OF False] show ?thesis by (simp add: sql_lines_def)
  qed simp
  finally show ?thesis by (simp add: stripDDLHeader_def)
qed

text \<open>A file that creates a table does not vanish with its header.\<close>

lemma header_lines_apart:
  assumes "extractTableName s \<noteq> None"
  shows "\<exists>hs. s = concat (map line hs) @ stripDDLHeader s \<and> (\<forall>h \<in> set hs. one_line h \<and> idle_line h)"
proof -
  let ?ls = "drop_header (split_on CHR 0x0A s)"
  obtain hs where hs: "split_on CHR 0x0A s = hs @ ?ls" "\<forall>h \<in> set hs. idle_line h"
    using drop_header_suffix by blast
  have "find_create hs = None" if "\<forall>h \<in> set hs. idle_line h" for hs
    using that
  proof (induction hs)
    case (Cons h hs)
    then have "\<not> prefix ''CREATE TABLE '' (upper_ascii (trim_space h))"
      by (auto simp: idle_line_def prefix_def upper_ascii_def upper_byte_def)
    with Cons show ?case by (simp add: Let_def)
  qed simp
  with hs assms have "?ls \<noteq> []" unfolding extractTableName_def by (metis append_Nil2)
  then have "s = concat (map line hs) @ join nl ?ls"
    using join_split_on [of "CHR 0x0A" s] hs(1) join_suffix by metis
  moreover have "\<forall>h \<in> set hs. one_line h" using split_one_line hs(1) by (metis Un_iff set_append)
  ultimately show ?thesis using hs(2) by (auto simp: stripDDLHeader_def)
qed

section \<open>Executing the scaffold of a first migration\<close>

text \<open>
  What is relied on about executing scripts: comment lines and blank lines in front of a script have no
  effect, and a script that is complete by itself (no open string, comment or statement at its end)
  may be followed by another one.
\<close>

definition comments_ignored :: "'db postgres \<Rightarrow> bool" where
  "comments_ignored pg \<longleftrightarrow>
     (\<forall>db l s. one_line l \<longrightarrow> idle_line l \<longrightarrow> ExecSQL pg db (line l @ s) = ExecSQL pg db s)"

definition complete_script :: "'db postgres \<Rightarrow> string \<Rightarrow> bool" where
  "complete_script pg s \<longleftrightarrow>
     (\<forall>db t. ExecSQL pg db (s @ nl @ t) = Option.bind (ExecSQL pg db s) (\<lambda>db'. ExecSQL pg db' t))"

lemma exec_idle_lines:
  assumes "comments_ignored pg" "\<forall>h \<in> set hs. one_line h \<and> idle_line h"
  shows "ExecSQL pg db (concat (map line hs) @ s) = ExecSQL pg db s"
  using assms(2)
proof (induction hs)
  case (Cons h hs)
  then have "ExecSQL pg db (line h @ concat (map line hs) @ s) = ExecSQL pg db (concat (map line hs) @ s)"
    using assms(1) unfolding comments_ignored_def by simp
  with Cons show ?case by simp
qed simp

lemma exec_stripped:
  assumes "comments_ignored pg" "extractTableName s \<noteq> None"
  shows "ExecSQL pg db (stripDDLHeader s) = ExecSQL pg db s"
  using header_lines_apart [OF assms(2)] exec_idle_lines [OF assms(1)] by metis

lemma from_line_idle:
  assumes "comments_ignored pg" "one_line p"
  shows "ExecSQL pg db (from_line p @ s) = ExecSQL pg db s"
proof -
  have "one_line (path_base p)"
  proof (cases "dropWhile (\<lambda>c. c = CHR ''/'') (rev p) = []")
    case False
    let ?q = "rev (dropWhile (\<lambda>c. c = CHR ''/'') (rev p))"
    have "last (split_on CHR ''/'' ?q) \<in> set (split_on CHR ''/'' ?q)" by (rule last_in_set) (rule split_on_not_Nil)
    then have "set (last (split_on CHR ''/'' ?q)) \<subseteq> set ?q" by (rule split_on_set)
    moreover have "set ?q \<subseteq> set p" using set_dropWhileD by fastforce
    ultimately show ?thesis using assms(2) False by (auto simp: path_base_def Let_def)
  qed (simp add: path_base_def)
  with assms(1) show ?thesis
    by (simp add: comments_ignored_def from_line_def idle_comment)
qed

lemma exec_blocks:
  assumes "comments_ignored pg" "\<forall>f \<in> set (f # fs). one_line (FilePath f) \<and> extractTableName (Content f) \<noteq> None
      \<and> complete_script pg (stripDDLHeader (Content f))"
  shows "exec_all pg db (f # fs) = Ok db' \<Longrightarrow> ExecSQL pg db (initial_blocks False (f # fs)) = Some db'"
  using assms(2)
proof (induction fs arbitrary: f db)
  case Nil
  then show ?case
    using exec_stripped [OF assms(1)] from_line_idle [OF assms(1)] by (auto split: option.splits)
next
  case (Cons g gs)
  then obtain db1 where db1: "ExecSQL pg db (Content f) = Some db1" "exec_all pg db1 (g # gs) = Ok db'"
    by (auto split: option.splits)
  have "ExecSQL pg db (initial_blocks False (f # g # gs))
      = ExecSQL pg db (stripDDLHeader (Content f) @ nl @ initial_blocks False (g # gs))"
    using from_line_idle [OF assms(1)] Cons.prems(2) by (simp add: line_def)
  also have "\<dots> = Option.bind (ExecSQL pg db (stripDDLHeader (Content f))) (\<lambda>db'. ExecSQL pg db' (initial_blocks False (g # gs)))"
    using Cons.prems(2) unfolding complete_script_def by simp
  also have "\<dots> = ExecSQL pg db1 (initial_blocks False (g # gs))"
    using exec_stripped [OF assms(1)] Cons.prems(2) db1(1) by simp
  also have "\<dots> = Some db'"
    using Cons.IH [OF db1(2)] Cons.prems(2) by simp
  finally show ?case .
qed

lemma preamble_lines:
  "\<exists>hs. line migrationPreamble = concat (map line hs) \<and> (\<forall>h \<in> set hs. one_line h \<and> idle_line h)"
proof -
  have "\<forall>h \<in> set (split_on CHR 0x0A migrationPreamble). idle_line h"
    using preamble_idle by (auto simp: sql_lines_def filter_empty_conv)
  moreover have "line migrationPreamble = concat (map line (split_on CHR 0x0A migrationPreamble))"
    by code_simp
  ultimately show ?thesis using split_one_line by blast
qed

lemma check_failures_same:
  assumes "\<forall>(t, e, a) \<in> set sides. e = a \<and> SnapColumns a \<noteq> []"
  shows "check_failures sides = []"
  using assms by (fastforce simp: check_failures_def map_filter_Nil check_table_def)

lemma map_out_member: "map_out f xs = Ok ys \<Longrightarrow> y \<in> set ys \<Longrightarrow> \<exists>x \<in> set xs. f x = Ok y"
  by (induction xs arbitrary: ys) (auto simp: go_simps)

lemma managed_from_file:
  assumes "managed_tables files args = Ok tables" "t \<in> set tables"
  shows "\<exists>f \<in> set files. managed_of f = Ok t"
proof -
  obtain all where all: "map_out managed_of files = Ok all" "t \<in> set all"
    using assms by (auto simp: managed_tables_def discoverPluginTables_def go_simps select_wanted_Ok Let_def split: if_splits)
  then show ?thesis using map_out_member by fast
qed

text \<open>The paths of the walk are distinct, so that a table's file is read from its own path.\<close>

lemma read_managed:
  assumes "distinct (map FilePath files)" "f \<in> set files" "managed_of f = Ok t"
  shows "read_ddl files t = Ok f \<and> extractTableName (Content f) = Some (ManagedTable t)"
proof -
  have t: "DDLPath t = FilePath f" "extractTableName (Content f) = Some (ManagedTable t)"
    using assms(3) by (auto simp: managed_of_def split: option.splits)
  have "find (\<lambda>g. FilePath g = FilePath f) files = Some f"
    using assms(1,2) by (induction files) (auto simp: image_iff)
  with t show ?thesis by (simp add: read_ddl_def)
qed

lemma ordered_files:
  assumes "ordered_ddl files tables = Ok ordered"
  shows "\<exists>fs. map_out (read_ddl files) tables = Ok fs \<and> mset ordered = mset fs"
proof -
  obtain fs where fs: "map_out (read_ddl files) tables = Ok fs" "topoSortDDL fs = Ok ordered"
    using assms by (auto simp: ordered_ddl_def go_simps)
  with topo_mset [OF fs(2)] show ?thesis by blast
qed


text \<open>
  C12: The two commands agree on a whole run: when the brief can be made, its delta is empty exactly when
  the check passes. The catalog queries return the rows in one order of names.
\<close>

theorem check_passes_iff_delta_empty:
  assumes "managed_tables files args = Ok tables" "emitLLMBrief pg first files args tables = Ok (delta, brief)"
    and "collation lt" "\<forall>db table. catalog_ordered lt (CatalogOf pg db table)"
  shows "delta = [] \<longleftrightarrow> runCheck pg first files args = Ok (length tables)"
proof -
  obtain ddl migrations sides where two: "two_databases pg first files args tables = Ok (ddl, migrations)"
    and sides: "map_out (table_sides pg ddl migrations) tables = Ok sides" and delta: "delta = brief_delta sides"
    using assms(2) by (auto simp: emitLLMBrief_def go_simps Let_def)
  have "table_delta (ManagedTable t) cur tgt = [] \<longleftrightarrow> check_table tgt cur = None" if s: "(t, tgt, cur) \<in> set sides" for t tgt cur
  proof -
    obtain t' where "table_sides pg ddl migrations t' = Ok (t, tgt, cur)" using map_out_member [OF sides s] by blast
    then have "snapshotTable (CatalogOf pg ddl (ManagedTable t)) = Ok tgt"
      "snapshotTable (CatalogOf pg migrations (ManagedTable t)) = Ok cur"
      by (auto simp: table_sides_def go_simps)
    then show ?thesis using table_delta_Nil [OF assms(3)] assms(4) by blast
  qed
  then have "delta = [] \<longleftrightarrow> check_failures sides = []"
    by (fastforce simp: delta brief_delta_def check_failures_def map_filter_Nil)
  then show ?thesis by (auto simp: runCheck_def assms(1) two sides Let_def)
qed

section \<open>The brief holds no SQL\<close>

definition names_one_line :: "catalog \<Rightarrow> bool" where
  "names_one_line cat \<longleftrightarrow>
     (\<forall>n \<in> set (map fst (cat_columns cat) @ map fst (cat_checks cat) @ map fst (cat_indexes cat)
        @ map fst (cat_policies cat) @ map fst (cat_foreign_keys cat)). one_line n)"

lemma sql_lines_lines:
  "\<forall>l \<in> set ls. sql_lines l = [] \<Longrightarrow> sql_lines (concat (map line ls) @ s) = sql_lines s"
  by (induction ls) (auto simp: sql_lines_line)

lemma sql_lines_dash: "one_line d \<Longrightarrow> sql_lines (''-- '' @ d) = []"
  by (rule sql_lines_comment) auto

lemma comment_block_idle: "sql_lines (commentBlock s @ t) = sql_lines t"
proof -
  have "\<forall>l \<in> set (map (\<lambda>l. ''-- '' @ l) (split_on CHR 0x0A s)). sql_lines l = []"
    using sql_lines_dash split_one_line by auto
  then have "sql_lines (concat (map line (map (\<lambda>l. ''-- '' @ l) (split_on CHR 0x0A s))) @ t) = sql_lines t"
    by (rule sql_lines_lines)
  then show ?thesis by (simp add: commentBlock_def comp_def)
qed

lemma cut_parts: "cut p s = Some (a, b) \<Longrightarrow> set a \<subseteq> set s \<and> set b \<subseteq> set s"
  by (induction p s arbitrary: a b rule: cut.induct) (auto split: if_splits dest: set_drop_subset [THEN subsetD])

lemma directive_one_line:
  assumes "parse_rename_line l = Some d" "one_line l"
  shows "one_line (RenTable d) \<and> one_line (RenFrom d) \<and> one_line (RenTo d)"
proof -
  let ?l = "trim_space (trim_prefix ''-- PLUGIN-RENAME:'' (trim_space l))"
  obtain before aft where c: "cut '' -> '' ?l = Some (before, aft)" "str_fields before = [RenTable d, RenFrom d]"
    "RenTo d = trim_space aft"
    using assms(1) by (auto simp: parse_rename_line_def Let_def split: if_splits option.splits prod.splits list.splits)
  have "set ?l \<subseteq> set l"
    using set_trim_space [of "trim_prefix ''-- PLUGIN-RENAME:'' (trim_space l)"] set_trim_space [of l]
    by (auto simp: trim_prefix_def split: if_splits dest: set_drop_subset [THEN subsetD])
  with cut_parts [OF c(1)] assms(2) have "one_line before" "one_line aft" by auto
  with str_fields_set [of _ before] set_trim_space [of aft] c(2,3) show ?thesis by fastforce
qed

lemma diff_line_one_line:
  "diff_line table kind cur tgt n = Some l \<Longrightarrow> one_line table \<Longrightarrow> one_line kind \<Longrightarrow> one_line n \<Longrightarrow> one_line l"
  by (auto simp: diff_line_def Let_def split: option.splits if_splits)

lemma indexBy_keys: "fst ` set (indexBy key xs) = key ` set xs"
proof -
  have "fst ` set (foldl (\<lambda>m it. AList.update (key it) it m) m xs) = fst ` set m \<union> key ` set xs" for m
    by (induction xs arbitrary: m) (auto simp: dom_update)
  then show ?thesis by (simp add: indexBy_def)
qed

lemma map_filter_member: "y \<in> set (List.map_filter f xs) \<Longrightarrow> \<exists>x \<in> set xs. f x = Some y"
  by (auto simp: List.map_filter_def)

lemma diffNamed_member:
  "l \<in> set (diffNamed table kind cur tgt) \<Longrightarrow> \<exists>n \<in> set (map fst cur @ map fst tgt). diff_line table kind cur tgt n = Some l"
  unfolding diffNamed_def by (drule map_filter_member) simp

lemma diff_names:
  assumes "l \<in> set (diffNamed table kind (indexBy key xs) (indexBy key ys))" "one_line table" "one_line kind"
    and "\<forall>x \<in> set xs \<union> set ys. one_line (key x)"
  shows "one_line l"
proof -
  obtain n where n: "n \<in> fst ` set (indexBy key xs) \<union> fst ` set (indexBy key ys)"
    "diff_line table kind (indexBy key xs) (indexBy key ys) n = Some l"
    using diffNamed_member [OF assms(1)] by auto
  then have "one_line n" using assms(4) unfolding indexBy_keys by blast
  with diff_line_one_line [OF n(2) assms(2,3)] show ?thesis .
qed

definition snapshot_one_line :: "table_snapshot \<Rightarrow> bool" where
  "snapshot_one_line s \<longleftrightarrow>
     (\<forall>n \<in> set (map ScName (SnapColumns s) @ map CkName (SnapChecks s) @ map SiName (SnapIndexes s)
        @ map PoName (SnapPolicies s) @ map SfName (SnapForeignKeys s)). one_line n)"

lemma snapshot_names:
  assumes "snapshotTable cat = Ok s" "names_one_line cat"
  shows "snapshot_one_line s"
proof -
  have name: "SfName k = fst x" if "fetch_fk cat x = Ok k" for x k
    using that by (cases x) (auto simp: go_simps)
  have fk: "map SfName fks = map fst xs" if "map_out (fetch_fk cat) xs = Ok fks" for xs fks
    using that
  proof (induction xs arbitrary: fks)
    case (Cons x xs)
    then obtain k ks where k: "fks = k # ks" "fetch_fk cat x = Ok k" "map_out (fetch_fk cat) xs = Ok ks"
      by (auto simp: go_simps)
    with Cons.IH [OF k(3)] name [OF k(2)] show ?case by simp
  qed simp
  have eqs: "ScName (fetch_column x) = fst x" "PoName (fetch_policy z) = fst z" for x z
    by (cases x rule: fetch_column.cases, simp only: fetch_column.simps snap_column.select_convs fst_conv)
      (cases z rule: fetch_policy.cases, simp only: fetch_policy.simps snap_policy.select_convs fst_conv)
  have eqs2: "CkName (fetch_check y) = fst y" "SiName (fetch_index y) = fst y" for y
    by (cases y, simp only: fetch_check.simps snap_check.select_convs fst_conv)
      (cases y, simp only: fetch_index.simps snap_index.select_convs fst_conv)
  show ?thesis
  proof (cases "cat_columns cat = []")
    case True
    with assms(1) show ?thesis by (auto simp: snapshotTable_def empty_snapshot_def snapshot_one_line_def)
  next
    case False
    with assms(1) obtain fks where "map_out (fetch_fk cat) (cat_foreign_keys cat) = Ok fks"
      "SnapForeignKeys s = fks" "SnapColumns s = sort_key ScName (map fetch_column (cat_columns cat))"
      "SnapChecks s = map fetch_check (cat_checks cat)" "SnapIndexes s = map fetch_index (cat_indexes cat)"
      "SnapPolicies s = map fetch_policy (cat_policies cat)"
      by (auto simp: snapshotTable_def Let_def go_simps)
    with fk [of "cat_foreign_keys cat" fks] assms(2) show ?thesis
      by (simp add: snapshot_one_line_def names_one_line_def eqs eqs2 ball_Un)
  qed
qed

lemma delta_one_line:
  assumes "l \<in> set (table_delta table cur tgt)" "one_line table" "snapshot_one_line cur" "snapshot_one_line tgt"
  shows "one_line l"
proof -
  have dash: "one_line em_dash" by code_simp
  have h: "one_line (hazard_line table)" using assms(2) dash by (simp add: hazard_line_def)
  have names: "\<forall>x \<in> set (SnapColumns cur) \<union> set (SnapColumns tgt). one_line (ScName x)"
    "\<forall>x \<in> set (SnapChecks cur) \<union> set (SnapChecks tgt). one_line (CkName x)"
    "\<forall>x \<in> set (SnapIndexes cur) \<union> set (SnapIndexes tgt). one_line (SiName x)"
    "\<forall>x \<in> set (SnapPolicies cur) \<union> set (SnapPolicies tgt). one_line (PoName x)"
    "\<forall>x \<in> set (SnapForeignKeys cur) \<union> set (SnapForeignKeys tgt). one_line (SfName x)"
    using assms(3,4) by (auto simp: snapshot_one_line_def)
  note d = diff_names [OF _ assms(2) _ names(1)] diff_names [OF _ assms(2) _ names(2)] diff_names [OF _ assms(2) _ names(3)]
    diff_names [OF _ assms(2) _ names(4)] diff_names [OF _ assms(2) _ names(5)]
  show ?thesis
  proof (cases "SnapColumns cur = []")
    case True
    with assms(1,2) dash show ?thesis by (simp add: table_delta_def)
  next
    case False
    with assms(1) have "l \<in> set (computeTableDelta table cur tgt)" by (simp add: table_delta_def)
    then show ?thesis
      unfolding computeTableDelta_def set_append Un_iff
    proof (elim disjE)
      assume "l \<in> set (concat (map (\<lambda>line. line # (if prefix ''+ fk '' line then [hazard_line table] else []))
         (diffNamed table ''fk'' (indexBy SfName (SnapForeignKeys cur)) (indexBy SfName (SnapForeignKeys tgt)))))"
      then consider "l \<in> set (diffNamed table ''fk'' (indexBy SfName (SnapForeignKeys cur)) (indexBy SfName (SnapForeignKeys tgt)))"
        | "l = hazard_line table" by (auto split: if_splits)
      then show ?thesis using d(5) h by cases auto
    qed (use assms(2) d in \<open>auto split: if_splits\<close>)
  qed
qed

lemma managed_name_one_line:
  assumes "managed_tables files args = Ok tables" "t \<in> set tables"
  shows "one_line (ManagedTable t)"
proof -
  obtain f where "managed_of f = Ok t" using managed_from_file [OF assms] by blast
  then have "extractTableName (Content f) = Some (ManagedTable t)" by (auto simp: managed_of_def split: option.splits)
  moreover have "find_create ls = Some n \<Longrightarrow> \<forall>l \<in> set ls. one_line l \<Longrightarrow> one_line n" for ls n
  proof (induction ls)
    case (Cons l ls)
    have d: "set (drop 13 s) \<subseteq> set s" "set (trim_suffix q s) \<subseteq> set s" for q s :: string
      by (auto simp: trim_suffix_def dest: in_set_dropD in_set_takeD)
    have "set (trim_space (trim_suffix ''('' (trim_space (drop 13 (trim_space l))))) \<subseteq> set l"
      by (rule subset_trans [OF set_trim_space subset_trans [OF d(2) subset_trans [OF set_trim_space
            subset_trans [OF d(1) set_trim_space]]]])
    with Cons show ?case by (auto simp: Let_def split: if_splits)
  qed simp
  ultimately show ?thesis unfolding extractTableName_def using split_one_line by blast
qed

lemma path_base_one_line: "one_line p \<Longrightarrow> one_line (path_base p)"
proof (cases "dropWhile (\<lambda>c. c = CHR ''/'') (rev p) = []")
  case False
  let ?q = "rev (dropWhile (\<lambda>c. c = CHR ''/'') (rev p))"
  assume p: "one_line p"
  have "last (split_on CHR ''/'' ?q) \<in> set (split_on CHR ''/'' ?q)" by (rule last_in_set) (rule split_on_not_Nil)
  then have "set (last (split_on CHR ''/'' ?q)) \<subseteq> set ?q" by (rule split_on_set)
  moreover have "set ?q \<subseteq> set p" using set_dropWhileD by fastforce
  ultimately show ?thesis using p False by (auto simp: path_base_def Let_def)
qed (simp add: path_base_def)

lemma brief_idle:
  assumes "\<forall>d \<in> set directives. one_line (RenTable d) \<and> one_line (RenFrom d) \<and> one_line (RenTo d)"
    and "\<forall>d \<in> set delta. one_line d"
  shows "sql_lines (brief_text directives delta target) = []"
proof -
  have renames: "sql_lines (concat (map rename_text ds) @ s) = sql_lines s"
    if "\<forall>d \<in> set ds. one_line (RenTable d) \<and> one_line (RenFrom d) \<and> one_line (RenTo d)" for ds s
    using that by (induction ds) (auto simp: rename_text_def sql_lines_line intro!: sql_lines_comment)
  have deltas: "sql_lines (concat (map (\<lambda>d. line (''-- '' @ d)) ds) @ s) = sql_lines s" if "\<forall>d \<in> set ds. one_line d" for ds s
    using that by (induction ds) (use sql_lines_dash in \<open>auto simp: sql_lines_line\<close>)
  have plain: "sql_lines (line l @ s) = sql_lines s" if "one_line l" "prefix ''--'' l \<or> l = []" for l s
    using that sql_lines_comment [of l] by (auto simp: sql_lines_line)
  have dash: "one_line em_dash" by code_simp
  show ?thesis
    unfolding brief_text_def
    by (simp add: plain plain [of _ "[]", simplified] sql_lines_line [of migrationPreamble] preamble_idle dash rule_line_def
        renames [OF assms(1)] deltas [OF assms(2)] comment_block_idle append_assoc del: append_Cons)
qed


text \<open>A database that records the executable lines of what it runs, over two generated files.\<close>

definition recorder :: "string list postgres" where
  "recorder = \<lparr>NewPG = Some [], ConnectPG = (\<lambda>db. True), PingPG = (\<lambda>db. True), ExecSQL = (\<lambda>db s. Some (db @ sql_lines s)),
     MigrateUp = (\<lambda>db dir. Some (db @ [''CREATE TABLE authors ('', '');'', ''CREATE TABLE books ('', ''  FOREIGN KEY (a) REFERENCES authors (id)'', '');''])),
     CatalogOf = (\<lambda>db table. runs_catalog (if db = [] then [] else quoted ''new''))\<rparr>"

definition shelf_files :: "file_content list" where
  "shelf_files =
     [\<lparr>FilePath = ''gen/books_ddl.sql'',
       Content = join nl [''-- Code generated.'', ''CREATE TABLE books ('', ''  FOREIGN KEY (a) REFERENCES authors (id)'', '');'']\<rparr>,
      \<lparr>FilePath = ''gen/authors_ddl.sql'', Content = join nl [''-- Code generated.'', [], ''CREATE TABLE authors ('', '');'', []]\<rparr>]"

definition shelf_args :: command_args where
  "shelf_args = \<lparr>ArgRoots = [''gen''], ArgMigrations = ''migrations'', ArgTenantRole = ''app'', ArgResources = []\<rparr>"

definition shelf_role :: "string list" where
  "shelf_role = sql_lines (role_script ''app'')"

definition shelf_tables :: "plugin_managed list" where
  "shelf_tables = (case managed_tables shelf_files shelf_args of Ok ts \<Rightarrow> ts | _ \<Rightarrow> [])"

lemma shelf_managed: "managed_tables shelf_files shelf_args = Ok shelf_tables"
  by code_simp

lemma shelf_ordered: "ordered_ddl shelf_files shelf_tables = Ok (rev shelf_files)"
  by code_simp

lemma shelf_scaffold:
  "runDiff recorder first shelf_files (Some []) shelf_args
     = Ok (line migrationPreamble @ line [] @ initial_blocks False (rev shelf_files))"
  by (simp add: runDiff_def shelf_managed emitInitialFromDDL_def shelf_ordered hasNonEmptyMigrations_def)

lemma shelf_lines:
  "concat (map (\<lambda>f. sql_lines (Content f)) (rev shelf_files))
     = [''CREATE TABLE authors ('', '');'', ''CREATE TABLE books ('', ''  FOREIGN KEY (a) REFERENCES authors (id)'', '');'']"
  "sql_lines (initial_blocks False (rev shelf_files))
     = [''CREATE TABLE authors ('', '');'', ''CREATE TABLE books ('', ''  FOREIGN KEY (a) REFERENCES authors (id)'', '');'']"
  by code_simp+

lemma recorder_script: "comments_ignored recorder" "complete_script recorder s"
proof -
  have "sql_lines (s @ nl @ t) = sql_lines s @ sql_lines t" for s t
    using sql_lines_line [of s t] by (simp add: line_def)
  then show "complete_script recorder s" by (simp add: complete_script_def recorder_def)
  show "comments_ignored recorder"
    by (simp add: comments_ignored_def recorder_def sql_lines_line sql_lines_one)
qed

lemma recorder_databases:
  "bootstrapCheckPG recorder DdlSide (ArgTenantRole shelf_args) = Ok shelf_role"
  "applyDDLFiles recorder shelf_files shelf_role shelf_tables
     = Ok (shelf_role @ concat (map (\<lambda>f. sql_lines (Content f)) (rev shelf_files)))"
  "applyMigrations recorder shelf_role (ArgMigrations shelf_args)
     = Ok (shelf_role @ concat (map (\<lambda>f. sql_lines (Content f)) (rev shelf_files)))"
proof -
  have "tenantRolePattern ''app''" by code_simp
  then show "bootstrapCheckPG recorder DdlSide (ArgTenantRole shelf_args) = Ok shelf_role"
    by (simp add: bootstrapCheckPG_def recorder_def shelf_args_def shelf_role_def)
  have "exec_all recorder db fs = Ok (db @ concat (map (\<lambda>f. sql_lines (Content f)) fs))" for db fs
    by (induction fs arbitrary: db) (auto simp: recorder_def)
  then show "applyDDLFiles recorder shelf_files shelf_role shelf_tables
     = Ok (shelf_role @ concat (map (\<lambda>f. sql_lines (Content f)) (rev shelf_files)))"
    by (simp add: applyDDLFiles_def shelf_ordered)
  show "applyMigrations recorder shelf_role (ArgMigrations shelf_args)
     = Ok (shelf_role @ concat (map (\<lambda>f. sql_lines (Content f)) (rev shelf_files)))"
    by (simp only: applyMigrations_def shelf_lines) (simp add: recorder_def)
qed

lemma shelf_snapshot: "snapshotTable (runs_catalog (quoted ''new'')) = Ok (snap_of (runs_catalog (quoted ''new'')))"
  "SnapColumns (snap_of (runs_catalog (quoted ''new''))) \<noteq> []"
  by code_simp+


lemma shelf_brief:
  "\<exists>brief. emitLLMBrief recorder DdlSide shelf_files shelf_args shelf_tables = Ok ([], brief)
     \<and> runDiff recorder DdlSide shelf_files (Some [(''1.up.sql'', False, 1)]) shelf_args = Ok brief"
proof -
  let ?snap = "snap_of (runs_catalog (quoted ''new''))"
  have side: "bootstrapCheckPG recorder side (ArgTenantRole shelf_args) = Ok shelf_role" for side
    using recorder_databases(1) by (auto simp: bootstrapCheckPG_def split: if_splits option.splits)
  let ?db = "shelf_role @ concat (map (\<lambda>f. sql_lines (Content f)) (rev shelf_files))"
  have "two_databases recorder DdlSide shelf_files shelf_args shelf_tables = Ok (?db, ?db)"
    by (simp only: two_databases_def side and_then.simps recorder_databases both.simps)
  moreover have "table_sides recorder ?db ?db t = Ok (t, ?snap, ?snap)" for t
    by (simp only: shelf_lines) (simp add: table_sides_def recorder_def shelf_snapshot)
  then have "map_out (table_sides recorder ?db ?db) shelf_tables = Ok (map (\<lambda>t. (t, ?snap, ?snap)) shelf_tables)"
    by (intro map_out_map) auto
  moreover have "brief_delta (map (\<lambda>t. (t, ?snap, ?snap)) shelf_tables) = []" by code_simp
  moreover have "map_out (read_ddl shelf_files) shelf_tables = Ok (rev shelf_files)" by code_simp
  moreover have "hasNonEmptyMigrations [(''1.up.sql'', False, 1)]" by code_simp
  ultimately show ?thesis by (simp add: emitLLMBrief_def runDiff_def shelf_managed Let_def)
qed

theorem check_passes_iff_delta_empty_witness:
  "runCheck recorder DdlSide shelf_files shelf_args = Ok (length shelf_tables)"
proof -
  have "\<forall>db table. catalog_ordered (<) (CatalogOf recorder db table)"
    by (simp add: recorder_def catalog_ordered_def runs_catalog_def named_in_order_def)
  with shelf_brief show ?thesis
    using check_passes_iff_delta_empty [OF shelf_managed _ byte_collation] by blast
qed


end
