(* ===== verification/Timestamp_Array.thy ===== *)
theory Timestamp_Array
  imports Cursor_Codec
begin

text \<open>
  \<^verbatim>\<open>pkg/pgstore/jettypes\<close>: the column type of \<^verbatim>\<open>TIMESTAMPTZ[]\<close>, with as much of Go's
  \<^verbatim>\<open>time.Parse\<close> as its layouts use. A UTC time is its distance from the Unix epoch in
  nanoseconds. The array scanner and printer of \<^verbatim>\<open>lib/pq\<close> are a parameter.
\<close>

section \<open>Layouts of \<^verbatim>\<open>time.Parse\<close>\<close>

type_synonym instant = int

record clock =
  Year :: int
  Month :: int
  Day :: int
  Hour :: int
  Minute :: int
  Second :: int
  Nano :: int
  Offset :: int

datatype layout_item =
    Lit char | LongYear | ZeroMonth | ZeroDay | Hour24 | ZeroMinute | ZeroSecond | Frac9
  | NumShortTZ | NumColonTZ | ISOColonTZ

definition num_char :: "char \<Rightarrow> bool" where
  "num_char c \<longleftrightarrow> 48 \<le> byte c \<and> byte c \<le> 57"

definition num_val :: "char \<Rightarrow> int" where
  "num_val c = byte c - 48"

definition decimal :: "string \<Rightarrow> int" where
  "decimal s = foldl (\<lambda>n c. 10 * n + num_val c) 0 s"

fun getnum :: "bool \<Rightarrow> string \<Rightarrow> (int \<times> string) option" where
  "getnum fixed [] = None"
| "getnum fixed [a] = (if num_char a \<and> \<not> fixed then Some (num_val a, []) else None)"
| "getnum fixed (a # b # s) =
     (if \<not> num_char a then None
      else if \<not> num_char b then (if fixed then None else Some (num_val a, b # s))
      else Some (10 * num_val a + num_val b, s))"

text \<open>A separator; \<^verbatim>\<open>skip\<close> lets a space of the layout stand for any number of spaces, and for the end.\<close>

definition skip_lit :: "char \<Rightarrow> string \<Rightarrow> string option" where
  "skip_lit p value =
     (if p = CHR '' '' then
        (if value \<noteq> [] \<and> hd value \<noteq> CHR '' '' then None else Some (dropWhile (\<lambda>c. c = CHR '' '') value))
      else if value \<noteq> [] \<and> hd value = p then Some (tl value) else None)"

text \<open>\<^verbatim>\<open>parseNanoseconds\<close> of the digits behind the point: at most nine count.\<close>

fun scale_up :: "nat \<Rightarrow> int \<Rightarrow> int" where
  "scale_up 0 n = n"
| "scale_up (Suc k) n = scale_up k (10 * n)"

definition parseNanoseconds :: "string \<Rightarrow> int" where
  "parseNanoseconds ds = (let used = take 9 ds in scale_up (9 - length used) (decimal used))"

fun fraction :: "string \<Rightarrow> clock \<Rightarrow> string \<times> clock" where
  "fraction (p # d # s) c =
     (if p \<in> {CHR ''.'', CHR '',''} \<and> num_char d
      then (dropWhile num_char (d # s), c\<lparr>Nano := parseNanoseconds (takeWhile num_char (d # s))\<rparr>)
      else (p # d # s, c))"
| "fraction s c = (s, c)"

definition in_range :: "int \<Rightarrow> int \<Rightarrow> (int \<times> string) option \<Rightarrow> (int \<times> string) option" where
  "in_range lo hi r = Option.bind r (\<lambda>(n, s). if lo \<le> n \<and> n \<le> hi then Some (n, s) else None)"

definition zone_offset :: "char \<Rightarrow> string \<Rightarrow> string \<Rightarrow> int option" where
  "zone_offset sign hour minute =
     (case (getnum True hour, getnum True minute) of
        (Some (hr, _), Some (mm, _)) \<Rightarrow>
          if hr > 24 \<or> mm > 60 then None
          else let secs = (hr * 60 + mm) * 60 in
            if sign = CHR ''+'' then Some secs else if sign = CHR ''-'' then Some (- secs) else None
      | _ \<Rightarrow> None)"

definition colon_zone :: "string \<Rightarrow> clock \<Rightarrow> (string \<times> clock) option" where
  "colon_zone value c =
     (if length value < 6 \<or> value ! 3 \<noteq> CHR '':'' then None
      else map_option (\<lambda>o'. (drop 6 value, c\<lparr>Offset := o'\<rparr>))
             (zone_offset (value ! 0) (take 2 (drop 1 value)) (take 2 (drop 4 value))))"

definition short_zone :: "string \<Rightarrow> clock \<Rightarrow> (string \<times> clock) option" where
  "short_zone value c =
     (if length value < 3 then None
      else map_option (\<lambda>o'. (drop 3 value, c\<lparr>Offset := o'\<rparr>))
             (zone_offset (value ! 0) (take 2 (drop 1 value)) ''00''))"

text \<open>
  One chunk of the layout. Seconds take a fraction along when the layout has none next; the flag says that
  it has one.
\<close>

definition parse_item :: "layout_item \<Rightarrow> bool \<Rightarrow> string \<Rightarrow> clock \<Rightarrow> (string \<times> clock) option" where
  "parse_item item frac_next value c =
     (case item of
        Lit p \<Rightarrow> map_option (\<lambda>s. (s, c)) (skip_lit p value)
      | LongYear \<Rightarrow>
          if length value < 4 \<or> \<not> list_all num_char (take 4 value) then None
          else Some (drop 4 value, c\<lparr>Year := decimal (take 4 value)\<rparr>)
      | ZeroMonth \<Rightarrow> map_option (\<lambda>(n, s). (s, c\<lparr>Month := n\<rparr>)) (in_range 1 12 (getnum True value))
      | ZeroDay \<Rightarrow> map_option (\<lambda>(n, s). (s, c\<lparr>Day := n\<rparr>)) (getnum True value)
      | Hour24 \<Rightarrow> map_option (\<lambda>(n, s). (s, c\<lparr>Hour := n\<rparr>)) (in_range 0 23 (getnum False value))
      | ZeroMinute \<Rightarrow> map_option (\<lambda>(n, s). (s, c\<lparr>Minute := n\<rparr>)) (in_range 0 59 (getnum True value))
      | ZeroSecond \<Rightarrow>
          map_option (\<lambda>(n, s). let c' = c\<lparr>Second := n\<rparr> in if frac_next then (s, c') else fraction s c')
            (in_range 0 59 (getnum True value))
      | Frac9 \<Rightarrow> Some (fraction value c)
      | NumShortTZ \<Rightarrow> short_zone value c
      | NumColonTZ \<Rightarrow> colon_zone value c
      | ISOColonTZ \<Rightarrow>
          if value \<noteq> [] \<and> hd value = CHR ''Z'' then Some (tl value, c\<lparr>Offset := 0\<rparr>) else colon_zone value c)"

fun parse_layout :: "layout_item list \<Rightarrow> string \<Rightarrow> clock \<Rightarrow> clock option" where
  "parse_layout [] value c = (if value = [] then Some c else None)"
| "parse_layout (item # items) value c =
     (case parse_item item (items \<noteq> [] \<and> hd items = Frac9) value c of
        None \<Rightarrow> None
      | Some (value', c') \<Rightarrow> parse_layout items value' c')"

section \<open>Calendar\<close>

definition leap :: "int \<Rightarrow> bool" where
  "leap y \<longleftrightarrow> y mod 4 = 0 \<and> (y mod 100 \<noteq> 0 \<or> y mod 400 = 0)"

definition daysIn :: "int \<Rightarrow> int \<Rightarrow> int" where
  "daysIn m y = (if m = 2 then (if leap y then 29 else 28) else if m \<in> {4, 6, 9, 11} then 30 else 31)"

text \<open>\<^verbatim>\<open>time.Date\<close> of a valid date, less the zone's offset.\<close>

definition epoch_days :: "int \<Rightarrow> int \<Rightarrow> int \<Rightarrow> int" where
  "epoch_days y m d =
     (let p = y - 1 in
      365 * p + p div 4 - p div 100 + p div 400 + sum_list (map (\<lambda>k. daysIn k y) [1..m - 1]) + d - 1 - 719162)"

definition instant_of :: "clock \<Rightarrow> instant" where
  "instant_of c =
     ((epoch_days (Year c) (Month c) (Day c) * 24 + Hour c) * 3600 + Minute c * 60 + Second c - Offset c)
       * 1000000000 + Nano c"

definition zero_clock :: clock where
  "zero_clock = \<lparr>Year = 0, Month = 1, Day = 1, Hour = 0, Minute = 0, Second = 0, Nano = 0, Offset = 0\<rparr>"

text \<open>\<^verbatim>\<open>time.Parse\<close> and \<^verbatim>\<open>UTC()\<close>; only whether there is an error is looked at.\<close>

definition time_Parse :: "layout_item list \<Rightarrow> string \<Rightarrow> instant option" where
  "time_Parse layout s =
     Option.bind (parse_layout layout s zero_clock) (\<lambda>c.
       if 1 \<le> Day c \<and> Day c \<le> daysIn (Month c) (Year c) then Some (instant_of c) else None)"

definition date_time :: "char \<Rightarrow> layout_item list" where
  "date_time sep = [LongYear, Lit CHR ''-'', ZeroMonth, Lit CHR ''-'', ZeroDay, Lit sep,
     Hour24, Lit CHR '':'', ZeroMinute, Lit CHR '':'', ZeroSecond]"

definition layouts :: "layout_item list list" where
  "layouts = [date_time CHR '' '' @ [Frac9, NumShortTZ], date_time CHR '' '' @ [Frac9, NumColonTZ],
     date_time CHR '' '' @ [NumShortTZ], date_time CHR '' '' @ [NumColonTZ]]"

definition RFC3339Nano :: "layout_item list" where
  "RFC3339Nano = date_time CHR ''T'' @ [Frac9, ISOColonTZ]"

section \<open>The column type\<close>

fun first_layout :: "layout_item list list \<Rightarrow> string \<Rightarrow> instant option" where
  "first_layout [] s = None"
| "first_layout (l # ls) s = (case time_Parse l s of Some t \<Rightarrow> Some t | None \<Rightarrow> first_layout ls s)"

definition parseTimestampzLiteral :: "string \<Rightarrow> instant option" where
  "parseTimestampzLiteral s =
     (case first_layout layouts s of
        Some t \<Rightarrow> Some t
      | None \<Rightarrow>
          let day = takeWhile (\<lambda>c. c \<noteq> CHR '' '') s in
          if day \<noteq> [] \<and> day \<noteq> s then time_Parse RFC3339Nano (day @ ''T'' @ drop (length day + 1) s) else None)"

record 'v pq =
  ScanStrings :: "'v \<Rightarrow> (string, string list) outcome"
  ArrayValue :: "instant list \<Rightarrow> (string, 'v) outcome"

datatype scan_error = ElementStrings string | BadElement nat string

fun scan_elements :: "nat \<Rightarrow> string list \<Rightarrow> (scan_error, instant list) outcome" where
  "scan_elements i [] = Ok []"
| "scan_elements i (s # ss) =
     (case parseTimestampzLiteral s of
        None \<Rightarrow> Err (BadElement i s)
      | Some t \<Rightarrow> and_then (scan_elements (Suc i) ss) (\<lambda>ts. Ok (t # ts)))"

text \<open>A nil slice is \<open>None\<close>, and so is the driver's nil.\<close>

definition TimestampArray_Scan :: "'v pq \<Rightarrow> 'v option \<Rightarrow> (scan_error, instant list option) outcome" where
  "TimestampArray_Scan pq src =
     (case src of
        None \<Rightarrow> Ok None
      | Some v \<Rightarrow>
          and_then (map_err ElementStrings (ScanStrings pq v)) (\<lambda>parts.
          and_then (scan_elements 0 parts) (\<lambda>ts. Ok (Some ts))))"

definition TimestampArray_Value :: "'v pq \<Rightarrow> instant list option \<Rightarrow> (string, 'v) outcome" where
  "TimestampArray_Value pq a = ArrayValue pq (case a of None \<Rightarrow> [] | Some ts \<Rightarrow> ts)"

section \<open>Literals\<close>

text \<open>
  What PostgreSQL writes, \<open>YYYY-MM-DD HH:MM:SS[.ffffff]\<close> with a zone of hours or of hours and minutes,
  and what \<^verbatim>\<open>lib/pq\<close> writes for a UTC time. A fraction is its number of digits and their value.
\<close>

fun pad :: "nat \<Rightarrow> int \<Rightarrow> string" where
  "pad 0 n = []"
| "pad (Suc k) n = pad k (n div 10) @ [char_of (48 + nat (n mod 10))]"

datatype zone = Hours char int | Minutes char int int | Utc

fun zone_text :: "zone \<Rightarrow> string" where
  "zone_text (Hours sign h) = sign # pad 2 h"
| "zone_text (Minutes sign h m) = sign # pad 2 h @ '':'' @ pad 2 m"
| "zone_text Utc = ''Z''"

fun zone_seconds :: "zone \<Rightarrow> int" where
  "zone_seconds (Hours sign h) = (if sign = CHR ''-'' then -1 else 1) * h * 3600"
| "zone_seconds (Minutes sign h m) = (if sign = CHR ''-'' then -1 else 1) * (h * 3600 + m * 60)"
| "zone_seconds Utc = 0"

fun valid_zone :: "zone \<Rightarrow> bool" where
  "valid_zone (Hours sign h) \<longleftrightarrow> sign \<in> {CHR ''+'', CHR ''-''} \<and> 0 \<le> h \<and> h < 24"
| "valid_zone (Minutes sign h m) \<longleftrightarrow> sign \<in> {CHR ''+'', CHR ''-''} \<and> 0 \<le> h \<and> h < 24 \<and> 0 \<le> m \<and> m < 60"
| "valid_zone Utc \<longleftrightarrow> True"

record stamp =
  StDate :: "int \<times> int \<times> int"
  StTime :: "int \<times> int \<times> int"
  StFraction :: "(nat \<times> int) option"
  StZone :: zone

fun date_text :: "int \<times> int \<times> int \<Rightarrow> string" where
  "date_text (y, m, d) = pad 4 y @ ''-'' @ pad 2 m @ ''-'' @ pad 2 d"

fun time_text :: "int \<times> int \<times> int \<Rightarrow> string" where
  "time_text (h, m, s) = pad 2 h @ '':'' @ pad 2 m @ '':'' @ pad 2 s"

definition fraction_text :: "(nat \<times> int) option \<Rightarrow> string" where
  "fraction_text f = (case f of None \<Rightarrow> [] | Some (k, n) \<Rightarrow> ''.'' @ pad k n)"

definition fraction_nanos :: "(nat \<times> int) option \<Rightarrow> int" where
  "fraction_nanos f = (case f of None \<Rightarrow> 0 | Some (k, n) \<Rightarrow> n * 10 ^ (9 - k))"

definition stamp_text :: "char \<Rightarrow> stamp \<Rightarrow> string" where
  "stamp_text sep t = date_text (StDate t) @ sep # time_text (StTime t) @ fraction_text (StFraction t) @ zone_text (StZone t)"

definition stamp_clock :: "stamp \<Rightarrow> clock" where
  "stamp_clock t = (case (StDate t, StTime t) of ((y, mo, d), (h, mi, s)) \<Rightarrow>
     \<lparr>Year = y, Month = mo, Day = d, Hour = h, Minute = mi, Second = s, Nano = 0, Offset = 0\<rparr>)"

definition stamp_instant :: "stamp \<Rightarrow> instant" where
  "stamp_instant t = instant_of ((stamp_clock t)\<lparr>Nano := fraction_nanos (StFraction t), Offset := zone_seconds (StZone t)\<rparr>)"

definition valid_stamp :: "stamp \<Rightarrow> bool" where
  "valid_stamp t \<longleftrightarrow> (case (StDate t, StTime t) of ((y, mo, d), (h, mi, s)) \<Rightarrow>
     0 \<le> y \<and> y < 10000 \<and> 1 \<le> mo \<and> mo \<le> 12 \<and> 1 \<le> d \<and> d \<le> daysIn mo y
     \<and> 0 \<le> h \<and> h < 24 \<and> 0 \<le> mi \<and> mi < 60 \<and> 0 \<le> s \<and> s < 60)
     \<and> (case StFraction t of None \<Rightarrow> True | Some (k, n) \<Rightarrow> 1 \<le> k \<and> k \<le> 9 \<and> 0 \<le> n \<and> n < 10 ^ k)
     \<and> valid_zone (StZone t)"

section \<open>Numbers\<close>

lemma digit_of:
  assumes "0 \<le> n" "n < (10 :: int)"
  shows "num_char (char_of (48 + nat n)) \<and> num_val (char_of (48 + nat n)) = n"
  using byte_digit [of "nat n"] assms by (simp add: num_char_def num_val_def)

lemma decimal_snoc: "decimal (s @ [c]) = 10 * decimal s + num_val c"
  by (simp add: decimal_def)

lemma pad_read:
  "0 \<le> n \<Longrightarrow> n < 10 ^ k \<Longrightarrow> length (pad k n) = k \<and> list_all num_char (pad k n) \<and> decimal (pad k n) = n"
proof (induction k arbitrary: n)
  case 0
  then show ?case by (simp add: decimal_def)
next
  case (Suc k)
  have "n div 10 < 10 ^ k" using Suc.prems by (simp add: div_less_iff_less_mult mult.commute)
  moreover have "0 \<le> n div 10" using Suc.prems by simp
  ultimately show ?case using Suc.IH [of "n div 10"] digit_of [of "n mod 10"] by (simp add: decimal_snoc)
qed

lemma pad_two:
  assumes "0 \<le> n" "n < 100"
  obtains a b where "pad 2 n = [a, b]" "num_char a" "num_char b" "10 * num_val a + num_val b = n"
proof -
  have p: "length (pad 2 n) = 2" "list_all num_char (pad 2 n)" "decimal (pad 2 n) = n"
    using pad_read [of n 2] assms by auto
  then obtain a b where "pad 2 n = [a, b]"
    by (auto simp: numeral_2_eq_2 length_Suc_conv)
  with p that show thesis by (simp add: decimal_def)
qed

lemma num_char_apart: "num_char c \<Longrightarrow> c \<notin> {CHR '' '', CHR ''.'', CHR '','', CHR '':'', CHR ''-'', CHR ''+'', CHR ''Z'', CHR ''T''}"
  by (auto simp: num_char_def)

lemma scale_up: "scale_up k n = n * 10 ^ k"
  by (induction k n rule: scale_up.induct) auto

section \<open>Reading a literal\<close>

lemma getnum_pad: "0 \<le> n \<Longrightarrow> n < 100 \<Longrightarrow> getnum fixed (pad 2 n @ s) = Some (n, s)"
  by (erule (1) pad_two) simp

lemma getnum_pad_alone: "0 \<le> n \<Longrightarrow> n < 100 \<Longrightarrow> getnum True (pad 2 n) = Some (n, [])"
  using getnum_pad [of n True "[]"] by simp

lemma parse_year:
  assumes "0 \<le> y" "y < 10000"
  shows "parse_item LongYear b (pad 4 y @ s) c = Some (s, c\<lparr>Year := y\<rparr>)"
  using pad_read [of y 4] assms by (simp add: parse_item_def)

lemma parse_fields:
  "1 \<le> n \<Longrightarrow> n \<le> 12 \<Longrightarrow> parse_item ZeroMonth b (pad 2 n @ s) c = Some (s, c\<lparr>Month := n\<rparr>)"
  "0 \<le> n \<Longrightarrow> n < 100 \<Longrightarrow> parse_item ZeroDay b (pad 2 n @ s) c = Some (s, c\<lparr>Day := n\<rparr>)"
  "0 \<le> n \<Longrightarrow> n < 24 \<Longrightarrow> parse_item Hour24 b (pad 2 n @ s) c = Some (s, c\<lparr>Hour := n\<rparr>)"
  "0 \<le> n \<Longrightarrow> n < 60 \<Longrightarrow> parse_item ZeroMinute b (pad 2 n @ s) c = Some (s, c\<lparr>Minute := n\<rparr>)"
  "0 \<le> n \<Longrightarrow> n < 60 \<Longrightarrow> parse_item ZeroSecond b (pad 2 n @ s) c
     = Some (if b then (s, c\<lparr>Second := n\<rparr>) else fraction s (c\<lparr>Second := n\<rparr>))"
  by (simp_all add: parse_item_def in_range_def getnum_pad)

lemma parse_separators:
  "parse_item (Lit CHR ''-'') b (CHR ''-'' # s) c = Some (s, c)"
  "parse_item (Lit CHR '':'') b (CHR '':'' # s) c = Some (s, c)"
  "parse_item (Lit CHR ''T'') b (CHR ''T'' # s) c = Some (s, c)"
  by (simp_all add: parse_item_def skip_lit_def)

lemma parse_space: "0 \<le> n \<Longrightarrow> n < 100 \<Longrightarrow> parse_item (Lit CHR '' '') b (CHR '' '' # pad 2 n @ s) c = Some (pad 2 n @ s, c)"
  by (erule (1) pad_two) (use num_char_apart in \<open>fastforce simp: parse_item_def skip_lit_def\<close>)

lemma parse_date_time:
  assumes "valid_stamp t" "sep = CHR '' '' \<or> sep = CHR ''T''"
  shows "parse_layout (date_time sep @ rest) (date_text (StDate t) @ sep # time_text (StTime t) @ s) zero_clock
    = (if rest \<noteq> [] \<and> hd rest = Frac9 then parse_layout rest s (stamp_clock t)
       else case fraction s (stamp_clock t) of (s', c) \<Rightarrow> parse_layout rest s' c)"
proof -
  obtain y mo d h mi sec where f: "StDate t = (y, mo, d)" "StTime t = (h, mi, sec)" by (metis prod_cases3)
  have "daysIn mo y \<le> 31" by (simp add: daysIn_def)
  with assms(1) have "d < 100" by (auto simp: valid_stamp_def f)
  then have sep: "parse_item (Lit sep) b (sep # pad 2 h @ v) c = Some (pad 2 h @ v, c)" for b v c
    using assms parse_space [of h b v c] parse_separators(3) by (auto simp: valid_stamp_def f)
  show ?thesis using assms(1) \<open>d < 100\<close>
    by (auto simp: date_time_def f valid_stamp_def parse_year parse_fields parse_separators sep
        stamp_clock_def zero_clock_def split: prod.splits)
qed

lemma zone_starts: "valid_zone z \<Longrightarrow> \<exists>c s. zone_text z = c # s \<and> \<not> num_char c \<and> c \<notin> {CHR ''.'', CHR '',''}"
  by (cases z) (auto simp: num_char_def)

lemma fraction_read:
  assumes "valid_stamp t"
  shows "fraction (fraction_text (StFraction t) @ zone_text (StZone t)) c
    = (zone_text (StZone t), if StFraction t = None then c else c\<lparr>Nano := fraction_nanos (StFraction t)\<rparr>)"
proof -
  obtain z s where z: "zone_text (StZone t) = z # s" "\<not> num_char z" "z \<notin> {CHR ''.'', CHR '',''}"
    using zone_starts [of "StZone t"] assms by (auto simp: valid_stamp_def)
  show ?thesis
  proof (cases "StFraction t")
    case None
    then show ?thesis using z by (cases s) (auto simp: fraction_text_def)
  next
    case (Some kn)
    then obtain k n where kn: "StFraction t = Some (k, n)" "1 \<le> k" "k \<le> 9" "0 \<le> n" "n < 10 ^ k"
      using assms by (cases kn) (auto simp: valid_stamp_def)
    have p: "length (pad k n) = k" "list_all num_char (pad k n)" "decimal (pad k n) = n"
      using pad_read kn by auto
    then obtain d ds where d: "pad k n = d # ds" using kn(2) by (cases "pad k n") auto
    have "takeWhile num_char (pad k n @ z # s) = pad k n" "dropWhile num_char (pad k n @ z # s) = z # s"
      using p(2) z(2) by (auto simp: list_all_iff takeWhile_append2)
    then show ?thesis using p kn d
      by (simp add: fraction_text_def fraction_nanos_def z(1) parseNanoseconds_def scale_up Let_def)
  qed
qed

lemma zone_offset_pad:
  "sign \<in> {CHR ''+'', CHR ''-''} \<Longrightarrow> 0 \<le> h \<Longrightarrow> h < 24 \<Longrightarrow> 0 \<le> m \<Longrightarrow> m < 60 \<Longrightarrow>
     zone_offset sign (pad 2 h) (pad 2 m) = Some ((if sign = CHR ''-'' then -1 else 1) * (h * 3600 + m * 60))"
  by (auto simp: zone_offset_def getnum_pad_alone Let_def)

lemma zone_read:
  assumes "valid_zone z"
  shows "parse_layout [NumShortTZ] (zone_text z) c
           = (case z of Hours _ _ \<Rightarrow> Some (c\<lparr>Offset := zone_seconds z\<rparr>) | _ \<Rightarrow> None)"
    and "parse_layout [NumColonTZ] (zone_text z) c
           = (case z of Minutes _ _ _ \<Rightarrow> Some (c\<lparr>Offset := zone_seconds z\<rparr>) | _ \<Rightarrow> None)"
    and "parse_layout [ISOColonTZ] (zone_text Utc) c = Some (c\<lparr>Offset := zone_seconds Utc\<rparr>)"
proof -
  have zeros: "pad 2 0 = ''00''" by code_simp
  have len: "length (pad 2 n) = 2" for n by (simp add: numeral_2_eq_2)
  have t: "take 2 (pad 2 n @ s) = pad 2 n" "drop 2 (pad 2 n @ s) = s" for n s by (simp_all add: len)
  show "parse_layout [NumShortTZ] (zone_text z) c
           = (case z of Hours _ _ \<Rightarrow> Some (c\<lparr>Offset := zone_seconds z\<rparr>) | _ \<Rightarrow> None)"
    using assms zone_offset_pad [of _ _ 0]
    by (cases z) (auto simp: parse_item_def short_zone_def zeros len t numeral_3_eq_3 split: option.split)
  show "parse_layout [NumColonTZ] (zone_text z) c
           = (case z of Minutes _ _ _ \<Rightarrow> Some (c\<lparr>Offset := zone_seconds z\<rparr>) | _ \<Rightarrow> None)"
    using assms zone_offset_pad
    by (cases z) (auto simp: parse_item_def colon_zone_def len t nth_append split: option.split)
  show "parse_layout [ISOColonTZ] (zone_text Utc) c = Some (c\<lparr>Offset := zone_seconds Utc\<rparr>)"
    by (simp add: parse_item_def)
qed

text \<open>A layout without a fraction reads what the layout with one reads: the last two layouts never decide.\<close>

lemma parse_layout_same_end:
  "\<lbrakk>\<And>s c. parse_layout us s c = parse_layout vs s c; (us \<noteq> [] \<and> hd us = Frac9) = (vs \<noteq> [] \<and> hd vs = Frac9)\<rbrakk>
     \<Longrightarrow> parse_layout (items @ us) s c = parse_layout (items @ vs) s c"
proof (induction items arbitrary: s c)
  case (Cons it its)
  have "(its @ us \<noteq> [] \<and> hd (its @ us) = Frac9) = (its @ vs \<noteq> [] \<and> hd (its @ vs) = Frac9)"
    using Cons.prems(2) by (cases its) auto
  then show ?case using Cons.IH Cons.prems by (simp split: option.split)
qed simp

lemma plain_layout_same:
  assumes "z \<noteq> Frac9"
  shows "time_Parse (date_time sep @ [z]) s = time_Parse (date_time sep @ [Frac9, z]) s"
proof -
  have "parse_layout [ZeroSecond, z] s c = parse_layout [ZeroSecond, Frac9, z] s c" for s c
    using assms by (auto simp: parse_item_def Let_def split: option.split prod.split)
  from parse_layout_same_end [OF this, of "butlast (date_time sep)"]
  show ?thesis by (simp add: time_Parse_def date_time_def)
qed

lemma layouts_decided:
  "first_layout layouts s = (case time_Parse (date_time CHR '' '' @ [Frac9, NumShortTZ]) s of
      Some t \<Rightarrow> Some t | None \<Rightarrow> time_Parse (date_time CHR '' '' @ [Frac9, NumColonTZ]) s)"
  by (simp add: layouts_def plain_layout_same split: option.split)

lemma stamp_days:
  "valid_stamp t \<Longrightarrow> 1 \<le> Day (stamp_clock t) \<and> Day (stamp_clock t) \<le> daysIn (Month (stamp_clock t)) (Year (stamp_clock t))"
  by (auto simp: valid_stamp_def stamp_clock_def split: prod.splits)

text \<open>The result of one layout is that of its last chunk.\<close>

lemma time_Parse_literal:
  assumes "valid_stamp t" "sep = CHR '' '' \<or> sep = CHR ''T''"
    and "\<And>c. parse_layout [z] (zone_text (StZone t)) c
           = (if reads then Some (c\<lparr>Offset := zone_seconds (StZone t)\<rparr>) else None)"
  shows "time_Parse (date_time sep @ [Frac9, z]) (stamp_text sep t) = (if reads then Some (stamp_instant t) else None)"
proof -
  have head: "parse_layout (date_time sep @ [Frac9, z]) (stamp_text sep t) zero_clock
      = parse_layout [Frac9, z] (fraction_text (StFraction t) @ zone_text (StZone t)) (stamp_clock t)"
    using parse_date_time [OF assms(1,2), of "[Frac9, z]"] by (simp add: stamp_text_def)
  let ?c = "(stamp_clock t)\<lparr>Nano := fraction_nanos (StFraction t)\<rparr>"
  have "(if StFraction t = None then stamp_clock t else ?c) = ?c"
    by (auto simp: fraction_nanos_def stamp_clock_def split: prod.splits)
  then have "parse_layout [Frac9, z] (fraction_text (StFraction t) @ zone_text (StZone t)) (stamp_clock t)
      = parse_layout [z] (zone_text (StZone t)) ?c"
    using fraction_read [OF assms(1)] by (simp add: parse_item_def)
  then have "parse_layout (date_time sep @ [Frac9, z]) (stamp_text sep t) zero_clock
      = (if reads then Some (?c\<lparr>Offset := zone_seconds (StZone t)\<rparr>) else None)"
    by (simp only: head assms(3))
  then show ?thesis using stamp_days [OF assms(1)] by (simp add: time_Parse_def stamp_instant_def)
qed

lemma takeWhile_date: "list_all (\<lambda>c. c \<noteq> CHR '' '') d \<Longrightarrow> takeWhile (\<lambda>c. c \<noteq> CHR '' '') (d @ CHR '' '' # s) = d"
  by (induction d) auto

lemma date_text_plain:
  assumes "valid_stamp t"
  shows "list_all (\<lambda>c. c \<noteq> CHR '' '') (date_text (StDate t))" "date_text (StDate t) \<noteq> []"
proof -
  obtain y mo d where f: "StDate t = (y, mo, d)" by (metis prod_cases3)
  have "daysIn mo y \<le> 31" by (simp add: daysIn_def)
  then have "0 \<le> y \<and> y < 10 ^ 4 \<and> 0 \<le> mo \<and> mo < 10 ^ 2 \<and> 0 \<le> d \<and> d < 10 ^ 2"
    using assms by (auto simp: valid_stamp_def f split: prod.splits)
  then have "list_all num_char (pad 4 y) \<and> list_all num_char (pad 2 mo) \<and> list_all num_char (pad 2 d)"
    using pad_read by blast
  then show "list_all (\<lambda>c. c \<noteq> CHR '' '') (date_text (StDate t))"
    using num_char_apart by (auto simp: f list_all_iff)
  show "date_text (StDate t) \<noteq> []" by (simp add: f)
qed

lemma literal_parses:
  assumes "valid_stamp t"
  shows "parseTimestampzLiteral (stamp_text CHR '' '' t) = Some (stamp_instant t)"
proof -
  have zone: "valid_zone (StZone t)" using assms by (simp add: valid_stamp_def)
  have short: "time_Parse (date_time CHR '' '' @ [Frac9, NumShortTZ]) (stamp_text CHR '' '' t)
      = (if \<exists>s h. StZone t = Hours s h then Some (stamp_instant t) else None)"
    by (rule time_Parse_literal [OF assms]) (use zone_read(1) [OF zone] in \<open>auto split: zone.splits\<close>)
  have colon: "time_Parse (date_time CHR '' '' @ [Frac9, NumColonTZ]) (stamp_text CHR '' '' t)
      = (if \<exists>s h m. StZone t = Minutes s h m then Some (stamp_instant t) else None)"
    by (rule time_Parse_literal [OF assms]) (use zone_read(2) [OF zone] in \<open>auto split: zone.splits\<close>)
  show ?thesis
  proof (cases "StZone t")
    case Utc
    let ?s = "stamp_text CHR '' '' t"
    have day: "takeWhile (\<lambda>c. c \<noteq> CHR '' '') ?s = date_text (StDate t)"
      unfolding stamp_text_def by (rule takeWhile_date [OF date_text_plain(1) [OF assms]])
    have iso: "date_text (StDate t) @ ''T'' @ drop (length (date_text (StDate t)) + 1) ?s = stamp_text CHR ''T'' t"
      by (simp add: stamp_text_def)
    have "time_Parse RFC3339Nano (stamp_text CHR ''T'' t) = Some (stamp_instant t)"
      using time_Parse_literal [OF assms, of "CHR ''T''" ISOColonTZ True] zone_read(3) [OF zone] Utc
      by (auto simp: RFC3339Nano_def)
    then show ?thesis using Utc date_text_plain [OF assms]
      by (simp add: parseTimestampzLiteral_def layouts_decided short colon day iso Let_def del: append_Cons) (simp add: stamp_text_def)
  qed (auto simp: parseTimestampzLiteral_def layouts_decided short colon)
qed

section \<open>Arrays\<close>

lemma scan_elements_ok: "scan_elements i parts = Ok ts \<longleftrightarrow> map parseTimestampzLiteral parts = map Some ts"
proof (induction i parts arbitrary: ts rule: scan_elements.induct)
  case (2 i s ss)
  show ?case
  proof (cases "parseTimestampzLiteral s")
    case (Some t)
    show ?thesis
    proof (cases ts)
      case (Cons u us)
      have "scan_elements i (s # ss) = Ok ts \<longleftrightarrow> t = u \<and> scan_elements (Suc i) ss = Ok us"
        using Some Cons by (cases "scan_elements (Suc i) ss") auto
      then show ?thesis using "2.IH" [OF Some, of us] Some Cons by simp
    qed (use Some in \<open>cases "scan_elements (Suc i) ss"; simp\<close>)
  qed (cases ts; simp)
qed (auto)

lemma scan_elements_err:
  "scan_elements i parts = Err e \<longleftrightarrow>
     (let n = length (takeWhile (\<lambda>s. parseTimestampzLiteral s \<noteq> None) parts) in
      n < length parts \<and> e = BadElement (i + n) (parts ! n))"
proof (induction i parts rule: scan_elements.induct)
  case (2 i s ss)
  show ?case
  proof (cases "parseTimestampzLiteral s")
    case (Some t)
    have "scan_elements i (s # ss) = Err e \<longleftrightarrow> scan_elements (Suc i) ss = Err e"
      using Some by (cases "scan_elements (Suc i) ss") auto
    then show ?thesis using "2.IH" [OF Some] Some by (simp add: Let_def)
  qed auto
qed simp

text \<open>
  C39: An array whose elements are timestamps as PostgreSQL writes them, with or without a fraction and with
  a zone of hours, of hours and minutes, or \<open>Z\<close>, scans to their instants in UTC, in order.
\<close>

theorem scan_reads_literals:
  assumes "ScanStrings pq v = Ok (map (stamp_text CHR '' '') ts)" "list_all valid_stamp ts"
  shows "TimestampArray_Scan pq (Some v) = Ok (Some (map stamp_instant ts))"
proof -
  have "map parseTimestampzLiteral (map (stamp_text CHR '' '') ts) = map Some (map stamp_instant ts)"
    using assms(2) literal_parses by (auto simp: list_all_iff)
  then have "scan_elements 0 (map (stamp_text CHR '' '') ts) = Ok (map stamp_instant ts)"
    by (simp only: scan_elements_ok)
  then show ?thesis using assms(1) by (simp add: TimestampArray_Scan_def)
qed

text \<open>
  One text as PostgreSQL writes it in a session east of Greenwich, and one as \<^verbatim>\<open>lib/pq\<close> does.
\<close>

theorem scan_reads_literals_witness:
  "\<exists>pq :: string list pq. TimestampArray_Scan pq (Some [''2025-04-17 10:20:30.5+02'', ''1970-01-01 00:00:00Z''])
     = Ok (Some [1744878030500000000, 0])"
proof -
  let ?pq = "\<lparr>ScanStrings = (\<lambda>v :: string list. Ok v), ArrayValue = (\<lambda>ts. Err ''read only'')\<rparr>"
  let ?ts = "[\<lparr>StDate = (2025, 4, 17), StTime = (10, 20, 30), StFraction = Some (1, 5), StZone = Hours CHR ''+'' 2\<rparr>,
     \<lparr>StDate = (1970, 1, 1), StTime = (0, 0, 0), StFraction = None, StZone = Utc\<rparr>]"
  have shown: "map (stamp_text CHR '' '') ?ts = [''2025-04-17 10:20:30.5+02'', ''1970-01-01 00:00:00Z'']" by code_simp
  have "ScanStrings ?pq [''2025-04-17 10:20:30.5+02'', ''1970-01-01 00:00:00Z''] = Ok (map (stamp_text CHR '' '') ?ts)"
    by (simp only: shown pq.simps)
  moreover have "list_all valid_stamp ?ts" by code_simp
  ultimately have "TimestampArray_Scan ?pq (Some [''2025-04-17 10:20:30.5+02'', ''1970-01-01 00:00:00Z''])
      = Ok (Some (map stamp_instant ?ts))"
    by (rule scan_reads_literals)
  moreover have "map stamp_instant ?ts = [1744878030500000000, 0]" by code_simp
  ultimately show ?thesis by (metis (no_types))
qed

text \<open>
  The driver's contract: it writes each time of \<open>D\<close> as an RFC 3339 text with a space, and reads the
  element texts of what it wrote.
\<close>

definition writes_rfc3339 :: "'v pq \<Rightarrow> instant set \<Rightarrow> bool" where
  "writes_rfc3339 pq D \<longleftrightarrow>
     (\<forall>ts. set ts \<subseteq> D \<longrightarrow> (\<exists>v stamps. ArrayValue pq ts = Ok v \<and> ScanStrings pq v = Ok (map (stamp_text CHR '' '') stamps)
        \<and> map stamp_instant stamps = ts \<and> list_all (\<lambda>t. valid_stamp t \<and> StZone t = Utc) stamps))"


text \<open>A driver over two times.\<close>

definition noon :: stamp where
  "noon = \<lparr>StDate = (2024, 6, 15), StTime = (12, 0, 0), StFraction = None, StZone = Utc\<rparr>"

definition new_year :: stamp where
  "new_year = \<lparr>StDate = (2025, 1, 1), StTime = (0, 0, 0), StFraction = Some (6, 123456), StZone = Utc\<rparr>"

definition two_times :: "string list pq" where
  "two_times = \<lparr>ScanStrings = (\<lambda>v. Ok v),
     ArrayValue = (\<lambda>ts. Ok (map (\<lambda>t. stamp_text CHR '' '' (if t = stamp_instant noon then noon else new_year)) ts))\<rparr>"


text \<open>
  A scan fails exactly when the driver cannot split the array or some element is
  no timestamp; the error names the first such element. A null column is nil.
\<close>

theorem scan_errors:
  "TimestampArray_Scan pq src = Err e \<longleftrightarrow>
     (\<exists>v m. src = Some v \<and> ScanStrings pq v = Err m \<and> e = ElementStrings m)
     \<or> (\<exists>v parts n. src = Some v \<and> ScanStrings pq v = Ok parts
          \<and> n = length (takeWhile (\<lambda>s. parseTimestampzLiteral s \<noteq> None) parts)
          \<and> n < length parts \<and> e = BadElement n (parts ! n))"
proof (cases src)
  case (Some v)
  show ?thesis
  proof (cases "ScanStrings pq v")
    case (Ok parts)
    have "TimestampArray_Scan pq src = Err e \<longleftrightarrow> scan_elements 0 parts = Err e"
      using Some Ok by (cases "scan_elements 0 parts") (auto simp: TimestampArray_Scan_def)
    then show ?thesis using Some Ok by (simp add: scan_elements_err Let_def)
  qed (use Some in \<open>auto simp: TimestampArray_Scan_def\<close>)
qed (simp add: TimestampArray_Scan_def)

text \<open>The offset without a colon, and one with seconds, which PostgreSQL writes for dates before standard time.\<close>

lemma offset_spellings_rejected:
  "parseTimestampzLiteral ''2025-04-17 10:20:30+0000'' = None"
  "parseTimestampzLiteral ''1880-01-01 00:00:00+00:09:21'' = None"
  by code_simp+

end
