(* ===== verification/Plugin_Run.thy ===== *)
theory Plugin_Run
  imports Migration Generator
begin

text \<open>
  The plugin's whole run: the words of the command line, the files that \<^verbatim>\<open>emit\<close> writes, and
  the jet pass of \<^verbatim>\<open>main.go\<close> and \<^verbatim>\<open>jet_runner.go\<close> over them. The file system is a list of
  files, of which the alias files, that the jet pass does not look at, are left out; PostgreSQL is the parameter of \<open>Migration\<close>, and go-jet's reading of a schema is another one.
\<close>

section \<open>The command line\<close>

datatype invocation =
    FromDB string string | FromDBUsage | CheckCommand "string list" | DiffCommand "string list"
  | UnknownSubcommand string | PrintVersion | PrintHelp | PluginMode

text \<open>\<^verbatim>\<open>os.Args\<close> with the program's name first.\<close>

definition dispatch :: "string list \<Rightarrow> invocation" where
  "dispatch args =
     (case args of
        prog # w # rest \<Rightarrow>
          if \<not> prefix ''-'' w then
            if w = ''from-db'' then
              (case rest of [dsn, out] \<Rightarrow> FromDB dsn out | _ \<Rightarrow> FromDBUsage)
            else if w = ''check'' then CheckCommand rest
            else if w = ''diff'' then DiffCommand rest
            else UnknownSubcommand w
          else if w \<in> {''--version'', ''-v''} then PrintVersion
          else if w \<in> {''--help'', ''-h''} then PrintHelp
          else PluginMode
      | _ \<Rightarrow> PluginMode)"

text \<open>
  Where a declaration is: its name when it has no file, and the file alone when it has no position. A
  descriptor comes as its full name, its file and its position in it.
\<close>

type_synonym descriptor = "string \<times> string option \<times> int \<times> int"

definition sourceLoc :: "descriptor \<Rightarrow> string" where
  "sourceLoc desc = (case desc of (name, file, row, col) \<Rightarrow>
     (case file of
        None \<Rightarrow> name
      | Some path \<Rightarrow>
          if row = 0 \<and> col = 0 then path else path @ '':'' @ FormatInt (row + 1) @ '':'' @ FormatInt (col + 1)))"

definition columnSourceLoc :: "descriptor option \<Rightarrow> string" where
  "columnSourceLoc field = (case field of None \<Rightarrow> ''<synthesized>'' | Some desc \<Rightarrow> sourceLoc desc)"

section \<open>Files\<close>

type_synonym files = "file_content list"

definition write_file :: "string \<Rightarrow> string \<Rightarrow> files \<Rightarrow> files" where
  "write_file path text fs =
     (if path \<in> FilePath ` set fs
      then map (\<lambda>f. if FilePath f = path then \<lparr>FilePath = path, Content = text\<rparr> else f) fs
      else fs @ [\<lparr>FilePath = path, Content = text\<rparr>])"

definition read_file :: "files \<Rightarrow> string \<Rightarrow> string option" where
  "read_file fs path = map_option Content (find (\<lambda>f. FilePath f = path) fs)"

definition SymbolPrefix :: "resource_plan \<Rightarrow> string" where
  "SymbolPrefix p = last (split_on CHR ''.'' (ResourceFQN p))"

definition FilenamePrefix :: "resource_plan \<Rightarrow> string" where
  "FilenamePrefix p = lower_ascii (SymbolPrefix p)"

definition ddl_path :: "string \<Rightarrow> emitted \<Rightarrow> string" where
  "ddl_path repoRoot out = filepath_Join [repoRoot, EmDir out, FilenamePrefix (EmPlan out) @ ''_ddl.sql'']"

definition emitSchemaSQL :: "string \<Rightarrow> files \<Rightarrow> emitted \<Rightarrow> files" where
  "emitSchemaSQL repoRoot fs out = write_file (ddl_path repoRoot out) (EmDDL out) fs"

section \<open>The jet pass\<close>

text \<open>\<^verbatim>\<open>filepath.Glob\<close> of the files \<^verbatim>\<open>*_ddl.sql\<close> of a directory without wildcards of its own.\<close>

definition ddl_match :: "string \<Rightarrow> string \<Rightarrow> bool" where
  "ddl_match root path =
     (let pat = filepath_Join [root, ''*_ddl.sql'']; stem = take (length pat - length ''*_ddl.sql'') pat in
      prefix stem path \<and> suffix ''_ddl.sql'' (drop (length stem) path) \<and> CHR ''/'' \<notin> set (drop (length stem) path))"

definition discoverDDL :: "files \<Rightarrow> string \<Rightarrow> files" where
  "discoverDDL fs root = sort_key FilePath (filter (\<lambda>f. ddl_match root (FilePath f)) fs)"

type_synonym jet_table = "string \<times> (string \<times> bool \<times> template_type) list"

record 'db go_jet =
  TablesOf :: "'db \<Rightarrow> string \<Rightarrow> jet_table list option"

datatype jet_error =
    NoDDLFiles "string list" | JetStart | JetConnect | JetRole string | JetSort "string list"
  | JetApply command_error | JetIntrospect

type_synonym models = "(string \<times> (string \<times> template_type) list) list"

definition jet_role_script :: "string \<Rightarrow> string" where
  "jet_role_script role = concat (map (\<lambda>l. nl @ [CHR 0x09, CHR 0x09, CHR 0x09] @ l)
     [''DO $$ BEGIN'',
      CHR 0x09 # ''IF NOT EXISTS (SELECT FROM pg_roles WHERE rolname = '' @ [CHR 0x27] @ role @ [CHR 0x27] @ '') THEN'',
      CHR 0x09 # CHR 0x09 # ''CREATE ROLE '' @ role_in_statement role @ '' LOGIN PASSWORD ''
        @ [CHR 0x27] @ role @ [CHR 0x27] @ '';'',
      CHR 0x09 # ''END IF;'',
      ''END $$;'']) @ nl @ [CHR 0x09, CHR 0x09]"

fun create_roles :: "'db postgres \<Rightarrow> 'db \<Rightarrow> string list \<Rightarrow> (jet_error, 'db) outcome" where
  "create_roles pg db [] = Ok db"
| "create_roles pg db (r # rs) =
     (case ExecSQL pg db (jet_role_script r) of None \<Rightarrow> Err (JetRole r) | Some db' \<Rightarrow> create_roles pg db' rs)"

definition GenerateFromDB :: "'db go_jet \<Rightarrow> 'db \<Rightarrow> overrides \<Rightarrow> (jet_error, models) outcome" where
  "GenerateFromDB jet db overrides =
     (case TablesOf jet db (jet_schema []) of
        None \<Rightarrow> Err JetIntrospect
      | Some tables \<Rightarrow>
          Ok (map (\<lambda>(t, cols). (t, map (\<lambda>(c, nullable, chosen). (c, customise_field overrides t c nullable chosen)) cols))
            (filter (\<lambda>(t, cols). t \<notin> set (skipped_tables [])) tables)))"

definition runFromDDL ::
  "'db postgres \<Rightarrow> 'db go_jet \<Rightarrow> string \<Rightarrow> files \<Rightarrow> string list \<Rightarrow> string list \<Rightarrow> overrides \<Rightarrow> (jet_error, models) outcome" where
  "runFromDDL pg jet env fs roots tenantRoles overrides =
     (let ddls = concat (map (discoverDDL fs) roots) in
      if ddls = [] then Err (NoDDLFiles roots)
      else case NewPG pg of
        None \<Rightarrow> Err JetStart
      | Some db \<Rightarrow>
          if \<not> ConnectPG pg db then Err JetConnect
          else and_then (create_roles pg db (bootstrap_roles tenantRoles env)) (\<lambda>db.
               and_then (map_err JetSort (topoSortDDL ddls)) (\<lambda>ordered.
               and_then (map_err JetApply (exec_all pg db ordered)) (\<lambda>db.
               GenerateFromDB jet db overrides))))"

text \<open>The plans by directory, the directories in order; the models come with the directory they are written to.\<close>

definition output_dirs :: "emitted list \<Rightarrow> string list" where
  "output_dirs outs = sort (remdups (map EmDir outs))"

definition plans_in :: "emitted list \<Rightarrow> string \<Rightarrow> resource_plan list" where
  "plans_in outs dir = map EmPlan (filter (\<lambda>o'. EmDir o' = dir) outs)"

fun jet_pass ::
  "'db postgres \<Rightarrow> 'db go_jet \<Rightarrow> string \<Rightarrow> string \<Rightarrow> files \<Rightarrow> emitted list \<Rightarrow> string list
     \<Rightarrow> (string \<times> jet_error, (string \<times> models) list) outcome" where
  "jet_pass pg jet env repoRoot fs outs [] = Ok []"
| "jet_pass pg jet env repoRoot fs outs (dir # dirs) =
     (let absRoot = filepath_Join [repoRoot, dir] in
      and_then (map_err (Pair dir) (runFromDDL pg jet env fs [absRoot]
          (distinctTenantRoles (plans_in outs dir)) (jetColumnOverrides (plans_in outs dir)))) (\<lambda>ms.
      and_then (jet_pass pg jet env repoRoot fs outs dirs) (\<lambda>rest.
      Ok ((filepath_Join [absRoot, ''jet''], ms) # rest))))"

section \<open>The run\<close>

datatype plugin_error =
    RepoRootRequired | NoGoMod | NoModuleDirective | GenerationFailed generate_error | JetFailed string jet_error

definition plugin_run ::
  "'db postgres \<Rightarrow> 'db go_jet \<Rightarrow> string \<Rightarrow> string \<Rightarrow> files \<Rightarrow> proto_unit list list
     \<Rightarrow> (plugin_error, files \<times> (string \<times> models) list) outcome" where
  "plugin_run pg jet env repoRoot fs units =
     (if repoRoot = [] then Err RepoRootRequired
      else case read_file fs (filepath_Join [repoRoot, ''go.mod'']) of
        None \<Rightarrow> Err NoGoMod
      | Some body \<Rightarrow>
          (case readGoModulePath body of
             None \<Rightarrow> Err NoModuleDirective
           | Some modulePath \<Rightarrow>
               and_then (map_err GenerationFailed (generate modulePath units)) (\<lambda>outs.
               let written = foldl (emitSchemaSQL repoRoot) fs outs in
               and_then (map_err (\<lambda>(dir, e). JetFailed dir e)
                   (jet_pass pg jet env repoRoot written outs (output_dirs outs))) (\<lambda>models.
               Ok (written, models)))))"

section \<open>Cleaned paths\<close>

definition plain_part :: "string \<Rightarrow> bool" where
  "plain_part q \<longleftrightarrow> q \<noteq> [] \<and> q \<noteq> ''.'' \<and> q \<noteq> ''..'' \<and> CHR ''/'' \<notin> set q"

definition clean_stack :: "bool \<Rightarrow> string list \<Rightarrow> bool" where
  "clean_stack r st \<longleftrightarrow>
     (\<exists>k ps. st = replicate k ''..'' @ ps \<and> (r \<longrightarrow> k = 0) \<and> (\<forall>q \<in> set ps. plain_part q))"

lemma clean_step_stack:
  assumes "clean_stack r st" "CHR ''/'' \<notin> set q"
  shows "clean_stack r (clean_step r st q)"
proof -
  obtain k ps where st: "st = replicate k ''..'' @ ps" "r \<longrightarrow> k = 0" "\<forall>q \<in> set ps. plain_part q"
    using assms(1) by (auto simp: clean_stack_def)
  show ?thesis
  proof (cases "q = ''..''")
    case True
    show ?thesis
    proof (cases "ps = []")
      case True
      have "replicate k ''..'' @ [''..''] = replicate (Suc k) ''..''" by (simp add: replicate_append_same)
      with True st \<open>q = ''..''\<close> show ?thesis
        by (cases k) (auto simp: clean_stack_def intro: exI [of _ "Suc k"] exI [of _ 0])
    next
      case False
      then have "last st \<noteq> ''..''" using st by (auto simp: plain_part_def)
      moreover have "butlast st = replicate k ''..'' @ butlast ps" using False st(1) by (simp add: butlast_append)
      moreover have "\<forall>q \<in> set (butlast ps). plain_part q" using st(3) in_set_butlastD by fast
      ultimately show ?thesis using False st(1,2) \<open>q = ''..''\<close>
        by (auto simp: clean_stack_def intro!: exI [of _ k] exI [of _ "butlast ps"])
    qed
  next
    case False
    show ?thesis
    proof (cases "q = [] \<or> q = ''.''")
      case True
      then show ?thesis using assms(1) by simp
    next
      case apart: False
      with False assms(2) have "plain_part q" by (simp add: plain_part_def)
      moreover have "clean_step r st q = replicate k ''..'' @ (ps @ [q])" using False apart st(1) by simp
      ultimately show ?thesis unfolding clean_stack_def using st(2,3)
        by (intro exI [of _ k] exI [of _ "ps @ [q]"]) simp
    qed
  qed
qed

lemma clean_fold_stack:
  "\<forall>q \<in> set qs. CHR ''/'' \<notin> set q \<Longrightarrow> clean_stack r st \<Longrightarrow> clean_stack r (foldl (clean_step r) st qs)"
  by (induction qs arbitrary: st) (simp_all add: clean_step_stack del: clean_step.simps)

lemma clean_stack_fixed:
  assumes "clean_stack r st"
  shows "foldl (clean_step r) [] st = st"
proof -
  obtain k ps where st: "st = replicate k ''..'' @ ps" "r \<longrightarrow> k = 0" "\<forall>q \<in> set ps. plain_part q"
    using assms by (auto simp: clean_stack_def)
  have "foldl (clean_step False) [] (replicate k ''..'') = replicate k ''..''" for k
  proof (induction k)
    case (Suc k)
    have "clean_step False (replicate k ''..'') ''..'' = replicate k ''..'' @ [''..'']" by (cases k) auto
    then show ?case using Suc by (simp add: replicate_append_same [symmetric] del: clean_step.simps)
  qed simp
  then have "foldl (clean_step r) [] (replicate k ''..'') = replicate k ''..''"
    using st(2) by (cases r) simp_all
  then show ?thesis using st(1,3) clean_parts [of ps r "replicate k ''..''"] by (simp add: plain_part_def)
qed

definition path_stack :: "string \<Rightarrow> string list" where
  "path_stack x = foldl (clean_step (prefix ''/'' x)) [] (split_on CHR ''/'' x)"

text \<open>What comes before the last name of a cleaned path.\<close>

definition clean_dir :: "string \<Rightarrow> string" where
  "clean_dir x = (if prefix ''/'' x then ''/'' else []) @ concat (map (\<lambda>q. q @ ''/'') (path_stack x))"

lemma path_stack_clean: "clean_stack (prefix ''/'' x) (path_stack x)"
proof -
  have "clean_stack (prefix ''/'' x) []"
    unfolding clean_stack_def by (intro exI [of _ 0] exI [of _ "[]"]) simp
  then show ?thesis
    unfolding path_stack_def using clean_fold_stack split_on_free by blast
qed

lemma join_snoc: "join ''/'' (st @ [q]) = concat (map (\<lambda>q. q @ ''/'') st) @ q"
  by (induction "''/''" st rule: join.induct) auto

lemma Clean_snoc:
  assumes "x \<noteq> []" "plain_part q"
  shows "filepath_Clean (x @ ''/'' @ q) = clean_dir x @ q"
proof -
  have "split_on CHR ''/'' (x @ ''/'' @ q) = split_on CHR ''/'' x @ [q]"
    using split_on_two [of "CHR ''/''" x q] split_on_word [of "CHR ''/''" q] assms(2) by (simp add: plain_part_def)
  moreover have "prefix ''/'' (x @ ''/'' @ q) = prefix ''/'' x" using assms(1) by (cases x) auto
  moreover have "clean_step r st q = st @ [q]" for r st using assms(2) by (auto simp: plain_part_def)
  ultimately have "filepath_Clean (x @ ''/'' @ q) =
      (let out = (if prefix ''/'' x then ''/'' else []) @ join ''/'' (path_stack x @ [q]) in if out = [] then ''.'' else out)"
    by (simp add: filepath_Clean_def path_stack_def del: clean_step.simps append_Cons)
  then show ?thesis using assms(2) by (simp add: join_snoc clean_dir_def plain_part_def Let_def)
qed

lemma clean_stack_parts:
  assumes "clean_stack r st" "q \<in> set st"
  shows "q \<noteq> [] \<and> CHR ''/'' \<notin> set q"
proof -
  obtain k ps where st: "st = replicate k ''..'' @ ps" "\<forall>q \<in> set ps. plain_part q"
    using assms(1) unfolding clean_stack_def by blast
  have "q = ''..'' \<or> q \<in> set ps" using assms(2) st(1) by (auto simp: set_replicate_conv_if split: if_splits)
  then show ?thesis using st(2) by (elim disjE) (simp_all add: plain_part_def)
qed

lemma clean_dir_Clean: "clean_dir (filepath_Clean x) = clean_dir x"
proof -
  let ?st = "path_stack x"
  note stack = path_stack_clean [of x]
  have parts: "\<forall>q \<in> set ?st. q \<noteq> [] \<and> CHR ''/'' \<notin> set q" using clean_stack_parts [OF stack] by blast
  have out: "filepath_Clean x = (let out = (if prefix ''/'' x then ''/'' else []) @ join ''/'' ?st in if out = [] then ''.'' else out)"
    by (simp only: filepath_Clean_def path_stack_def Let_def)
  have split: "split_on CHR ''/'' (join ''/'' ?st) = (if ?st = [] then [[]] else ?st)"
    using parts split_on_join [of ?st "CHR ''/''"] by simp
  show ?thesis
  proof (cases "prefix ''/'' x")
    case True
    then have c: "filepath_Clean x = CHR ''/'' # join ''/'' ?st" by (simp add: out)
    have "foldl (clean_step True) [] (split_on CHR ''/'' (filepath_Clean x)) = ?st"
      using clean_stack_fixed [OF stack] True by (simp add: c split)
    then show ?thesis using True by (simp add: clean_dir_def path_stack_def [of "filepath_Clean x"]) (simp add: c)
  next
    case False
    show ?thesis
    proof (cases "?st = []")
      case True
      then have "filepath_Clean x = ''.''" using False by (simp add: out)
      then show ?thesis using False True by (simp add: clean_dir_def path_stack_def [of "''.''"])
    next
      case nonempty: False
      then obtain q qs where q: "?st = q # qs" by (cases ?st) auto
      then obtain a w where "q = a # w" "a \<noteq> CHR ''/''" using parts by (cases q) auto
      then have j: "join ''/'' ?st \<noteq> []" "\<not> prefix ''/'' (join ''/'' ?st)" by (cases qs; simp add: q)+
      then have c: "filepath_Clean x = join ''/'' ?st" using False by (simp add: out)
      have "foldl (clean_step False) [] (split_on CHR ''/'' (filepath_Clean x)) = ?st"
        using clean_stack_fixed [OF stack] False nonempty by (simp add: c split)
      moreover have rel: "prefix ''/'' (filepath_Clean x) \<longleftrightarrow> False" using j(2) by (simp add: c)
      ultimately have "path_stack (filepath_Clean x) = ?st" by (simp only: path_stack_def [of "filepath_Clean x"])
      then show ?thesis using False j by (simp add: clean_dir_def) (simp add: c)
    qed
  qed
qed

lemma Clean_not_Nil [simp]: "filepath_Clean x \<noteq> []"
  by (simp add: filepath_Clean_def Let_def)

definition joined :: "string \<Rightarrow> string \<Rightarrow> string" where
  "joined root dir = (if dir = [] then root else root @ ''/'' @ dir)"

lemma Join_name:
  assumes "root \<noteq> []" "plain_part q"
  shows "filepath_Join [root, dir, q] = clean_dir (joined root dir) @ q"
    and "filepath_Join [filepath_Join [root, dir], q] = clean_dir (joined root dir) @ q"
proof -
  have q: "q \<noteq> []" using assms(2) by (simp add: plain_part_def)
  have x: "joined root dir \<noteq> []" using assms(1) by (simp add: joined_def)
  have two: "filepath_Join [root, dir] = filepath_Clean (joined root dir)"
    using assms(1) by (simp add: filepath_Join_def joined_def)
  have "filepath_Join [root, dir, q] = filepath_Clean (joined root dir @ ''/'' @ q)"
    using assms(1) q by (simp add: filepath_Join_def joined_def)
  then show "filepath_Join [root, dir, q] = clean_dir (joined root dir) @ q"
    by (simp only: Clean_snoc [OF x assms(2)])
  have "filepath_Join [filepath_Clean (joined root dir), q] = filepath_Clean (filepath_Clean (joined root dir) @ ''/'' @ q)"
    using q by (simp add: filepath_Join_def)
  then show "filepath_Join [filepath_Join [root, dir], q] = clean_dir (joined root dir) @ q"
    by (simp only: two Clean_snoc [OF Clean_not_Nil assms(2)] clean_dir_Clean)
qed

lemma clean_dir_ends: "clean_dir x = [] \<or> suffix ''/'' (clean_dir x)"
proof (cases "path_stack x" rule: rev_cases)
  case (snoc qs q)
  then show ?thesis by (simp add: clean_dir_def suffix_def)
qed (simp add: clean_dir_def)

text \<open>A file name splits off its directory in one way.\<close>

lemma dir_name_unique:
  assumes "clean_dir x @ q = clean_dir y @ s" "CHR ''/'' \<notin> set q" "CHR ''/'' \<notin> set s"
  shows "clean_dir x = clean_dir y \<and> q = s"
proof -
  have side: "us = []" if "clean_dir z = v @ us" "s' = us @ q'" "CHR ''/'' \<notin> set s'" for z v us s' q' :: string
  proof (rule ccontr)
    assume us: "us \<noteq> []"
    then have "suffix ''/'' (clean_dir z)" using clean_dir_ends [of z] that(1) by auto
    then have "last us = CHR ''/''" using us that(1) by (auto simp: suffix_def dest: arg_cong [of _ _ last])
    then have "CHR ''/'' \<in> set us" using us last_in_set by metis
    with that(2,3) show False by simp
  qed
  from assms(1) obtain us where "clean_dir x = clean_dir y @ us \<and> us @ q = s \<or> clean_dir x @ us = clean_dir y \<and> q = us @ s"
    unfolding append_eq_append_conv2 by blast
  then show ?thesis
  proof
    assume u: "clean_dir x = clean_dir y @ us \<and> us @ q = s"
    then have "us = []" using side [of x "clean_dir y" us s q] assms(3) by blast
    with u show ?thesis by simp
  next
    assume u: "clean_dir x @ us = clean_dir y \<and> q = us @ s"
    then have "us = []" using side [of y "clean_dir x" us q s] assms(2) by metis
    with u show ?thesis by simp
  qed
qed

section \<open>What the jet pass finds\<close>

definition ddl_file :: "string \<Rightarrow> emitted \<Rightarrow> file_content" where
  "ddl_file root out = \<lparr>FilePath = ddl_path root out, Content = EmDDL out\<rparr>"

definition same_dir :: "string \<Rightarrow> string \<Rightarrow> string \<Rightarrow> bool" where
  "same_dir root d e \<longleftrightarrow> clean_dir (joined root d) = clean_dir (joined root e)"

definition outputs_in :: "string \<Rightarrow> emitted list \<Rightarrow> string \<Rightarrow> emitted list" where
  "outputs_in root outs dir = filter (\<lambda>out. same_dir root dir (EmDir out)) outs"

lemma write_file_set:
  "set (write_file p c fs) = {f \<in> set fs. FilePath f \<noteq> p} \<union> {\<lparr>FilePath = p, Content = c\<rparr>}"
  by (auto simp: write_file_def)

lemma write_file_distinct: "distinct (map FilePath fs) \<Longrightarrow> distinct (map FilePath (write_file p c fs))"
proof -
  have "map FilePath (map (\<lambda>f. if FilePath f = p then \<lparr>FilePath = p, Content = c\<rparr> else f) fs) = map FilePath fs" by simp
  then show "distinct (map FilePath fs) \<Longrightarrow> distinct (map FilePath (write_file p c fs))"
    unfolding write_file_def by (auto simp del: map_map)
qed

lemma written_files:
  assumes "distinct (map FilePath fs)" "distinct (map (ddl_path root) outs)"
  shows "distinct (map FilePath (foldl (emitSchemaSQL root) fs outs))
    \<and> set (foldl (emitSchemaSQL root) fs outs)
        = {f \<in> set fs. FilePath f \<notin> ddl_path root ` set outs} \<union> ddl_file root ` set outs"
  using assms
proof (induction outs arbitrary: fs)
  case (Cons out outs)
  let ?fs = "emitSchemaSQL root fs out"
  have "set ?fs = {f \<in> set fs. FilePath f \<noteq> ddl_path root out} \<union> {ddl_file root out}"
    by (simp add: emitSchemaSQL_def write_file_set ddl_file_def)
  moreover have "FilePath (ddl_file root out) \<notin> ddl_path root ` set outs" using Cons.prems(2) by (simp add: ddl_file_def)
  ultimately have keep: "{f \<in> set ?fs. FilePath f \<notin> ddl_path root ` set outs}
      = {f \<in> set fs. FilePath f \<notin> ddl_path root ` set (out # outs)} \<union> {ddl_file root out}" by auto
  have "distinct (map FilePath ?fs)" using Cons.prems(1) by (simp add: emitSchemaSQL_def write_file_distinct)
  from Cons.IH [OF this] Cons.prems(2) show ?case by (simp add: keep)
qed simp

lemma sort_key_same_set:
  assumes "distinct (map k xs)" "distinct (map k ys)" "set xs = set ys"
  shows "sort_key k xs = sort_key k ys"
proof -
  have "mset xs = mset ys"
    using assms by (metis distinct_map set_eq_iff_mset_eq_distinct)
  moreover have "inj_on k (set xs)" using assms(1) by (simp add: distinct_map)
  ultimately show ?thesis using sort_key_inj_key_eq [of xs "sort_key k ys" k] by simp
qed

definition slash_free :: "resource_plan \<Rightarrow> bool" where
  "slash_free p \<longleftrightarrow> CHR ''/'' \<notin> set (ResourceFQN p)"

lemma byte_slash: "byte c = 47 \<longleftrightarrow> c = CHR ''/''"
  using of_char_eq_iff [of c "CHR ''/''", where 'a = int] by simp

lemma ddl_name_plain:
  assumes "slash_free p"
  shows "plain_part (FilenamePrefix p @ ''_ddl.sql'')"
proof -
  have "set (SymbolPrefix p) \<subseteq> set (ResourceFQN p)"
    using split_on_set [of "SymbolPrefix p" "CHR ''.''" "ResourceFQN p"] by (simp add: SymbolPrefix_def)
  moreover have "byte (lower_byte c) \<noteq> 47" if "byte c \<noteq> 47" for c
    using that by (auto simp: lower_byte_def)
  then have "lower_byte c \<noteq> CHR ''/''" if "c \<noteq> CHR ''/''" for c
    using that by (simp only: byte_slash [symmetric] not_False_eq_True)
  ultimately have "CHR ''/'' \<notin> lower_byte ` set (SymbolPrefix p)"
    using assms unfolding slash_free_def by (metis image_iff subsetD)
  then have "CHR ''/'' \<notin> set (FilenamePrefix p)" by (simp add: FilenamePrefix_def lower_ascii_def)
  moreover have "x \<noteq> [] \<and> x \<noteq> ''.'' \<and> x \<noteq> ''..''" if "8 \<le> length x" for x :: string
    using that by auto
  from this [of "FilenamePrefix p @ ''_ddl.sql''"]
  have "FilenamePrefix p @ ''_ddl.sql'' \<noteq> [] \<and> FilenamePrefix p @ ''_ddl.sql'' \<noteq> ''.'' \<and> FilenamePrefix p @ ''_ddl.sql'' \<noteq> ''..''"
    by simp
  ultimately show ?thesis by (simp add: plain_part_def)
qed

lemma ddl_path_parts:
  assumes "root \<noteq> []" "slash_free (EmPlan out)"
  shows "ddl_path root out = clean_dir (joined root (EmDir out)) @ FilenamePrefix (EmPlan out) @ ''_ddl.sql''"
  using Join_name(1) [OF assms(1) ddl_name_plain [OF assms(2)]] by (simp add: ddl_path_def)

lemma glob_one_dir:
  assumes "CHR ''/'' \<notin> set q" "suffix e q"
  shows "prefix (clean_dir x) (clean_dir y @ q) \<and> suffix e (drop (length (clean_dir x)) (clean_dir y @ q))
      \<and> CHR ''/'' \<notin> set (drop (length (clean_dir x)) (clean_dir y @ q)) \<longleftrightarrow> clean_dir x = clean_dir y"
proof
  assume m: "prefix (clean_dir x) (clean_dir y @ q) \<and> suffix e (drop (length (clean_dir x)) (clean_dir y @ q))
      \<and> CHR ''/'' \<notin> set (drop (length (clean_dir x)) (clean_dir y @ q))"
  then obtain s where s: "clean_dir y @ q = clean_dir x @ s" by (auto simp: prefix_def)
  then have "CHR ''/'' \<notin> set s" using m by simp
  from dir_name_unique [OF s assms(1) this] show "clean_dir x = clean_dir y" by simp
qed (simp add: assms)

lemma ddl_match_output:
  assumes "root \<noteq> []" "slash_free (EmPlan out)"
  shows "ddl_match (filepath_Join [root, dir]) (ddl_path root out) \<longleftrightarrow> same_dir root dir (EmDir out)"
proof -
  have "plain_part ''*_ddl.sql''" by code_simp
  from Join_name(2) [OF assms(1) this]
  have pat: "filepath_Join [filepath_Join [root, dir], ''*_ddl.sql''] = clean_dir (joined root dir) @ ''*_ddl.sql''" .
  have q: "CHR ''/'' \<notin> set (FilenamePrefix (EmPlan out) @ ''_ddl.sql'')"
    using ddl_name_plain [OF assms(2)] unfolding plain_part_def by blast
  have stem: "take (length (d @ e) - length e) (d @ e) = d" for d e :: string by simp
  show ?thesis
    unfolding ddl_match_def Let_def pat stem ddl_path_parts [OF assms] same_dir_def
    by (rule glob_one_dir [OF q suffixI [OF refl]])
qed

text \<open>A run that regenerates leaves no DDL file of an earlier one behind.\<close>

definition no_stale_ddl :: "string \<Rightarrow> files \<Rightarrow> emitted list \<Rightarrow> bool" where
  "no_stale_ddl root fs outs \<longleftrightarrow>
     (\<forall>f \<in> set fs. suffix ''_ddl.sql'' (FilePath f) \<longrightarrow> FilePath f \<in> ddl_path root ` set outs)"

lemma ddl_match_suffix: "ddl_match root path \<Longrightarrow> suffix ''_ddl.sql'' path"
  unfolding ddl_match_def Let_def by (elim conjE) (rule suffix_order.order_trans [OF _ suffix_drop])

lemma insort_key_map: "insort_key k (g x) (map g ys) = map g (insort_key (k \<circ> g) x ys)"
  by (induction ys) auto

lemma sort_key_map: "sort_key k (map g xs) = map g (sort_key (k \<circ> g) xs)"
  by (induction xs) (auto simp: insort_key_map comp_def)

lemma discover_written:
  assumes "root \<noteq> []" "distinct (map FilePath fs)" "distinct (map (ddl_path root) outs)"
    and "\<forall>out \<in> set outs. slash_free (EmPlan out)" "no_stale_ddl root fs outs"
  shows "discoverDDL (foldl (emitSchemaSQL root) fs outs) (filepath_Join [root, dir])
    = map (ddl_file root) (sort_key (ddl_path root) (outputs_in root outs dir))"
proof -
  let ?fs = "foldl (emitSchemaSQL root) fs outs" and ?outs = "outputs_in root outs dir"
  note w = written_files [OF assms(2,3)]
  have path: "FilePath (ddl_file root out) = ddl_path root out" for out by (simp add: ddl_file_def)
  have "set (filter (\<lambda>f. ddl_match (filepath_Join [root, dir]) (FilePath f)) ?fs) = set (map (ddl_file root) ?outs)"
  proof -
    have "f \<notin> {f \<in> set fs. FilePath f \<notin> ddl_path root ` set outs}" if "ddl_match (filepath_Join [root, dir]) (FilePath f)" for f
      using that assms(5) ddl_match_suffix unfolding no_stale_ddl_def by blast
    moreover have "ddl_match (filepath_Join [root, dir]) (FilePath (ddl_file root out)) \<longleftrightarrow> same_dir root dir (EmDir out)"
      if "out \<in> set outs" for out
      using ddl_match_output [OF assms(1)] assms(4) that by (simp add: path)
    ultimately show ?thesis using conjunct2 [OF w] by (auto simp: outputs_in_def)
  qed
  moreover have "distinct (map FilePath (filter (\<lambda>f. ddl_match (filepath_Join [root, dir]) (FilePath f)) ?fs))"
    using conjunct1 [OF w] by (simp add: distinct_map_filter)
  moreover have "distinct (map FilePath (map (ddl_file root) ?outs))"
    using assms(3) by (simp add: outputs_in_def path comp_def distinct_map_filter)
  ultimately have "discoverDDL ?fs (filepath_Join [root, dir]) = sort_key FilePath (map (ddl_file root) ?outs)"
    unfolding discoverDDL_def by (intro sort_key_same_set)
  also have "\<dots> = map (ddl_file root) (sort_key (FilePath \<circ> ddl_file root) ?outs)"
    by (rule sort_key_map)
  also have "FilePath \<circ> ddl_file root = ddl_path root" by (simp add: comp_def path)
  finally show ?thesis .
qed

section \<open>What the jet pass applies\<close>

lemma jet_pass_member:
  assumes "jet_pass pg jet env root fs outs dirs = Ok models" "dir \<in> set dirs"
  shows "\<exists>ms. runFromDDL pg jet env fs [filepath_Join [root, dir]] (distinctTenantRoles (plans_in outs dir))
        (jetColumnOverrides (plans_in outs dir)) = Ok ms
      \<and> (filepath_Join [filepath_Join [root, dir], ''jet''], ms) \<in> set models"
  using assms
proof (induction dirs arbitrary: models)
  case (Cons d dirs)
  then obtain ms rest where m: "runFromDDL pg jet env fs [filepath_Join [root, d]] (distinctTenantRoles (plans_in outs d))
        (jetColumnOverrides (plans_in outs d)) = Ok ms"
    "jet_pass pg jet env root fs outs dirs = Ok rest" "models = (filepath_Join [filepath_Join [root, d], ''jet''], ms) # rest"
    by (auto simp: go_simps Let_def)
  show ?case
  proof (cases "dir = d")
    case False
    with Cons.IH [OF m(2)] Cons.prems(2) m(3) show ?thesis by auto
  qed (use m in auto)
qed simp

lemma runFromDDL_Ok:
  assumes "runFromDDL pg jet env fs roots roles overrides = Ok ms"
  shows "\<exists>db0 ordered db. topoSortDDL (concat (map (discoverDDL fs) roots)) = Ok ordered
     \<and> exec_all pg db0 ordered = Ok db \<and> GenerateFromDB jet db overrides = Ok ms"
  using assms by (auto simp: runFromDDL_def Let_def go_simps split: if_splits option.splits)

definition before :: "'a list \<Rightarrow> 'a \<Rightarrow> 'a \<Rightarrow> bool" where
  "before xs x y \<longleftrightarrow> (\<exists>a b. a < b \<and> b < length xs \<and> xs ! a = x \<and> xs ! b = y)"

definition references :: "emitted \<Rightarrow> emitted \<Rightarrow> bool" where
  "references o1 o2 \<longleftrightarrow>
     (\<exists>c \<in> set (Columns (EmPlan o1)). \<exists>fk. ForeignKey c = Some fk \<and> TargetTable fk = TableName (EmPlan o2))"

text \<open>No other file of the directory creates the table, not even in a comment.\<close>

definition sole_creator :: "emitted list \<Rightarrow> emitted \<Rightarrow> bool" where
  "sole_creator outs out \<longleftrightarrow>
     (\<forall>o' \<in> set outs. TableName (EmPlan out) \<in> set (created_tables (EmDDL o')) \<longrightarrow> o' = out)"

definition plain_output :: "emitted \<Rightarrow> bool" where
  "plain_output out \<longleftrightarrow> slash_free (EmPlan out) \<and> one_line (ProtoFile (EmPlan out)) \<and> one_line (ResourceFQN (EmPlan out))"

lemma output_legal:
  assumes "generate mp units = Ok outs" "out \<in> set outs"
  shows "legal_ident (TableName (EmPlan out)) \<and> renderSchemaSQL (EmPlan out) = Some (EmDDL out)"
proof -
  obtain m p where "resolveResource mp m = Ok (Some p)" "same_outline p (EmPlan out)"
    using list_all2_source [OF outputs_of_units [OF assms(1)] assms(2)] by blast
  then have "ddl_ready (EmPlan out)" using resolved_ddl_ready same_outline_ready by blast
  moreover obtain pending where "\<forall>e \<in> set outs. renderSchemaSQL (EmPlan e) = Some (EmDDL e) \<and> emitSchema (EmPlan e) = Ok (EmSchema e)"
    by (rule generate_stages [OF assms(1)]) blast
  ultimately show ?thesis using assms(2) by (simp add: ddl_ready_def)
qed

lemma targets_before:
  assumes "generate mp units = Ok outs" "\<forall>out \<in> set outs. plain_output out"
    and "set xs \<subseteq> set outs" "distinct (map (ddl_path root) xs)" "topoSortDDL (map (ddl_file root) xs) = Ok ordered"
    and "o1 \<in> set xs" "o2 \<in> set xs" "o1 \<noteq> o2" "references o1 o2" "sole_creator xs o2"
  shows "before ordered (ddl_file root o2) (ddl_file root o1)"
proof -
  obtain i j where ij: "i < length xs" "xs ! i = o1" "j < length xs" "xs ! j = o2"
    using assms(6,7) by (auto simp: in_set_conv_nth)
  obtain c fk where fk: "c \<in> set (Columns (EmPlan o1))" "ForeignKey c = Some fk" "TargetTable fk = TableName (EmPlan o2)"
    using assms(9) by (auto simp: references_def)
  have "\<forall>out \<in> set xs. renderSchemaSQL (EmPlan out) = Some (Content (ddl_file root out)) \<and> legal_ident (TableName (EmPlan out))
      \<and> one_line (ProtoFile (EmPlan out)) \<and> one_line (ResourceFQN (EmPlan out))"
    using output_legal [OF assms(1)] assms(2,3) by (auto simp: ddl_file_def plain_output_def)
  then have r: "rendered_files (map EmPlan xs) (map (ddl_file root) xs)"
    by (simp add: rendered_files_def list_all2_conv_all_nth)
  have "distinct xs" using assms(4) by (simp add: distinct_map)
  then have "k = j" if "k < length xs" "TableName (EmPlan o2) \<in> set (created_tables (EmDDL (xs ! k)))" for k
  proof -
    have "xs ! k = o2" using assms(10) that by (simp add: sole_creator_def)
    with ij(3,4) that(1) show "k = j" using \<open>distinct xs\<close> nth_eq_iff_index_eq by metis
  qed
  then have "\<exists>a b. a < b \<and> b < length ordered \<and> ordered ! a = map (ddl_file root) xs ! j \<and> ordered ! b = map (ddl_file root) xs ! i"
    using ij fk assms(8)
    by (intro rendered_target_first [OF r assms(5), of i j c fk]) (auto simp: ddl_file_def)
  with ij show ?thesis by (simp add: before_def)
qed

text \<open>
  C16: A run of the plugin that succeeds has, for the directory of every output, applied the DDL files
  of exactly the outputs of that directory, each once, the table a foreign key references before the
  table that declares the key, and has written the models of the resulting database with the type
  overrides of that directory. The files have paths of their own, and no DDL file of an earlier run
  is left over.
\<close>

theorem plugin_applies_outputs:
  assumes "plugin_run pg jet env root fs units = Ok (written, models)"
    and "read_file fs (filepath_Join [root, ''go.mod'']) = Some body" "readGoModulePath body = Some mp"
    and "generate mp units = Ok outs" "out \<in> set outs"
    and "distinct (map FilePath fs)" "distinct (map (ddl_path root) outs)" "no_stale_ddl root fs outs"
    and "\<forall>out \<in> set outs. plain_output out"
  shows "\<exists>db0 ordered db ms. exec_all pg db0 ordered = Ok db
    \<and> mset ordered = mset (map (ddl_file root) (outputs_in root outs (EmDir out)))
    \<and> (\<forall>o1 \<in> set (outputs_in root outs (EmDir out)). \<forall>o2 \<in> set (outputs_in root outs (EmDir out)).
        o1 \<noteq> o2 \<and> references o1 o2 \<and> sole_creator (outputs_in root outs (EmDir out)) o2
          \<longrightarrow> before ordered (ddl_file root o2) (ddl_file root o1))
    \<and> GenerateFromDB jet db (jetColumnOverrides (plans_in outs (EmDir out))) = Ok ms
    \<and> (filepath_Join [filepath_Join [root, EmDir out], ''jet''], ms) \<in> set models"
proof -
  let ?xs = "sort_key (ddl_path root) (outputs_in root outs (EmDir out))"
  have run: "root \<noteq> []" "written = foldl (emitSchemaSQL root) fs outs"
    "jet_pass pg jet env root written outs (output_dirs outs) = Ok models"
    using assms(1-4) by (auto simp: plugin_run_def go_simps Let_def split: if_splits)
  have "EmDir out \<in> set (output_dirs outs)" using assms(5) by (simp add: output_dirs_def)
  from jet_pass_member [OF run(3) this] obtain ms where
    ms: "runFromDDL pg jet env written [filepath_Join [root, EmDir out]] (distinctTenantRoles (plans_in outs (EmDir out)))
        (jetColumnOverrides (plans_in outs (EmDir out))) = Ok ms"
      "(filepath_Join [filepath_Join [root, EmDir out], ''jet''], ms) \<in> set models" by blast
  have "\<forall>out \<in> set outs. slash_free (EmPlan out)" using assms(9) by (simp add: plain_output_def)
  from discover_written [OF run(1) assms(6,7) this assms(8)]
  have found: "concat (map (discoverDDL written) [filepath_Join [root, EmDir out]]) = map (ddl_file root) ?xs"
    by (simp add: run(2))
  obtain db0 ordered db where o: "topoSortDDL (map (ddl_file root) ?xs) = Ok ordered" "exec_all pg db0 ordered = Ok db"
    "GenerateFromDB jet db (jetColumnOverrides (plans_in outs (EmDir out))) = Ok ms"
    using runFromDDL_Ok [OF ms(1)] unfolding found by blast
  have xs: "set ?xs \<subseteq> set outs" by (auto simp: outputs_in_def)
  have "mset (map (ddl_path root) ?xs) = mset (map (ddl_path root) (outputs_in root outs (EmDir out)))" by simp
  then have dist: "distinct (map (ddl_path root) ?xs)"
    using assms(7) mset_eq_imp_distinct_iff by (fastforce simp: outputs_in_def distinct_map_filter)
  have "before ordered (ddl_file root o2) (ddl_file root o1)"
    if "o1 \<in> set ?xs" "o2 \<in> set ?xs" "o1 \<noteq> o2" "references o1 o2" "sole_creator ?xs o2" for o1 o2
    using that by (rule targets_before [OF assms(4,9) xs dist o(1)])
  moreover have "mset ordered = mset (map (ddl_file root) (outputs_in root outs (EmDir out)))"
    using topo_mset [OF o(1)] by simp
  ultimately show ?thesis using o(2,3) ms(2)
    by (intro exI [of _ db0] exI [of _ ordered] exI [of _ db] exI [of _ ms]) (simp add: sole_creator_def)
qed

text \<open>The library of \<open>Generator\<close> in a fresh repository.\<close>

definition fresh_repo :: files where
  "fresh_repo = [\<lparr>FilePath = ''go.mod'', Content = ''module example.com/lib''\<rparr>]"

definition seen_tables :: "string list go_jet" where
  "seen_tables = \<lparr>TablesOf = (\<lambda>db schema. Some [(''schema_migrations'', []),
     (''times'', [(''checkpoints'', True, \<lparr>TtImport = [], TtName = ''string''\<rparr>)])])\<rparr>"

lemma fresh_paths:
  assumes "map EmPlan outs = [sample_resource, times_plan]" "map EmDir outs = [''v1/storage'', ''v1/storage'']"
  shows "map (ddl_path ''.'') outs = [''v1/storage/run_ddl.sql'', ''v1/storage/times_ddl.sql'']"
    and "outputs_in ''.'' outs ''v1/storage'' = outs" "\<forall>out \<in> set outs. plain_output out"
    and "no_stale_ddl ''.'' fresh_repo outs"
proof -
  obtain o1 o2 where o: "outs = [o1, o2]" "EmPlan o1 = sample_resource" "EmPlan o2 = times_plan"
    "EmDir o1 = ''v1/storage''" "EmDir o2 = ''v1/storage''"
    using assms by (auto simp: map_eq_Cons_conv)
  have n: "FilenamePrefix sample_resource = ''run''" "FilenamePrefix times_plan = ''times''"
    "slash_free sample_resource" "one_line (ProtoFile sample_resource)" "one_line (ResourceFQN sample_resource)"
    "slash_free times_plan" "one_line (ProtoFile times_plan)" "one_line (ResourceFQN times_plan)"
    by code_simp+
  have j: "filepath_Join [''.'', ''v1/storage'', ''run_ddl.sql''] = ''v1/storage/run_ddl.sql''"
    "filepath_Join [''.'', ''v1/storage'', ''times_ddl.sql''] = ''v1/storage/times_ddl.sql''"
    by code_simp+
  show "map (ddl_path ''.'') outs = [''v1/storage/run_ddl.sql'', ''v1/storage/times_ddl.sql'']"
    by (simp add: o ddl_path_def n j)
  show "outputs_in ''.'' outs ''v1/storage'' = outs" by (simp add: o outputs_in_def same_dir_def)
  show "\<forall>out \<in> set outs. plain_output out" by (simp add: o plain_output_def n)
  have "\<not> suffix ''_ddl.sql'' ''go.mod''" by code_simp
  then show "no_stale_ddl ''.'' fresh_repo outs" by (simp add: no_stale_ddl_def fresh_repo_def)
qed

lemma two_files_sorted:
  assumes "referenced_tables (Content g) = []"
  shows "\<exists>ordered. topoSortDDL [f, g] = Ok ordered"
proof -
  have "owners_of [f, g] 1 = []" using assms by (simp add: owners_of_def List.map_filter_def)
  moreover have "set (owners_of [f, g] 0) \<subseteq> {1}"
    using table_owner_range [of "[f, g]"] by (fastforce simp: owners_of_def List.map_filter_def less_Suc_eq)
  ultimately have p: "set [1, 0 :: nat] = {0..<length [f, g]}" "deps_first (owners_of [f, g]) [1, 0]"
    by (auto simp: deps_first_def less_Suc_eq)
  obtain out d where o: "topo_order (length [f, g]) (owners_of [f, g]) = (out, d)" by fastforce
  from ddl.complete_if_order_exists [OF ddl.topo_order_inv [OF o] p] o show ?thesis
    by (simp add: topoSortDDL_def)
qed

lemma recorder_applies: "\<exists>db'. exec_all recorder db fs = Ok db'" "\<exists>db'. create_roles recorder db roles = Ok db'"
proof -
  show "\<exists>db'. exec_all recorder db fs = Ok db'" by (induction fs arbitrary: db) (auto simp: recorder_def)
  show "\<exists>db'. create_roles recorder db roles = Ok db'" by (induction roles arbitrary: db) (auto simp: recorder_def)
qed

lemma times_reference_nothing:
  assumes "renderSchemaSQL times_plan = Some ddl"
  shows "referenced_tables ddl = []"
proof -
  have body: "find_all m_reference False True (CHR 0x0A # body_of times_plan) = []" "renderIndexes times_plan \<noteq> None"
    by code_simp+
  have names: "one_line (ProtoFile times_plan)" "one_line (ResourceFQN times_plan)"
    "CHR ''F'' \<notin> set (ProtoFile times_plan)" "CHR ''F'' \<notin> set (ResourceFQN times_plan)" by code_simp+
  show ?thesis using assms file_of_rendered [OF body(2)] scan_file(2) [OF names] body(1) by simp
qed

lemma paths_in_order: "''v1/storage/run_ddl.sql'' \<le> ''v1/storage/times_ddl.sql''"
  by code_simp

lemma fresh_run:
  assumes "generate ''example.com/lib'' library_units = Ok outs"
    "map EmPlan outs = [sample_resource, times_plan]" "map EmDir outs = [''v1/storage'', ''v1/storage'']"
  shows "\<exists>written models. plugin_run recorder seen_tables [] ''.'' fresh_repo library_units = Ok (written, models)"
proof -
  note f = fresh_paths [OF assms(2,3)]
  let ?w = "foldl (emitSchemaSQL ''.'') fresh_repo outs" and ?plans = "plans_in outs ''v1/storage''"
  obtain o1 o2 where o: "outs = [o1, o2]" using assms(2) by (auto simp: map_eq_Cons_conv)
  have d: "distinct (map FilePath fresh_repo)" "distinct (map (ddl_path ''.'') outs)"
    unfolding f(1) by (simp_all add: fresh_repo_def)
  have slash: "\<forall>out \<in> set outs. slash_free (EmPlan out)" using f(3) by (simp add: plain_output_def)
  have "sort_key (ddl_path ''.'') outs = [o1, o2]"
  proof -
    have "ddl_path ''.'' o1 \<le> ddl_path ''.'' o2" using f(1) unfolding o by (simp add: paths_in_order)
    then show ?thesis by (simp add: o)
  qed
  then have found: "discoverDDL ?w (filepath_Join [''.'', ''v1/storage'']) = [ddl_file ''.'' o1, ddl_file ''.'' o2]"
    using discover_written [OF _ d slash f(4), of "''v1/storage''"] by (simp add: f(2))
  have "renderSchemaSQL times_plan = Some (EmDDL o2)"
    using output_legal [OF assms(1), of o2] assms(2) by (simp add: o)
  then have "referenced_tables (Content (ddl_file ''.'' o2)) = []"
    using times_reference_nothing by (simp add: ddl_file_def)
  then obtain ordered where ordered: "topoSortDDL [ddl_file ''.'' o1, ddl_file ''.'' o2] = Ok ordered"
    using two_files_sorted by blast
  have start: "NewPG recorder = Some []" "ConnectPG recorder [] = True" by (simp_all add: recorder_def)
  obtain db1 where db1: "create_roles recorder [] (bootstrap_roles (distinctTenantRoles ?plans) []) = Ok db1"
    using recorder_applies(2) by blast
  obtain db2 where db2: "exec_all recorder db1 ordered = Ok db2" using recorder_applies(1) by blast
  obtain ms where ms: "GenerateFromDB seen_tables db2 (jetColumnOverrides ?plans) = Ok ms"
    by (auto simp: GenerateFromDB_def seen_tables_def)
  have "runFromDDL recorder seen_tables [] ?w [filepath_Join [''.'', ''v1/storage'']] (distinctTenantRoles ?plans)
      (jetColumnOverrides ?plans) = Ok ms"
    by (simp add: runFromDDL_def found start db1 ordered db2 ms)
  moreover have "output_dirs outs = [''v1/storage'']" by (simp add: output_dirs_def assms(3))
  ultimately have "\<exists>models. jet_pass recorder seen_tables [] ''.'' ?w outs (output_dirs outs) = Ok models"
    by (simp add: Let_def)
  moreover have "read_file fresh_repo (filepath_Join [''.'', ''go.mod'']) = Some ''module example.com/lib''"
    "readGoModulePath ''module example.com/lib'' = Some ''example.com/lib''" by code_simp+
  ultimately show ?thesis using assms(1) by (auto simp: plugin_run_def Let_def)
qed

theorem plugin_applies_outputs_witness:
  "\<exists>written models db0 ordered db. plugin_run recorder seen_tables [] ''.'' fresh_repo library_units = Ok (written, models)
     \<and> exec_all recorder db0 ordered = Ok db
     \<and> mset (map FilePath ordered) = {#''v1/storage/run_ddl.sql'', ''v1/storage/times_ddl.sql''#}"
proof (rule library_runs)
  fix outs assume g: "generate ''example.com/lib'' library_units = Ok outs"
    and plans: "map EmPlan outs = [sample_resource, times_plan]" and dirs: "map EmDir outs = [''v1/storage'', ''v1/storage'']"
  note f = fresh_paths [OF plans dirs]
  obtain written models where run: "plugin_run recorder seen_tables [] ''.'' fresh_repo library_units = Ok (written, models)"
    using fresh_run [OF g plans dirs] by blast
  obtain out where out: "out \<in> set outs" "EmDir out = ''v1/storage''" using dirs by (cases outs) auto
  have d: "distinct (map FilePath fresh_repo)" "distinct (map (ddl_path ''.'') outs)"
    unfolding f(1) by (simp_all add: fresh_repo_def)
  have mod: "read_file fresh_repo (filepath_Join [''.'', ''go.mod'']) = Some ''module example.com/lib''"
    "readGoModulePath ''module example.com/lib'' = Some ''example.com/lib''" by code_simp+
  obtain db0 ordered db where r: "exec_all recorder db0 ordered = Ok db" "mset ordered = mset (map (ddl_file ''.'') outs)"
    using plugin_applies_outputs [OF run mod g out(1) d f(4) f(3)] unfolding out(2) f(2) by blast
  have "mset (map FilePath ordered) = mset (map (ddl_path ''.'') outs)"
    using arg_cong [OF r(2), of "image_mset FilePath"] by (simp add: multiset.map_comp comp_def ddl_file_def)
  with run r(1) show ?thesis unfolding f(1) by (intro exI conjI) simp_all
qed

section \<open>The check reads what the plugin wrote\<close>

definition managed_output :: "string \<Rightarrow> emitted \<Rightarrow> plugin_managed" where
  "managed_output root out =
     \<lparr>DDLPath = ddl_path root out, ManagedTable = TableName (EmPlan out), ManagedFQN = ResourceFQN (EmPlan out)\<rparr>"

lemma output_managed:
  assumes "generate mp units = Ok outs" "out \<in> set outs" "plain_output out"
    and "word (ResourceFQN (EmPlan out)) \<or> ResourceFQN (EmPlan out) = []"
  shows "managed_of (ddl_file root out) = Ok (managed_output root out)"
proof -
  obtain m p where "resolveResource mp m = Ok (Some p)" "same_outline p (EmPlan out)"
    using list_all2_source [OF outputs_of_units [OF assms(1)] assms(2)] by blast
  then have "ddl_ready (EmPlan out)" using resolved_ddl_ready same_outline_ready by blast
  moreover have "one_line (ProtoFile (EmPlan out))" using assms(3) by (simp add: plain_output_def)
  ultimately obtain stmts where "renderSchemaSQL (EmPlan out) = Some (ddl_header (EmPlan out) @ stmts)"
    "extractTableName (ddl_header (EmPlan out) @ stmts) = Some (TableName (EmPlan out))"
    "extractResourceFQN (ddl_header (EmPlan out) @ stmts) = ResourceFQN (EmPlan out)"
    using ddl_reads_back [OF _ _ assms(4)] by blast
  with output_legal [OF assms(1,2)] show ?thesis
    by (simp add: managed_of_def ddl_file_def managed_output_def)
qed



section \<open>Two messages, one file\<close>

definition shouting_message :: proto_message where
  "shouting_message = times_message\<lparr>msg_fqn := ''lib.v1.TIMES'', msg_go_name := ''TIMES'',
     msg_table := map_option (\<lambda>t. t\<lparr>tb_name := ''old_times''\<rparr>) (msg_table times_message)\<rparr>"

definition shouting_plan :: resource_plan where
  "shouting_plan = (case resolveResource ''example.com/lib'' shouting_message of Ok (Some p) \<Rightarrow> p | _ \<Rightarrow> empty_plan)"

definition shouting_units :: "proto_unit list list" where
  "shouting_units =
     [[\<lparr>PuSource = ''times.proto:3: Times'', PuTree = Nested ''Times'' True [], PuMessage = times_message, PuOutput = no_output\<rparr>,
       \<lparr>PuSource = ''times.proto:9: TIMES'', PuTree = Nested ''TIMES'' True [], PuMessage = shouting_message, PuOutput = no_output\<rparr>]]"

lemma shouting_plan_resolved: "resolveResource ''example.com/lib'' shouting_message = Ok (Some shouting_plan)"
proof -
  have "case resolveResource ''example.com/lib'' shouting_message of Ok (Some p) \<Rightarrow> True | _ \<Rightarrow> False"
    by code_simp
  then show ?thesis
    by (auto simp: shouting_plan_def split: outcome.splits option.splits)
qed

text \<open>
  File names are lower-cased message names, and only tables are compared: two messages whose names differ
  in case pass every check and write one DDL file, so that the table of the first is lost.
\<close>

lemma case_collision_loses_table:
  "\<exists>outs o1 o2. generate ''example.com/lib'' shouting_units = Ok outs \<and> outs = [o1, o2]
     \<and> TableName (EmPlan o1) = ''times'' \<and> TableName (EmPlan o2) = ''old_times''
     \<and> map FilePath (foldl (emitSchemaSQL ''.'') fresh_repo outs) = [''go.mod'', ''v1/storage/times_ddl.sql'']
     \<and> read_file (foldl (emitSchemaSQL ''.'') fresh_repo outs) ''v1/storage/times_ddl.sql'' = Some (EmDDL o2)"
proof -
  let ?dir = "''v1/storage''"
  let ?pending = "[\<lparr>PeSource = ''times.proto:3: Times'', PeGoDir = ?dir, PePlan = times_plan\<rparr>,
    \<lparr>PeSource = ''times.proto:9: TIMES'', PeGoDir = ?dir, PePlan = shouting_plan\<rparr>]"
  have dir: "GoDir (resolveOutput ''example.com/lib'' ''example.com/lib/v1'' no_output) = ?dir" by code_simp
  have go: "msg_go_pkg times_message = ''example.com/lib/v1''" "msg_go_pkg shouting_message = ''example.com/lib/v1''"
    by (simp_all add: times_message_def shouting_message_def)
  have r: "resolve_files ''example.com/lib'' shouting_units = Ok ([], ?pending)"
    by (simp add: shouting_units_def times_plan_resolved shouting_plan_resolved go dir nested_errors_def List.map_filter_def)
  have n: "TableName times_plan = ''times''" "TableName shouting_plan = ''old_times''"
    "FilenamePrefix times_plan = ''times''" "FilenamePrefix shouting_plan = ''times''" by code_simp+
  have d: "distinct (map table_key ?pending)" by (simp add: table_key_def n)
  have "list_all (\<lambda>c. ForeignKey c = None) (Columns times_plan)" "is_ok (emitSchema times_plan)"
    "list_all (\<lambda>c. ForeignKey c = None) (Columns shouting_plan)" "is_ok (emitSchema shouting_plan)"
    by code_simp+
  then have "\<forall>p \<in> set (map PePlan ?pending). list_all (\<lambda>c. ForeignKey c = None) (Columns p) \<and> is_ok (emitSchema p)"
    by simp
  from plain_run [OF r d this] obtain outs where g: "generate ''example.com/lib'' shouting_units = Ok outs"
    "map EmPlan outs = [times_plan, shouting_plan]" "map EmDir outs = [?dir, ?dir]" by auto
  then obtain o1 o2 where o: "outs = [o1, o2]" "EmPlan o1 = times_plan" "EmPlan o2 = shouting_plan" "EmDir o1 = ?dir" "EmDir o2 = ?dir"
    by (auto simp: map_eq_Cons_conv)
  have "filepath_Join [''.'', ?dir, ''times_ddl.sql''] = ''v1/storage/times_ddl.sql''" by code_simp
  then have p: "ddl_path ''.'' o1 = ''v1/storage/times_ddl.sql''" "ddl_path ''.'' o2 = ''v1/storage/times_ddl.sql''"
    by (simp_all add: ddl_path_def o n)
  show ?thesis
    by (intro exI [of _ outs] exI [of _ o1] exI [of _ o2])
      (simp add: g(1) o n emitSchemaSQL_def p write_file_def fresh_repo_def read_file_def)
qed

end
