(* ===== verification/Alias_Text.thy ===== *)
theory Alias_Text
  imports Aliases Plugin_Run
begin

text \<open>
  The text of the alias file, \<^verbatim>\<open>renderAliases\<close> of \<^verbatim>\<open>emit_aliases.go\<close>, as its lines before
  formatting: the field lists of \<open>Aliases\<close> with what is written around them. \<open>s\<close> is the symbol prefix.
\<close>

section \<open>The lines\<close>

abbreviation tab :: string where
  "tab \<equiv> [CHR 0x09]"

abbreviation dq :: string where
  "dq \<equiv> [CHR 0x22]"

text \<open>\<^verbatim>\<open>strconv.Quote\<close> of ASCII text.\<close>

definition hex_digit :: "int \<Rightarrow> char" where
  "hex_digit n = (if n < 10 then char_of (48 + n) else char_of (87 + n))"

definition quote_byte :: "char \<Rightarrow> string" where
  "quote_byte c =
     (if c = CHR 0x22 then [CHR 0x5C, CHR 0x22]
      else if c = CHR 0x5C then [CHR 0x5C, CHR 0x5C]
      else if 32 \<le> byte c \<and> byte c < 127 then [c]
      else case map_of [(7, CHR ''a''), (8, CHR ''b''), (12, CHR ''f''), (10, CHR ''n''), (13, CHR ''r''), (9, CHR ''t''), (11, CHR ''v'')] (byte c) of
        Some e \<Rightarrow> [CHR 0x5C, e]
      | None \<Rightarrow> [CHR 0x5C, CHR ''x'', hex_digit (byte c div 16), hex_digit (byte c mod 16)])"

definition go_quote :: "string \<Rightarrow> string" where
  "go_quote v = dq @ concat (map quote_byte v) @ dq"

definition alias_imports :: "string \<Rightarrow> resource_plan \<Rightarrow> output_paths \<Rightarrow> string \<Rightarrow> string list" where
  "alias_imports s p out go_import =
     [''// Code generated by protoc-gen-go-jet. DO NOT EDIT.'',
      ''// Source: '' @ ProtoFile p,
      [],
      ''package '' @ GoPackageName out,
      [],
      ''import ('',
      tab @ ''_ '' @ dq @ ''embed'' @ dq @ '' // needed for the go:embed directive on '' @ s @ ''DDL below.'',
      [],
      tab @ dq @ ''github.com/go-jet/jet/v2/postgres'' @ dq,
      [],
      tab @ ''aipjet '' @ dq @ ''github.com/redpanda-data/protoc-gen-go-jet/pkg/aip/jet'' @ dq,
      tab @ ''model '' @ go_quote (JetModelImport out),
      tab @ ''table '' @ go_quote (JetTableImport out)]
     @ (if hasColumn p ''updated_by''
        then [[],
              tab @ ''proto '' @ go_quote go_import]
        else [])
     @ ['')'',
      []]"

definition alias_names :: "string \<Rightarrow> resource_plan \<Rightarrow> string \<Rightarrow> string list" where
  "alias_names s p proto_fqn =
     [''// '' @ s @ ''ResourceType is the fully-qualified proto name of this resource.'',
      ''// Use it for authorization strings, structured logs, and anywhere'',
      ''// you'' @ [CHR 0x27] @ ''d otherwise hand-write the proto FQN.'',
      ''const '' @ s @ ''ResourceType = '' @ go_quote proto_fqn,
      [],
      ''// '' @ s @ ''Model is the go-jet-generated row struct for this resource'' @ [CHR 0x27] @ ''s table.'',
      ''// Re-exported so callers have one import surface for storage types.'',
      ''type '' @ s @ ''Model = model.'' @ JetStructName p,
      [],
      ''// '' @ s @ ''Table is the go-jet-generated query-builder table for this resource.'',
      ''// Use '' @ s @ ''Table.<ColumnName> directly in SQL builder expressions.'',
      ''var '' @ s @ ''Table = table.'' @ JetStructName p,
      []]"

definition update_lines :: "string \<Rightarrow> resource_plan \<Rightarrow> string list" where
  "update_lines s p =
     [''// '' @ s @ ''UpdateAll returns an UPDATE statement with every mutable column'',
      ''// pre-selected '' @ em_dash @ '' every persisted field except primary-key members,'',
      ''// synthesized storage columns (tenant_id / user_id), and fields marked'',
      ''// `immutable: true` in (storage.v1.column). updated_at participates'',
      ''// automatically (the repo sets it on every mutation).'',
      ''//'',
      ''// Chain .MODEL(row).WHERE(...).RETURNING(...) to finish. A new persisted'',
      ''// proto field is picked up automatically on regen '' @ em_dash @ '' no hand-edit of the'',
      ''// repository'' @ [CHR 0x27] @ ''s column list, no silent update-drops.'',
      ''//'',
      ''// Returned as a function rather than a slice because go-jet'' @ [CHR 0x27] @ ''s UPDATE'',
      ''// takes `...jet.Column` (an internal-package variadic), and Go does not'',
      ''// allow spreading an []postgres.Column into it. The function inlines'',
      ''// the spread where the type is known.'',
      ''func '' @ s @ ''UpdateAll() postgres.UpdateStatement {'',
      tab @ ''return '' @ s @ ''Table.UPDATE('']
     @ map (\<lambda>col. tab @ tab @ s @ ''Table.'' @ col @ '','') (mutableJetFields p)
     @ [tab @ '')'',
      ''}'',
      []]"

definition filter_column_line :: "string \<Rightarrow> filterable_field \<Rightarrow> string" where
  "filter_column_line s f = tab @ tab @ go_quote (FfKey f) @ '': '' @ s @ ''Table.'' @ FfJetField f @ '',''"

definition filter_path_line :: "jsonb_filter_path \<Rightarrow> string" where
  "filter_path_line f = tab @ tab @ go_quote (JfKey f) @ '': postgres.RawString('' @ go_quote (JfExpr f) @ ''),''"

definition filter_lines :: "string \<Rightarrow> resource_plan \<Rightarrow> string list" where
  "filter_lines s p =
     [''// '' @ s @ ''FilterFields returns the AIP-160 filter field binding for this'',
      ''// resource '' @ em_dash @ '' every column the translator can produce a WHERE clause'',
      ''// for, mapped to its jet column. Pass it directly to'',
      ''// aipjet.FilterToCondition:'',
      ''//'',
      ''//'' @ tab @ ''cond, err := aipjet.FilterToCondition(params.Filter, gen.'' @ s @ ''FilterFields())'',
      ''//'',
      ''// Columns with kinds the filter grammar can'' @ [CHR 0x27] @ ''t bind (JSONB, BYTEA)'',
      ''// are excluded '' @ em_dash @ '' the translator rejects them anyway, and exposing'',
      ''// them as filterable would let callers write filters that can only'',
      ''// fail. Durations participate as BIGINT nanoseconds and accept'',
      ''// bare-int literals or duration('' @ dq @ ''5m'' @ dq @ ''). Repeated-text columns'',
      ''// (TEXT[]) participate via containment '' @ em_dash @ '' `col = '' @ dq @ ''x'' @ dq @ ''` compiles to'',
      ''// `'' @ [CHR 0x27] @ ''x'' @ [CHR 0x27] @ '' = ANY(col)` (see stringArrayOp).'',
      ''func '' @ s @ ''FilterFields() aipjet.FilterFields {'',
      tab @ ''return aipjet.FilterFields{'']
     @ map (filter_column_line s) (filterableJetFields p)
     @ map filter_path_line (jsonbFilterPaths p)
     @ [tab @ ''}'',
      ''}'',
      []]"

definition embed_lines :: "string \<Rightarrow> resource_plan \<Rightarrow> string list" where
  "embed_lines s p =
     [''// '' @ s @ ''DDL is the canonical SQL schema for this resource, embedded at'',
      ''// build time. Apply it to a database with db.Exec(ctx, '' @ s @ ''DDL).'',
      ''//'',
      ''// Useful for tests and fixtures that want the schema without reaching'',
      ''// for the migrations directory '' @ em_dash @ '' the bytes here are the exact ddl.sql'',
      ''// the plugin emits and the drift check asserts against migrations.'',
      ''//'',
      ''//go:embed '' @ FilenamePrefix p @ ''_ddl.sql'',
      ''var '' @ s @ ''DDL string'']"

definition stamp_lines :: "string \<Rightarrow> resource_plan \<Rightarrow> string list" where
  "stamp_lines s p =
     (let proto_type = ''proto.'' @ ProtoGoName p in
      (if hasColumn p ''created_by'' \<and> hasColumn p ''updated_by''
       then [[],
             ''// '' @ s @ ''StampCreate sets created_by and updated_by before a Create call.'',
             ''// Call this in the service layer with the caller'' @ [CHR 0x27] @ ''s identity (e.g. email) before repo.Create.'',
             ''func '' @ s @ ''StampCreate(r *'' @ proto_type @ '', callerEmail string) {'',
             tab @ ''r.CreatedBy = callerEmail'',
             tab @ ''r.UpdatedBy = callerEmail'',
             ''}'',
             []]
       else [])
      @ (if hasColumn p ''updated_by''
         then [''// '' @ s @ ''StampUpdate sets updated_by before an Update call.'',
               ''// Call this in the service layer with the caller'' @ [CHR 0x27] @ ''s identity (e.g. email) before repo.Update.'',
               ''func '' @ s @ ''StampUpdate(r *'' @ proto_type @ '', callerEmail string) {'',
               tab @ ''r.UpdatedBy = callerEmail'',
               ''}'']
         else []))"

definition alias_lines :: "resource_plan \<Rightarrow> output_paths \<Rightarrow> string \<Rightarrow> string \<Rightarrow> string list" where
  "alias_lines p out go_import proto_fqn =
     (let s = SymbolPrefix p in
      alias_imports s p out go_import @ alias_names s p proto_fqn @ update_lines s p @ filter_lines s p
      @ embed_lines s p @ stamp_lines s p)"

definition renderAliases :: "resource_plan \<Rightarrow> output_paths \<Rightarrow> string \<Rightarrow> string \<Rightarrow> string" where
  "renderAliases p out go_import proto_fqn = concat (map line (alias_lines p out go_import proto_fqn))"

text \<open>\<^verbatim>\<open>emitAliases\<close>: \<open>format\<close> is \<^verbatim>\<open>go/format\<close>, which refuses what is no Go file.\<close>

definition emitAliases ::
  "(string \<Rightarrow> string option) \<Rightarrow> string \<Rightarrow> resource_plan \<Rightarrow> output_paths \<Rightarrow> string \<Rightarrow> files \<Rightarrow> files option" where
  "emitAliases format repoRoot p out go_import fs =
     map_option (\<lambda>source. write_file (filepath_Join [repoRoot, GoDir out, FilenamePrefix p @ ''_aliases.go'']) source fs)
       (format (renderAliases p out go_import (ResourceFQN p)))"

section \<open>What the file lists\<close>

text \<open>A symbol prefix is a Go identifier: it starts neither with a quote nor with a blank.\<close>

definition symbol_start :: "string \<Rightarrow> bool" where
  "symbol_start s \<longleftrightarrow> s \<noteq> [] \<and> hd s \<noteq> CHR 0x22 \<and> hd s \<noteq> CHR 0x09"

definition entry_line :: "string \<Rightarrow> bool" where
  "entry_line l \<longleftrightarrow> prefix (tab @ tab @ dq) l"

definition update_line :: "string \<Rightarrow> string \<Rightarrow> bool" where
  "update_line s l \<longleftrightarrow> prefix (tab @ tab @ s @ ''Table.'') l"

definition indented :: "string \<Rightarrow> bool" where
  "indented l \<longleftrightarrow> prefix (tab @ tab) l"

lemma quoted_start: "\<exists>v. go_quote k = CHR 0x22 # v"
  by (simp add: go_quote_def)

lemma fixed_parts:
  "filter indented (alias_imports s p out go_import) = []" "filter indented (alias_names s p fqn) = []"
  "filter indented (embed_lines s p) = []" "filter indented (stamp_lines s p) = []"
  by (simp_all add: alias_imports_def alias_names_def embed_lines_def stamp_lines_def indented_def Let_def)

lemma listed_parts:
  "filter indented (update_lines s p) = map (\<lambda>col. tab @ tab @ s @ ''Table.'' @ col @ '','') (mutableJetFields p)"
  "filter indented (filter_lines s p) = map (filter_column_line s) (filterableJetFields p) @ map filter_path_line (jsonbFilterPaths p)"
  by (simp_all add: update_lines_def filter_lines_def indented_def [abs_def] filter_column_line_def filter_path_line_def
      filter_True)

lemma filter_indented: "(\<And>l. P l \<Longrightarrow> indented l) \<Longrightarrow> filter P xs = filter P (filter indented xs)"
  by (induction xs) auto

lemma line_kinds:
  assumes "symbol_start s"
  shows "update_line s (tab @ tab @ s @ ''Table.'' @ v)" "\<not> entry_line (tab @ tab @ s @ v)"
    "\<not> update_line s (filter_column_line s f)" "entry_line (filter_column_line s f)"
    "\<not> update_line s (filter_path_line g)" "entry_line (filter_path_line g)"
proof -
  obtain c w where s: "s = c # w" "c \<noteq> CHR 0x22" using assms by (cases s) (auto simp: symbol_start_def)
  obtain u v where q: "go_quote (FfKey f) = CHR 0x22 # u" "go_quote (JfKey g) = CHR 0x22 # v" using quoted_start by metis
  show "\<not> entry_line (tab @ tab @ s @ v)" for v by (simp add: entry_line_def s s(2) [symmetric])
  show "\<not> update_line s (filter_column_line s f)" "entry_line (filter_column_line s f)"
    "\<not> update_line s (filter_path_line g)" "entry_line (filter_path_line g)"
    by (simp_all add: update_line_def entry_line_def filter_column_line_def filter_path_line_def q s s(2) [symmetric])
qed (simp add: update_line_def)

text \<open>
  The alias file lists exactly the plan's fields, in the plan's order: the columns of its UPDATE are the
  mutable ones, the entries of its filter fields the filterable columns and the indexed JSONB paths.
\<close>

lemma alias_file_lists:
  assumes "symbol_start (SymbolPrefix p)"
  shows "filter (update_line (SymbolPrefix p)) (alias_lines p out go_import fqn)
      = map (\<lambda>col. tab @ tab @ SymbolPrefix p @ ''Table.'' @ col @ '','') (mutableJetFields p)"
    "filter entry_line (alias_lines p out go_import fqn)
      = map (filter_column_line (SymbolPrefix p)) (filterableJetFields p) @ map filter_path_line (jsonbFilterPaths p)"
proof -
  let ?s = "SymbolPrefix p"
  have rest: "filter indented (alias_lines p out go_import fqn)
      = map (\<lambda>col. tab @ tab @ ?s @ ''Table.'' @ col @ '','') (mutableJetFields p)
        @ map (filter_column_line ?s) (filterableJetFields p) @ map filter_path_line (jsonbFilterPaths p)"
    by (simp add: alias_lines_def Let_def fixed_parts listed_parts)
  have i: "update_line ?s l \<Longrightarrow> indented l" "entry_line l \<Longrightarrow> indented l" for l
    by (auto simp: update_line_def entry_line_def indented_def prefix_def)
  note kinds = line_kinds [OF assms]
  have "filter (update_line ?s) (alias_lines p out go_import fqn) = filter (update_line ?s) (filter indented (alias_lines p out go_import fqn))"
    by (rule filter_indented) (rule i(1))
  also have "\<dots> = map (\<lambda>col. tab @ tab @ ?s @ ''Table.'' @ col @ '','') (mutableJetFields p)"
    unfolding rest by (simp add: filter_True filter_False kinds del: append_Cons append.simps)
  finally show "filter (update_line ?s) (alias_lines p out go_import fqn)
      = map (\<lambda>col. tab @ tab @ ?s @ ''Table.'' @ col @ '','') (mutableJetFields p)" .
  have "filter entry_line (alias_lines p out go_import fqn) = filter entry_line (filter indented (alias_lines p out go_import fqn))"
    by (rule filter_indented) (rule i(2))
  also have "\<dots> = map (filter_column_line ?s) (filterableJetFields p) @ map filter_path_line (jsonbFilterPaths p)"
    unfolding rest by (simp add: filter_True filter_False kinds del: append_Cons append.simps)
  finally show "filter entry_line (alias_lines p out go_import fqn)
      = map (filter_column_line ?s) (filterableJetFields p) @ map filter_path_line (jsonbFilterPaths p)" .
qed

text \<open>The proto package is imported exactly when a stamp function needs it.\<close>

lemma proto_import_needed: "hasColumn p ''updated_by'' \<longleftrightarrow> stamp_lines s p \<noteq> []"
  by (simp add: stamp_lines_def Let_def)

text \<open>
  The stamps look at the name of the column only: for an optional \<^verbatim>\<open>updated_by\<close>, whose Go field is a
  pointer, and for one that is no string, the file assigns a string all the same.
\<close>

lemma stamps_ignore_type:
  assumes "c \<in> set (Columns p)" "DBName c = ''updated_by''"
  shows "tab @ ''r.UpdatedBy = callerEmail'' \<in> set (alias_lines p out go_import fqn)"
proof -
  have "hasColumn p ''updated_by''" using assms by (auto simp: hasColumn_def)
  then show ?thesis by (simp add: alias_lines_def stamp_lines_def Let_def)
qed

end
