(* ===== verification/Catalog_Read.thy ===== *)
theory Catalog_Read
  imports Drift Cursor_Codec
begin

text \<open>
  The rows of the foreign key query of \<^verbatim>\<open>check.go\<close>: the constrained columns come as a text of
  attribute numbers, which \<^verbatim>\<open>parseIntCSV\<close> reads.
\<close>

section \<open>Attribute numbers\<close>

text \<open>
  \<^verbatim>\<open>fmt.Sscanf\<close> with \<^verbatim>\<open>%d\<close>: a sign, then digits; what follows them is not
  looked at.
\<close>

definition scan_int :: "string \<Rightarrow> int option" where
  "scan_int s =
     (let sign = (case s of c # _ \<Rightarrow> if c = CHR ''-'' \<or> c = CHR ''+'' then [c] else [] | [] \<Rightarrow> []);
          ds = takeWhile (\<lambda>c. 48 \<le> byte c \<and> byte c \<le> 57) (drop (length sign) s) in
      if ds = [] then None
      else case ParseInt64 (sign @ ds) of Ok v \<Rightarrow> Some v | _ \<Rightarrow> None)"

definition scan_part :: "string \<Rightarrow> (unit, int) outcome" where
  "scan_part part = (case scan_int (trim_space part) of None \<Rightarrow> Err () | Some v \<Rightarrow> Ok v)"

definition parseIntCSV :: "string \<Rightarrow> (unit, int list) outcome" where
  "parseIntCSV s =
     (let t = trim_space s in
      if t = [] then Ok [] else map_out scan_part (split_on CHR '','' t))"

section \<open>Foreign keys\<close>

datatype fetch_error = BadConkey string | NoAttribute string int

type_synonym fk_row = "string \<times> string \<times> bool \<times> string"

fun raw_fk :: "fk_row \<Rightarrow> (fetch_error, string \<times> string \<times> bool \<times> int list) outcome" where
  "raw_fk (name, def, validated, conkey) =
     and_then (map_err (\<lambda>_. BadConkey conkey) (parseIntCSV conkey)) (\<lambda>cols. Ok (name, def, validated, cols))"

text \<open>All rows are read before the attribute names are asked for.\<close>

definition fetchForeignKeys :: "catalog \<Rightarrow> fk_row list \<Rightarrow> (fetch_error, snap_fk list) outcome" where
  "fetchForeignKeys cat rows =
     and_then (map_out raw_fk rows) (\<lambda>raws.
       map_err (\<lambda>(name, i). NoAttribute name i) (map_out (fetch_fk cat) raws))"

section \<open>Lemmas\<close>

lemma FormatInt_bytes: "c \<in> set (FormatInt i) \<Longrightarrow> c = CHR ''-'' \<or> 48 \<le> byte c \<and> byte c \<le> 57"
  using digits_range by (auto simp: FormatInt_def split: if_splits)

lemma FormatInt_not_Nil: "FormatInt i \<noteq> []"
  by (simp add: FormatInt_def)

lemma ints_trimmed:
  assumes "\<forall>c \<in> set s. c = CHR ''-'' \<or> c = CHR '','' \<or> 48 \<le> byte c \<and> byte c \<le> 57"
  shows "trim_space s = s"
proof -
  have b: "byte c < 128 \<and> \<not> space_byte c" if "c = CHR ''-'' \<or> c = CHR '','' \<or> 48 \<le> byte c \<and> byte c \<le> 57" for c
    using that by (elim disjE) (simp_all add: is_space_def)
  then have "ascii s" using assms unfolding ascii_def by blast
  moreover have "\<forall>c \<in> set s. \<not> space_byte c" using assms b by blast
  then have "dropWhile space_byte s = s" "dropWhile space_byte (rev s) = rev s"
    using dropWhile_id [of s space_byte] dropWhile_id [of "rev s" space_byte] hd_in_set [of s] hd_in_set [of "rev s"]
    by auto
  ultimately show ?thesis by (simp add: trim_space_ascii trim_end_def)
qed

lemma scan_int_FormatInt:
  assumes "- (2 ^ 63) \<le> i" "i < 2 ^ 63"
  shows "scan_int (FormatInt i) = Some i"
proof -
  have ds: "takeWhile (\<lambda>c. 48 \<le> byte c \<and> byte c \<le> 57) (digits n) = digits n" for n
    using digits_range by (auto simp: takeWhile_eq_all_conv)
  note p = ParseInt64_FormatInt [OF assms]
  show ?thesis
  proof (cases "i < 0")
    case True
    then have f: "FormatInt i = CHR ''-'' # digits (nat (- i))" by (simp add: FormatInt_def)
    from p show ?thesis by (simp add: scan_int_def f ds)
  next
    case False
    then have f: "FormatInt i = digits (nat i)" by (simp add: FormatInt_def)
    obtain c s where "digits (nat i) = c # s" "c \<noteq> CHR ''-''" "c \<noteq> CHR ''+''" using digits_head by blast
    then have "scan_int (digits (nat i)) = (case ParseInt64 (digits (nat i)) of Ok v \<Rightarrow> Some v | _ \<Rightarrow> None)"
      using ds [of "nat i"] by (simp add: scan_int_def)
    with p show ?thesis by (simp add: f)
  qed
qed

text \<open>What \<^verbatim>\<open>array_to_string\<close> prints is read back.\<close>

lemma parseIntCSV_reads:
  assumes "\<forall>i \<in> set ns. - (2 ^ 63) \<le> i \<and> i < 2 ^ 63"
  shows "parseIntCSV (join '','' (map FormatInt ns)) = Ok ns"
proof (cases "ns = []")
  case True
  then show ?thesis by (simp add: parseIntCSV_def)
next
  case False
  let ?s = "join '','' (map FormatInt ns)"
  have "\<forall>c \<in> set ?s. c = CHR ''-'' \<or> c = CHR '','' \<or> 48 \<le> byte c \<and> byte c \<le> 57"
    using set_join [of "'',''" "map FormatInt ns"] FormatInt_bytes by fastforce
  note trim = ints_trimmed [OF this]
  have free: "\<forall>w \<in> set (map FormatInt ns). CHR '','' \<notin> set w" using FormatInt_bytes by fastforce
  with False have split: "split_on CHR '','' ?s = map FormatInt ns" using split_on_join by simp
  have "trim_space (FormatInt i) = FormatInt i" for i using FormatInt_bytes by (intro ints_trimmed) blast
  then have "scan_part (FormatInt i) = Ok i" if "i \<in> set ns" for i
    using assms that scan_int_FormatInt by (simp add: scan_part_def)
  then have "map_out scan_part (map FormatInt ns) = Ok ns" by (induction ns) auto
  moreover have "?s \<noteq> []" using False FormatInt_not_Nil by (cases ns; cases "tl ns") auto
  ultimately show ?thesis by (simp add: parseIntCSV_def trim split)
qed

text \<open>The rows as the query gives them, over the rows the snapshot is defined on.\<close>

fun printed_row :: "string \<times> string \<times> bool \<times> int list \<Rightarrow> fk_row" where
  "printed_row (name, def, validated, conkey) = (name, def, validated, join '','' (map FormatInt conkey))"

lemma foreign_keys_fetched:
  assumes "\<forall>(name, def, validated, conkey) \<in> set rows. \<forall>i \<in> set conkey. - (2 ^ 63) \<le> i \<and> i < 2 ^ 63"
  shows "fetchForeignKeys cat (map printed_row rows)
    = map_err (\<lambda>(name, i). NoAttribute name i) (map_out (fetch_fk cat) rows)"
proof -
  have "map_out raw_fk (map printed_row rows) = Ok rows"
    using assms by (induction rows) (auto simp: parseIntCSV_reads)
  then show ?thesis by (simp add: fetchForeignKeys_def)
qed

text \<open>Text behind a number is dropped without an error.\<close>

lemma trailing_text_ignored: "parseIntCSV ''1x, 2'' = Ok [1, 2]" "parseIntCSV ''1,,2'' = Err ()"
  by code_simp+

end
