(* ===== verification/Spec2Isabelle.thy ===== *)
theory Spec2Isabelle
  imports Name_Filter Paging Filter_Expr Topo_Sort Resource_Resolve Emit_Schema Drift Aliases Generator Mapper_Sound Migration Timestamp_Array Plugin_Run Alias_Text Catalog_Read
begin

text \<open>
  A model of \<^verbatim>\<open>protoc-gen-go-jet\<close>: a protoc plugin that turns annotated proto
  messages into PostgreSQL DDL, go-jet packages and conversion code
  (\<^verbatim>\<open>cmd/protoc-gen-go-jet\<close>), and the libraries the generated code runs on: AIP-132
  ordering, AIP-158 pages and AIP-160 filters (\<^verbatim>\<open>pkg/aip\<close>, \<^verbatim>\<open>pkg/aip/jet\<close>),
  and the go-jet and scanner helpers (\<^verbatim>\<open>pkg/pgstore\<close>).

  How the parts interact. The generator resolves each message to a plan, completes the foreign keys
  across all plans, and emits for each plan a DDL file, a schema declaration, a mapper and an alias
  file; the jet pass applies the DDL of a directory in dependency order and types the columns. The
  drift check and the migration scaffold read the DDL files back. At run time the emitted schema is
  built, a request is planned against it (order, page token, filter), and a keyset statement is
  executed page by page.

  Conventions. A Go result with an error is an \<open>outcome\<close>: \<open>Ok\<close>, \<open>Err\<close> or
  \<open>Panic\<close>, so that every return, error and run-time panic of the source is a branch. Strings
  are byte lists, runes are decoded as Go decodes them; \<^verbatim>\<open>int32\<close> values are words of 32
  bits with signed reading, \<^verbatim>\<open>int64\<close> values are integers with the range written out where it
  matters. A Go map whose order is not observed is a map or an association list. Error texts
  are constructors that carry the values the texts show.

  The theories, in dependency order.

  \<^item> \<open>Go_Prelude\<close>, \<open>Go_Strings\<close>: outcomes and their automation (\<open>go_simps\<close>), UTF-8, and
    the functions of Go's \<^verbatim>\<open>strings\<close> and \<^verbatim>\<open>strconv\<close> that the source uses.
  \<^item> \<open>Aip_Errors\<close>, \<open>Order_By\<close>, \<open>Cursor_Codec\<close>, \<open>Name_Filter\<close>, \<open>Page_Token\<close>:
    \<^verbatim>\<open>pkg/aip\<close>. Lemmas: which inputs parse, errors under their sentinels, round trips of
    orderings, codecs and tokens, the lifetime of a token.
  \<^item> \<open>Query_Schema\<close>, \<open>Query_Plan\<close>, \<open>Sql_Exp\<close>, \<open>Keyset\<close>, \<open>Paging\<close>, \<open>Filter_Expr\<close>:
    \<^verbatim>\<open>pkg/aip/jet\<close>. \<open>Sql_Exp\<close> gives the SQL conditions a three-valued meaning. Lemmas:
    the keyset condition selects the rows after the cursor, following page tokens lists every row
    once, the translated filter means what the filter means.
  \<^item> \<open>Topo_Sort\<close>: \<^verbatim>\<open>apply_ddl.go\<close>, the two regular expressions and Kahn's algorithm;
    its fuel is the number of files, each of which is taken once.
  \<^item> \<open>Plan_Types\<close>, \<open>Ident\<close>, \<open>Column_Resolve\<close>, \<open>Plan_Validate\<close>, \<open>Resource_Resolve\<close>,
    \<open>Resolve_Total\<close>: \<^verbatim>\<open>plan.go\<close> and \<^verbatim>\<open>resolve.go\<close>. Lemmas: the declarative
    specification of an accepted plan (\<open>plan_ok\<close>) and of a column (\<open>column_wf\<close>), legal names,
    no panic.
  \<^item> \<open>FK_Resolve\<close>: \<^verbatim>\<open>resolve_fk.go\<close>. Lemmas: what the pass leaves alone
    (\<open>grows\<close>), and that a completed key references a unique key (\<open>backed\<close>).
  \<^item> \<open>Emit_SQL\<close>, \<open>DDL_Order\<close>: \<^verbatim>\<open>emit_sql.go\<close>, the text of the DDL, and that its
    references and creations are found in it, so that sorting puts targets first.
  \<^item> \<open>Emit_Schema\<close>: \<^verbatim>\<open>emit_schema.go\<close>, from a plan to the schema of
    \<open>Query_Schema\<close>, and that it initialises.
  \<^item> \<open>Aliases\<close>: \<^verbatim>\<open>emit_aliases.go\<close>, the filter fields a resource exposes.
  \<^item> \<open>DDL_Read\<close>, \<open>Drift\<close>: \<^verbatim>\<open>check.go\<close> and \<^verbatim>\<open>migration_scaffold.go\<close>:
    reading generated files back, discovery, normalised snapshots, their comparison and the delta.
  \<^item> \<open>Generator\<close>: \<^verbatim>\<open>main.go\<close>, \<^verbatim>\<open>jet_runner.go\<close>, \<^verbatim>\<open>jetgen.go\<close>, from
    messages to outputs: no panic, which runs succeed, and what a successful one has established.
  \<^item> \<open>Mapper\<close>: \<^verbatim>\<open>emit_mapper.go\<close>, the two conversion functions between a
    message and a row, each branch of the emitter as the effect of the Go statements it writes.
    \<open>Mapper_Roundtrip\<close>, \<open>Mapper_Keep\<close>, \<open>Mapper_Message\<close>, \<open>Mapper_Sound\<close>: maps
    re-keyed by strings, one column, a whole message there and back, and when a conversion fails.
  \<^item> \<open>Migration\<close>: \<^verbatim>\<open>runCheck\<close> of \<^verbatim>\<open>check.go\<close> and \<^verbatim>\<open>runDiff\<close> of
    \<^verbatim>\<open>migration_scaffold.go\<close> as whole commands over a database that is a parameter: the first
    migration converges, check and delta agree, and a brief holds no SQL.
  \<^item> \<open>Timestamp_Array\<close>: \<^verbatim>\<open>jettypes.go\<close>, with as much of \<^verbatim>\<open>time.Parse\<close> as its layouts
    use: which timestamps an array may hold, the round trip, and the errors.
  \<^item> \<open>Plugin_Run\<close>: the words of the command line, the files a run writes, and the jet pass over
    them (\<^verbatim>\<open>main.go\<close>, \<^verbatim>\<open>jet_runner.go\<close>, \<^verbatim>\<open>jetgen.go\<close>). Lemmas: paths in
    Go's normal form, what the jet pass applies and in which order, and that the check reads it back.
  \<^item> \<open>Alias_Text\<close>: \<^verbatim>\<open>renderAliases\<close> of \<^verbatim>\<open>emit_aliases.go\<close>, line by line, and that the
    file lists exactly the fields of \<open>Aliases\<close>.
  \<^item> \<open>Catalog_Read\<close>: the rows of the foreign key query of \<^verbatim>\<open>check.go\<close>, down to the attribute
    numbers that come as a text; the printed numbers read back.

  Interfaces. The laws that one part needs of another are locales, each interpreted on the model's
  own definitions: see the theories of the codecs, the tokens and the sorting.

  Parameters. Code that is not in the repository is an argument of the definitions that use it:
  the JSON form of a page token and SHA-256 (\<open>Page_Token\<close>), the formatting and parsing of floats
  and times (\<open>Cursor_Codec\<close>), Unicode's letter tables (\<open>Order_By\<close>), the parsed form and the types
  of filters and the column objects of go-jet (\<open>Filter_Expr\<close>, \<open>Aliases\<close>), the database
  (\<open>Paging\<close>) and its catalog (\<open>Drift\<close>), PostgreSQL as something that executes scripts
  (\<open>Migration\<close>), go-jet's reading of a schema (\<open>Plugin_Run\<close>) and the array text of
  \<^verbatim>\<open>lib/pq\<close> (\<open>Timestamp_Array\<close>). The properties state what they assume of a
  parameter as hypotheses, and a witness instantiates it.

  Not modelled, since it is I/O, generated or test code: reading options and comments out of protobuf
  descriptors and the generated options package, the Docker container and the connections to it
  (\<^verbatim>\<open>internal/testcontainers\<close>), the SQL text of the catalog queries, the parsing of flags, the
  texts of help and version, and the end-to-end harness. Of the mapper and the schema file the effect
  of the Go code is modelled, not its spelling.
\<close>

end
